(* ===== verification/Tdma_Prelude.thy ===== *)
theory Tdma_Prelude
  imports Main "HOL-Library.Word" "HOL-Library.Monad_Syntax"
begin

unbundle bit_operations_syntax

text \<open>
  Shared material of the development: the machine types of the sources, bounds-checked array
  access, the C \<open>for\<close> loop, and the lemma collections that the component theories use.

  A C++ access outside an array, a failing \<open>assert\<close> and a call of \<open>exit\<close> have no result the
  program could use; every operation that can reach one returns an \<open>option\<close>, with \<open>None\<close> for it.
\<close>

section \<open>Machine types\<close>

type_synonym u8 = "8 word"
type_synonym u16 = "16 word"
type_synonym u32 = "32 word"
type_synonym u64 = "64 word"

section \<open>Lemma collections\<close>

named_theorems loop_simps \<open>evaluation of counted loops\<close>
named_theorems array_simps \<open>bounds-checked array access\<close>

section \<open>Arrays with bounds checks\<close>

text \<open>\<open>a[i]\<close> as an rvalue, \<open>a[i] = x\<close> and an in-place update of \<open>a[i]\<close>; \<open>None\<close> out of bounds.\<close>

definition array_get :: "'a list \<Rightarrow> int \<Rightarrow> 'a option" where
  "array_get xs i = (if 0 \<le> i \<and> i < int (length xs) then Some (xs ! nat i) else None)"

definition array_mod :: "'a list \<Rightarrow> int \<Rightarrow> ('a \<Rightarrow> 'a) \<Rightarrow> 'a list option" where
  "array_mod xs i f =
     (if 0 \<le> i \<and> i < int (length xs) then Some (xs[nat i := f (xs ! nat i)]) else None)"

lemma array_get_Some [array_simps]:
  "array_get xs i = Some x \<longleftrightarrow> 0 \<le> i \<and> i < int (length xs) \<and> x = xs ! nat i"
  by (auto simp: array_get_def)

lemma array_get_in [array_simps]:
  "0 \<le> i \<Longrightarrow> i < int (length xs) \<Longrightarrow> array_get xs i = Some (xs ! nat i)"
  by (simp add: array_get_def)

lemma array_mod_in [array_simps]:
  "0 \<le> i \<Longrightarrow> i < int (length xs) \<Longrightarrow> array_mod xs i f = Some (xs[nat i := f (xs ! nat i)])"
  by (simp add: array_mod_def)

lemma array_mod_Some [array_simps]:
  "array_mod xs i f = Some ys \<longleftrightarrow>
     0 \<le> i \<and> i < int (length xs) \<and> ys = xs[nat i := f (xs ! nat i)]"
  by (auto simp: array_mod_def)

lemma array_mod_length: "array_mod xs i f = Some ys \<Longrightarrow> length ys = length xs"
  by (auto simp: array_mod_Some)

lemma ball_list_update:
  "\<forall>x \<in> set xs. P x \<Longrightarrow> P y \<Longrightarrow> \<forall>x \<in> set (xs[i := y]). P x"
  using set_update_subset_insert [of xs i y] by blast

lemma array_mod_ball:
  assumes "array_mod xs i f = Some ys" and "\<forall>x \<in> set xs. P x" and "P (f (xs ! nat i))"
  shows "\<forall>y \<in> set ys. P y"
  using assms ball_list_update [of xs P "f (xs ! nat i)" "nat i"] by (auto simp: array_mod_Some)

lemma array_mod_elem:
  "array_mod xs i f = Some ys \<Longrightarrow> \<forall>x \<in> set xs. P x \<Longrightarrow> P (xs ! nat i)"
  by (auto simp: array_mod_Some)

section \<open>Counted loops\<close>

text \<open>
  \<open>for_loop i n body s\<close> runs \<open>body\<close> at \<open>i, i + 1, \<dots>, i + n - 1\<close>; \<open>for_range lo hi\<close> is
  \<open>for (i = lo; i < hi; i++)\<close> with a bound that the body does not change.
\<close>

fun for_loop :: "int \<Rightarrow> nat \<Rightarrow> (int \<Rightarrow> 's \<Rightarrow> 's option) \<Rightarrow> 's \<Rightarrow> 's option" where
  "for_loop i 0 body s = Some s"
| "for_loop i (Suc n) body s =
     (case body i s of None \<Rightarrow> None | Some s' \<Rightarrow> for_loop (i + 1) n body s')"

definition for_range :: "int \<Rightarrow> int \<Rightarrow> (int \<Rightarrow> 's \<Rightarrow> 's option) \<Rightarrow> 's \<Rightarrow> 's option" where
  "for_range lo hi body s = for_loop lo (nat (hi - lo)) body s"

text \<open>The Hoare rule of the loop: total correctness from an invariant indexed by the counter.\<close>

lemma for_loop_rule:
  assumes "I i s"
    and "\<And>j t. i \<le> j \<Longrightarrow> j < i + int n \<Longrightarrow> I j t \<Longrightarrow> \<exists>t'. body j t = Some t' \<and> I (j + 1) t'"
  shows "\<exists>s'. for_loop i n body s = Some s' \<and> I (i + int n) s'"
  using assms
proof (induction n arbitrary: i s)
  case 0
  then show ?case by simp
next
  case (Suc n)
  from Suc.prems(2) [of i s] Suc.prems(1) obtain t
    where t: "body i s = Some t" "I (i + 1) t" by auto
  have "\<exists>s'. for_loop (i + 1) n body t = Some s' \<and> I (i + 1 + int n) s'"
    by (rule Suc.IH [OF t(2)]) (auto intro: Suc.prems(2))
  with t(1) show ?case by (auto simp: algebra_simps)
qed

lemma for_range_rule:
  assumes "I lo s" and "lo \<le> hi"
    and "\<And>j t. lo \<le> j \<Longrightarrow> j < hi \<Longrightarrow> I j t \<Longrightarrow> \<exists>t'. body j t = Some t' \<and> I (j + 1) t'"
  shows "\<exists>s'. for_range lo hi body s = Some s' \<and> I hi s'"
  using for_loop_rule [of I lo s "nat (hi - lo)" body] assms by (simp add: for_range_def)

text \<open>Partial correctness: what every completed loop keeps.\<close>

lemma for_loop_inv:
  assumes "for_loop i n body s = Some s'" and "P s"
    and "\<And>j t t'. i \<le> j \<Longrightarrow> j < i + int n \<Longrightarrow> P t \<Longrightarrow> body j t = Some t' \<Longrightarrow> P t'"
  shows "P s'"
  using assms
proof (induction n arbitrary: i s)
  case 0
  then show ?case by simp
next
  case (Suc n)
  from Suc.prems(1) obtain t where t: "body i s = Some t" "for_loop (i + 1) n body t = Some s'"
    by (auto split: option.splits)
  have "P t" using Suc.prems(3) [of i s t] Suc.prems(2) t(1) by simp
  then show ?case
  proof (rule Suc.IH [OF t(2)])
    fix j u u'
    assume "i + 1 \<le> j" "j < i + 1 + int n" "P u" "body j u = Some u'"
    then show "P u'" using Suc.prems(3) [of j u u'] by simp
  qed
qed

lemma for_range_inv:
  assumes "for_range lo hi body s = Some s'" and "P s"
    and "\<And>j t t'. lo \<le> j \<Longrightarrow> j < hi \<Longrightarrow> P t \<Longrightarrow> body j t = Some t' \<Longrightarrow> P t'"
  shows "P s'"
proof (rule for_loop_inv [where P = P])
  show "for_loop lo (nat (hi - lo)) body s = Some s'"
    using assms(1) by (simp add: for_range_def)
  show "P s" by fact
next
  fix j t t'
  assume "lo \<le> j" "j < lo + int (nat (hi - lo))" "P t" "body j t = Some t'"
  then show "P t'" using assms(3) [of j t t'] by (simp split: if_splits)
qed

lemma for_range_empty [loop_simps]: "hi \<le> lo \<Longrightarrow> for_range lo hi body s = Some s"
  by (simp add: for_range_def)

lemma for_range_step [loop_simps]:
  "lo < hi \<Longrightarrow> for_range lo hi body s =
     (case body lo s of None \<Rightarrow> None | Some s' \<Rightarrow> for_range (lo + 1) hi body s')"
proof -
  assume "lo < hi"
  then have "nat (hi - lo) = Suc (nat (hi - (lo + 1)))" by simp
  then show ?thesis by (simp add: for_range_def split: option.splits)
qed

text \<open>A completed loop has run its body at every index.\<close>

lemma for_loop_visits:
  assumes "for_loop i n body s = Some s'" and "P s"
    and "\<And>j t t'. P t \<Longrightarrow> body j t = Some t' \<Longrightarrow> P t'" and "i \<le> k" and "k < i + int n"
  shows "\<exists>t t'. P t \<and> body k t = Some t'"
  using assms
proof (induction n arbitrary: i s)
  case 0
  then show ?case by simp
next
  case (Suc n)
  from Suc.prems(1) obtain t where t: "body i s = Some t" "for_loop (i + 1) n body t = Some s'"
    by (auto split: option.splits)
  show ?case
  proof (cases "k = i")
    case True
    with t(1) Suc.prems(2) show ?thesis by blast
  next
    case False
    have "P t" using Suc.prems(3) [OF Suc.prems(2) t(1)] .
    from Suc.IH [OF t(2) this Suc.prems(3)] False Suc.prems(4,5) show ?thesis by simp
  qed
qed

lemma for_range_visits:
  assumes "for_range lo hi body s = Some s'" and "P s"
    and "\<And>j t t'. P t \<Longrightarrow> body j t = Some t' \<Longrightarrow> P t'" and "lo \<le> k" and "k < hi"
  shows "\<exists>t t'. P t \<and> body k t = Some t'"
proof (rule for_loop_visits)
  show "for_loop lo (nat (hi - lo)) body s = Some s'" using assms(1) by (simp add: for_range_def)
  show "k < lo + int (nat (hi - lo))" using assms(4,5) by simp
qed (use assms in auto)

subsection \<open>Loops that rewrite each array element on its own\<close>

text \<open>
  Most loops of the MAC visit every slot and change only the slot they visit. \<open>map_range hi f\<close>
  is what such a loop computes.
\<close>

definition map_range :: "int \<Rightarrow> (int \<Rightarrow> 'a \<Rightarrow> 'a) \<Rightarrow> 'a list \<Rightarrow> 'a list" where
  "map_range hi f xs =
     map (\<lambda>i. if int i < hi then f (int i) (xs ! i) else xs ! i) [0..<length xs]"

lemma length_map_range [simp]: "length (map_range hi f xs) = length xs"
  by (simp add: map_range_def)

lemma nth_map_range [simp]:
  "i < length xs \<Longrightarrow> map_range hi f xs ! i = (if int i < hi then f (int i) (xs ! i) else xs ! i)"
  by (simp add: map_range_def)

lemma for_range_array_mod:
  assumes "hi \<le> int (length xs)"
  shows "for_range 0 hi (\<lambda>i ys. array_mod ys i (f i)) xs = Some (map_range hi f xs)"
proof (cases "0 \<le> hi")
  case False
  then have "map_range hi f xs = xs" by (intro nth_equalityI) auto
  with False show ?thesis by (simp add: for_range_empty)
next
  case True
  let ?I = "\<lambda>j ys. ys = map_range j f xs"
  have "\<exists>s'. for_range 0 hi (\<lambda>i ys. array_mod ys i (f i)) xs = Some s' \<and> ?I hi s'"
  proof (rule for_range_rule [where I = ?I])
    show "xs = map_range 0 f xs" by (intro nth_equalityI) auto
    show "0 \<le> hi" by fact
  next
    fix j ys
    assume j: "0 \<le> j" "j < hi" and ys: "ys = map_range j f xs"
    have "(map_range j f xs)[nat j := f j (xs ! nat j)] = map_range (j + 1) f xs"
      using j assms by (intro nth_equalityI) (auto simp: nth_list_update)
    then show "\<exists>t'. array_mod ys j (f j) = Some t' \<and> t' = map_range (j + 1) f xs"
      using j assms ys by (simp add: array_mod_in)
  qed
  then show ?thesis by simp
qed

subsection \<open>Loops that look for an element\<close>

text \<open>\<open>for (i = lo; i < hi; i++) if (P (a[i])) return true; return false;\<close> with \<open>n = hi - lo\<close>.\<close>

fun array_any :: "('a \<Rightarrow> bool) \<Rightarrow> 'a list \<Rightarrow> int \<Rightarrow> nat \<Rightarrow> bool option" where
  "array_any P xs i 0 = Some False"
| "array_any P xs i (Suc n) =
     (case array_get xs i of
        None \<Rightarrow> None
      | Some x \<Rightarrow> if P x then Some True else array_any P xs (i + 1) n)"

lemma array_any_in:
  assumes "i + n \<le> length xs"
  shows "array_any P xs (int i) n = Some (\<exists>j. i \<le> j \<and> j < i + n \<and> P (xs ! j))"
  using assms
proof (induction n arbitrary: i)
  case 0
  then show ?case by simp
next
  case (Suc n)
  have "array_any P xs (int i + 1) n = Some (\<exists>j. Suc i \<le> j \<and> j < Suc i + n \<and> P (xs ! j))"
    using Suc.IH [of "Suc i"] Suc.prems by (simp add: add.commute)
  moreover have "(\<exists>j. i \<le> j \<and> j < i + Suc n \<and> P (xs ! j)) =
      (P (xs ! i) \<or> (\<exists>j. Suc i \<le> j \<and> j < Suc i + n \<and> P (xs ! j)))"
    by (metis Suc_le_eq add_Suc_right add_Suc_shift le_eq_less_or_eq le_less_Suc_eq less_add_Suc1)
  ultimately show ?case using Suc.prems by (simp add: array_get_in)
qed

lemma array_any_range:
  assumes "n \<le> int (length xs)"
  shows "array_any P xs 0 (nat n) = Some (\<exists>j. int j < n \<and> P (xs ! j))"
  using array_any_in [of 0 "nat n" xs P] assms by (auto simp: zless_nat_eq_int_zless)

section \<open>Total correctness of fallible programs\<close>

text \<open>\<open>succeeds x P\<close>: the computation \<open>x\<close> has a result, and the result satisfies \<open>P\<close>.\<close>

definition succeeds :: "'a option \<Rightarrow> ('a \<Rightarrow> bool) \<Rightarrow> bool" where
  "succeeds x P \<longleftrightarrow> (case x of None \<Rightarrow> False | Some v \<Rightarrow> P v)"

lemma succeeds_simps [simp]:
  "succeeds None P = False"
  "succeeds (Some v) P = P v"
  "succeeds (Option.bind x f) P = succeeds x (\<lambda>v. succeeds (f v) P)"
  "succeeds (map_option g x) P = succeeds x (\<lambda>v. P (g v))"
  by (simp_all add: succeeds_def split: option.split bind_split)

lemma succeeds_iff: "succeeds x P \<longleftrightarrow> (\<exists>v. x = Some v \<and> P v)"
  by (simp add: succeeds_def split: option.split)

lemma succeeds_mono: "succeeds x P \<Longrightarrow> (\<And>v. P v \<Longrightarrow> Q v) \<Longrightarrow> succeeds x Q"
  by (auto simp: succeeds_iff)

lemma succeeds_if:
  "(b \<Longrightarrow> succeeds x P) \<Longrightarrow> (\<not> b \<Longrightarrow> succeeds y P) \<Longrightarrow> succeeds (if b then x else y) P"
  by simp

lemma succeedsD: "succeeds x P \<Longrightarrow> x = Some v \<Longrightarrow> P v"
  by simp

end
