(* ===== verification/Fi_Codec.thy ===== *)
theory Fi_Codec
  imports Tdma_Prelude
begin

text \<open>
  The bit-level codec of the frame-information (FI) packet: \<open>MacTdma::setvalue\<close> and
  \<open>MacTdma::decode_value\<close> of \<open>src/ns2/mac/mac-tdma.cc\<close>.

  A buffer is a list of bytes. The C functions pass a cursor by reference, a byte index and a bit
  index that counts down from 7; here it is the pair \<open>(byte_pos, bit_pos)\<close>. The asserts
  \<open>bit_pos >= 0\<close> and \<open>bit_len >= 1\<close> are why \<open>nat\<close> is enough.

  The contract is stated on the buffer read as one sequence of bits, most significant bit of each
  byte first: \<open>buffer_bit b q\<close> is bit \<open>q\<close> and \<open>cursor_pos (byte_pos, bit_pos)\<close> the position that a
  cursor stands for. The locale \<open>bit_codec\<close> holds that contract and what clients derive from it.
\<close>

section \<open>Model\<close>

text \<open>The loops \<open>for (i = 0; i < n; i++) mode += pow(2, i)\<close>.\<close>

fun pow_sum :: "nat \<Rightarrow> nat" where
  "pow_sum 0 = 0"
| "pow_sum (Suc i) = pow_sum i + 2 ^ i"

text \<open>\<open>buffer[index] |= x\<close>, the \<open>int\<close> on the right truncated to a byte.\<close>

definition or_byte :: "u8 list \<Rightarrow> nat \<Rightarrow> nat \<Rightarrow> u8 list option" where
  "or_byte buffer index x = array_mod buffer (int index) (\<lambda>b. b OR word_of_nat x)"

text \<open>The \<open>while (true)\<close> loop of \<open>setvalue\<close>.\<close>

function setvalue_loop ::
    "u8 \<Rightarrow> u8 list \<Rightarrow> nat \<Rightarrow> nat \<Rightarrow> nat \<Rightarrow> (u8 list \<times> nat \<times> nat) option" where
  "setvalue_loop val buffer ix field_length bit_remain =
     (let index = (if bit_remain = 0 then ix + 1 else ix);
          remain = (if bit_remain = 0 then 8 else bit_remain)
      in if field_length = 0 then Some (buffer, index, remain)
         else if field_length \<le> remain then
           let shift = remain - field_length in
           case or_byte buffer index (push_bit shift (drop_bit 0 (unat val) AND pow_sum field_length)) of
             None \<Rightarrow> None
           | Some buffer' \<Rightarrow> setvalue_loop val buffer' index 0 shift
         else
           let rest = field_length - remain in
           case or_byte buffer index (push_bit 0 (drop_bit rest (unat val) AND pow_sum remain)) of
             None \<Rightarrow> None
           | Some buffer' \<Rightarrow> setvalue_loop val buffer' index rest 0)"
  by pat_completeness auto
termination
  by (relation "measure (\<lambda>(v, b, i, fl, br). fl)") (auto split: if_splits)

definition setvalue :: "u8 \<Rightarrow> nat \<Rightarrow> u8 list \<times> nat \<times> nat \<Rightarrow> (u8 list \<times> nat \<times> nat) option" where
  "setvalue val bit_len st =
     (case st of (buffer, byte_pos, bit_pos) \<Rightarrow>
        if bit_len < 1 then None
        else map_option (\<lambda>(b, index, bit_remain). (b, index, bit_remain - 1))
               (setvalue_loop val buffer byte_pos bit_len (bit_pos + 1)))"

text \<open>
  The inner \<open>while (field_length > 0)\<close> loop of \<open>decode_value\<close>, which occurs twice in the source
  with the same text. A field that ends in the next byte is shifted by \<open>8 - bit_remain\<close>.
\<close>

function decode_field ::
    "u8 list \<Rightarrow> nat \<Rightarrow> nat \<Rightarrow> nat \<Rightarrow> u64 \<Rightarrow> (u64 \<times> nat \<times> nat) option" where
  "decode_field buffer index bit_remain field_length val =
     (if field_length = 0 then Some (val, index, bit_remain)
      else case array_get buffer (int index) of
        None \<Rightarrow> None
      | Some b \<Rightarrow>
          if field_length \<le> bit_remain then
            let shift = bit_remain - field_length;
                val' = val OR word_of_nat (drop_bit shift (unat b) AND pow_sum field_length)
            in if shift = 0 then Some (val', index + 1, 8) else Some (val', index, shift)
          else
            decode_field buffer (index + 1) 8 (field_length - bit_remain)
              (val OR push_bit (8 - bit_remain)
                 (word_of_nat (drop_bit 0 (unat b) AND pow_sum bit_remain))))"
  by pat_completeness auto
termination
  by (relation "measures [\<lambda>(b, i, br, fl, v). fl, \<lambda>(b, i, br, fl, v). if br = 0 then 1 else 0]")
    auto

text \<open>The loop \<open>for (i = 0; i < length / 8; i++)\<close> over whole bytes.\<close>

fun decode_bytes :: "u8 list \<Rightarrow> nat \<Rightarrow> u64 \<times> nat \<times> nat \<Rightarrow> (u64 \<times> nat \<times> nat) option" where
  "decode_bytes buffer 0 st = Some st"
| "decode_bytes buffer (Suc i) (val, index, bit_remain) =
     (case decode_field buffer index bit_remain 8 (push_bit 8 val) of
        None \<Rightarrow> None
      | Some st \<Rightarrow> decode_bytes buffer i st)"

definition decode_value :: "u8 list \<Rightarrow> nat \<times> nat \<Rightarrow> nat \<Rightarrow> (u64 \<times> nat \<times> nat) option" where
  "decode_value buffer cursor len =
     (case cursor of (byte_pos, bit_pos) \<Rightarrow> do {
        st \<leftarrow> decode_field buffer byte_pos (bit_pos + 1) (len mod 8) 0;
        (val, index, bit_remain) \<leftarrow> decode_bytes buffer (len div 8) st;
        Some (val, index, bit_remain - 1)
      })"

declare setvalue_loop.simps [simp del] decode_field.simps [simp del]

section \<open>The buffer as a sequence of bits\<close>

definition buffer_bit :: "u8 list \<Rightarrow> nat \<Rightarrow> bool" where
  "buffer_bit b q = bit (b ! (q div 8)) (7 - q mod 8)"

definition buffer_bits :: "u8 list \<Rightarrow> nat" where
  "buffer_bits b = 8 * length b"

definition cursor_pos :: "nat \<times> nat \<Rightarrow> nat" where
  "cursor_pos c = 8 * fst c + 7 - snd c"

definition cursor_ok :: "nat \<times> nat \<Rightarrow> bool" where
  "cursor_ok c \<longleftrightarrow> snd c \<le> 7"

lemma pow_sum_mask: "pow_sum n = mask n"
  by (induction n) (auto simp: mask_eq_exp_minus_1 algebra_simps)

lemma and_pow_sum: "x AND pow_sum n = take_bit n x"
  by (simp add: pow_sum_mask take_bit_eq_mask)

lemma div_mod_8_add: "r < 8 \<Longrightarrow> (8 * i + r) div 8 = (i::nat)" "r < 8 \<Longrightarrow> (8 * i + r) mod 8 = r"
  by auto

lemma or_byte_in:
  assumes "i < length b"
  shows "\<exists>b'. or_byte b i x = Some b' \<and> length b' = length b \<and>
    (\<forall>q < 8 * length b. buffer_bit b' q =
       (buffer_bit b q \<or> q div 8 = i \<and> bit x (7 - q mod 8)))"
proof -
  let ?b' = "b[i := b ! i OR word_of_nat x]"
  have "or_byte b i x = Some ?b'"
    using assms by (simp add: or_byte_def array_mod_in)
  moreover have "buffer_bit ?b' q = (buffer_bit b q \<or> q div 8 = i \<and> bit x (7 - q mod 8))"
    if "q < 8 * length b" for q
  proof (cases "q div 8 = i")
    case True
    then show ?thesis
      using assms by (auto simp: buffer_bit_def bit_or_iff bit_of_nat_iff)
  next
    case False
    then show ?thesis by (simp add: buffer_bit_def)
  qed
  ultimately show ?thesis by auto
qed


text \<open>Or-ing \<open>n\<close> bits of \<open>x\<close> into byte \<open>i\<close>, right below the \<open>r\<close> bits that remain in it.\<close>

lemma or_field:
  assumes "i < length b" and "n \<le> r" and "r \<le> 8"
  shows "\<exists>b'. or_byte b i (push_bit (r - n) (x AND pow_sum n)) = Some b' \<and> length b' = length b \<and>
    (\<forall>q < 8 * length b. buffer_bit b' q =
       (buffer_bit b q \<or> 8 * i + 8 - r \<le> q \<and> q < 8 * i + 8 - r + n \<and>
          bit x (8 * i + 8 - r + n - 1 - q)))"
proof -
  have eq: "(q div 8 = i \<and> bit (push_bit (r - n) (take_bit n x)) (7 - q mod 8)) =
    (8 * i + 8 - r \<le> q \<and> q < 8 * i + 8 - r + n \<and> bit x (8 * i + 8 - r + n - 1 - q))" for q
  proof (cases "q div 8 = i")
    case True
    define m where "m = q mod 8"
    have q: "q = 8 * i + m" "m < 8" using True by (auto simp: m_def)
    have "8 * i + 8 - r + n - 1 - q = 7 - m - (r - n)"
      if "r - n \<le> 7 - m" "7 - m - (r - n) < n" using that q assms by simp
    moreover have "(r - n \<le> 7 - m \<and> 7 - m - (r - n) < n) =
        (8 * i + 8 - r \<le> q \<and> q < 8 * i + 8 - r + n)"
      using q assms by auto
    ultimately show ?thesis
      using True by (auto simp: m_def [symmetric] bit_push_bit_iff_nat bit_take_bit_iff)
  next
    case False
    then have "\<not> (8 * i \<le> q \<and> q < 8 * i + 8)" by auto
    then have "\<not> (8 * i + 8 - r \<le> q \<and> q < 8 * i + 8 - r + n)" using assms by auto
    with False show ?thesis by blast
  qed
  show ?thesis
    using or_byte_in [OF assms(1), of "push_bit (r - n) (take_bit n x)"]
    unfolding and_pow_sum eq .
qed

text \<open>
  What one pass of the \<open>setvalue\<close> loop leaves: the bits of the field, most significant first, are
  or-ed into the buffer at the cursor, every other bit is kept.
\<close>

lemma setvalue_loop_spec:
  assumes "br \<le> 8" and "8 * ix + 8 - br + fl \<le> 8 * length b"
  shows "\<exists>b' ix' br'. setvalue_loop v b ix fl br = Some (b', ix', br') \<and> length b' = length b \<and>
     0 < br' \<and> br' \<le> 8 \<and> 8 * ix' + 8 - br' = 8 * ix + 8 - br + fl \<and>
     (\<forall>q < 8 * length b. buffer_bit b' q =
        (buffer_bit b q \<or> 8 * ix + 8 - br \<le> q \<and> q < 8 * ix + 8 - br + fl \<and>
           bit v (8 * ix + 8 - br + fl - 1 - q)))"
  using assms
proof (induction v b ix fl br rule: setvalue_loop.induct)
  case (1 v b ix fl br)
  define i where "i = (if br = 0 then ix + 1 else ix)"
  define r where "r = (if br = 0 then 8 else br)"
  have pos: "8 * ix + 8 - br = 8 * i + 8 - r" and r: "0 < r" "r \<le> 8"
    using "1.prems"(1) by (auto simp: i_def r_def)
  note unf = setvalue_loop.simps [of v b ix fl br, unfolded Let_def, folded i_def r_def]
  show ?case
  proof (cases "fl = 0")
    case True
    have "setvalue_loop v b ix fl br = Some (b, i, r)"
      by (subst unf) (simp add: True)
    with True r pos show ?thesis by auto
  next
    case False
    have i: "i < length b" using "1.prems"(2) False r pos by auto
    show ?thesis
    proof (cases "fl \<le> r")
      case True
      from or_field [OF i True r(2), of "drop_bit 0 (unat v)"] obtain b' where
        b': "or_byte b i (push_bit (r - fl) (drop_bit 0 (unat v) AND pow_sum fl)) = Some b'"
          "length b' = length b"
          "\<forall>q < 8 * length b. buffer_bit b' q = (buffer_bit b q \<or>
             8 * i + 8 - r \<le> q \<and> q < 8 * i + 8 - r + fl \<and> bit v (8 * i + 8 - r + fl - 1 - q))"
        by (auto simp: bit_unsigned_iff)
      have "8 * i + 8 - (r - fl) + 0 \<le> 8 * length b'"
        using "1.prems"(2) b'(2) pos True r by simp
      from "1.IH"(1) [OF i_def r_def False True refl b'(1) _ this] r obtain b'' ix' br' where
        b'': "setvalue_loop v b' i 0 (r - fl) = Some (b'', ix', br')" "length b'' = length b'"
          "0 < br'" "br' \<le> 8" "8 * ix' + 8 - br' = 8 * i + 8 - (r - fl)"
          "\<forall>q < 8 * length b'. buffer_bit b'' q = buffer_bit b' q"
        by force
      have "setvalue_loop v b ix fl br = Some (b'', ix', br')"
        by (subst unf) (simp only: False True if_False if_True b'(1) b''(1) option.case)
      then show ?thesis
        using b''(2-6) b'(2,3) True r pos by auto
    next
      case F: False
      from or_field [OF i order.refl r(2), of "drop_bit (fl - r) (unat v)"] obtain b' where
        b': "or_byte b i (push_bit 0 (drop_bit (fl - r) (unat v) AND pow_sum r)) = Some b'"
          "length b' = length b"
          "\<forall>q < 8 * length b. buffer_bit b' q = (buffer_bit b q \<or>
             8 * i + 8 - r \<le> q \<and> q < 8 * i + 8 \<and> bit v (fl - r + (7 + 8 * i - q)))"
        using r by (auto simp: bit_unsigned_iff bit_drop_bit_eq)
      have "8 * i + 8 - 0 + (fl - r) \<le> 8 * length b'"
        using "1.prems"(2) b'(2) pos F r by simp
      from "1.IH"(2) [OF i_def r_def False F refl b'(1) _ this] obtain b'' ix' br' where
        b'': "setvalue_loop v b' i (fl - r) 0 = Some (b'', ix', br')" "length b'' = length b'"
          "0 < br'" "br' \<le> 8" "8 * ix' + 8 - br' = 8 * i + 8 - 0 + (fl - r)"
          "\<forall>q < 8 * length b'. buffer_bit b'' q = (buffer_bit b' q \<or>
             8 * i + 8 - 0 \<le> q \<and> q < 8 * i + 8 - 0 + (fl - r) \<and>
               bit v (8 * i + 8 - 0 + (fl - r) - 1 - q))"
        by auto
      have "setvalue_loop v b ix fl br = Some (b'', ix', br')"
        by (subst unf) (simp only: False F if_False if_True b'(1) b''(1) option.case)
      moreover have "buffer_bit b'' q = (buffer_bit b q \<or> 8 * i + 8 - r \<le> q \<and>
          q < 8 * i + 8 - r + fl \<and> bit v (8 * i + 8 - r + fl - 1 - q))"
        if "q < 8 * length b" for q
      proof (cases "q < 8 * i + 8")
        case True
        then have "fl - r + (7 + 8 * i - q) = 8 * i + 8 - r + fl - 1 - q" using F r by simp
        with True F r that show ?thesis by (auto simp: b'' b')
      next
        case False
        then have "8 * i + 8 - 0 + (fl - r) - 1 - q = 8 * i + 8 - r + fl - 1 - q" using F r by simp
        with False F r that show ?thesis by (auto simp: b'' b')
      qed
      ultimately show ?thesis
        using b''(2-5) b'(2) F r pos by auto
    qed
  qed
qed


section \<open>Reading\<close>

lemma decode_field_fits:
  assumes "fl \<le> br" and "br \<le> 8" and "0 < br" and "8 * i + 8 - br + fl \<le> 8 * length b"
  shows "\<exists>val' i' br'. decode_field b i br fl val = Some (val', i', br') \<and>
    0 < br' \<and> br' \<le> 8 \<and> 8 * i' + 8 - br' = 8 * i + 8 - br + fl \<and>
    (\<forall>k. bit val' k = (bit val k \<or> k < fl \<and> buffer_bit b (8 * i + 8 - br + fl - 1 - k)))"
proof (cases "fl = 0")
  case True
  with assms show ?thesis by (auto simp: decode_field.simps)
next
  case False
  with assms have i: "i < length b" by auto
  let ?v = "val OR word_of_nat (drop_bit (br - fl) (unat (b ! i)) AND pow_sum fl)"
  have dec: "decode_field b i br fl val =
     (if br - fl = 0 then Some (?v, i + 1, 8) else Some (?v, i, br - fl))"
    using assms(1) False i
    by (subst decode_field.simps) (simp add: array_get_in Let_def)
  have "bit ?v k = (bit val k \<or> k < fl \<and> buffer_bit b (8 * i + 8 - br + fl - 1 - k))" for k
  proof (cases "k < fl")
    case True
    have "8 * i + 8 - br + fl - 1 - k = 8 * i + (7 + fl - br - k)" "7 + fl - br - k < 8"
      "7 - (7 + fl - br - k) = br - fl + k"
      using True assms by auto
    then have "buffer_bit b (8 * i + 8 - br + fl - 1 - k) = bit (b ! i) (br - fl + k)"
      by (simp only: buffer_bit_def div_mod_8_add)
    with True assms show ?thesis
      by (auto simp: and_pow_sum bit_or_iff bit_of_nat_iff bit_take_bit_iff bit_drop_bit_eq
          bit_unsigned_iff)
  next
    case False
    then show ?thesis
      by (auto simp: and_pow_sum bit_or_iff bit_of_nat_iff bit_take_bit_iff)
  qed
  with dec assms show ?thesis by auto
qed

lemma decode_field_byte:
  assumes "br \<le> 8" and "0 < br" and "8 * i + 8 - br + 8 \<le> 8 * length b"
  shows "\<exists>val' i' br'. decode_field b i br 8 val = Some (val', i', br') \<and>
    0 < br' \<and> br' \<le> 8 \<and> 8 * i' + 8 - br' = 8 * i + 8 - br + 8 \<and>
    (\<forall>k. bit val' k = (bit val k \<or> k < 8 \<and> buffer_bit b (8 * i + 8 - br + 8 - 1 - k)))"
proof (cases "br = 8")
  case True
  then show ?thesis using decode_field_fits [of 8 br i b val] assms by simp
next
  case False
  with assms have i: "i < length b" "br < 8" by auto
  let ?v = "val OR push_bit (8 - br) (word_of_nat (drop_bit 0 (unat (b ! i)) AND pow_sum br))"
  have dec: "decode_field b i br 8 val = decode_field b (i + 1) 8 (8 - br) ?v"
    using i by (subst decode_field.simps) (simp add: array_get_in)
  have hi: "bit ?v k = (bit val k \<or> k < 8 \<and> 8 - br \<le> k \<and> buffer_bit b (8 * i + 8 - br + 8 - 1 - k))"
    for k
  proof (cases "8 - br \<le> k \<and> k < 8")
    case True
    then have "8 * i + 8 - br + 8 - 1 - k = 8 * i + (15 - br - k)" "15 - br - k < 8"
      "7 - (15 - br - k) = k - (8 - br)"
      using i by auto
    then have "buffer_bit b (8 * i + 8 - br + 8 - 1 - k) = bit (b ! i) (k - (8 - br))"
      by (simp only: buffer_bit_def div_mod_8_add)
    with True i show ?thesis
      by (auto simp: and_pow_sum bit_or_iff bit_push_bit_iff bit_of_nat_iff bit_take_bit_iff
          bit_unsigned_iff)
  next
    case False
    with i show ?thesis
      by (auto simp: and_pow_sum bit_or_iff bit_push_bit_iff bit_of_nat_iff bit_take_bit_iff)
  qed
  from decode_field_fits [of "8 - br" 8 "i + 1" b ?v] i assms obtain val' i' br' where
    v: "decode_field b (i + 1) 8 (8 - br) ?v = Some (val', i', br')" "0 < br'" "br' \<le> 8"
      "8 * i' + 8 - br' = 8 * (i + 1) + (8 - br)"
      "\<forall>k. bit val' k = (bit ?v k \<or> k < 8 - br \<and> buffer_bit b (8 * (i + 1) + (8 - br) - 1 - k))"
    by auto
  have "bit val' k = (bit val k \<or> k < 8 \<and> buffer_bit b (8 * i + 8 - br + 8 - 1 - k))" for k
  proof -
    have "8 * (i + 1) + (8 - br) - 1 - k = 8 * i + 8 - br + 8 - 1 - k" using i by simp
    then have "bit val' k =
      (bit ?v k \<or> k < 8 - br \<and> buffer_bit b (8 * i + 8 - br + 8 - 1 - k))"
      using v(5) by simp
    then show ?thesis unfolding hi by auto
  qed
  with v(1-4) dec i show ?thesis by auto
qed

lemma decode_bytes_spec:
  assumes "0 < br" and "br \<le> 8" and "8 * i + 8 = p + br" and "p + 8 * n \<le> 8 * length b"
  shows "\<exists>val' i' br'. decode_bytes b n (val, i, br) = Some (val', i', br') \<and>
    0 < br' \<and> br' \<le> 8 \<and> 8 * i' + 8 = p + 8 * n + br' \<and>
    (\<forall>k. bit val' k = (k < 64 \<and> (if k < 8 * n then buffer_bit b (p + 8 * n - 1 - k)
                                 else bit val (k - 8 * n))))"
  using assms
proof (induction n arbitrary: val i br p)
  case 0
  then show ?case by (auto dest: bit_imp_le_length)
next
  case (Suc n)
  have p: "8 * i + 8 - br = p" using Suc.prems(3) by simp
  from decode_field_byte [OF Suc.prems(2,1), of i b "push_bit 8 val"] Suc.prems(4)
  obtain v1 i1 br1 where
    1: "decode_field b i br 8 (push_bit 8 val) = Some (v1, i1, br1)" "0 < br1" "br1 \<le> 8"
      "8 * i1 + 8 = p + 8 + br1"
      "\<And>k. bit v1 k = (bit (push_bit 8 val) k \<or> k < 8 \<and> buffer_bit b (p + 8 - 1 - k))"
    unfolding p by fastforce
  from Suc.IH [OF 1(2-4), of v1] Suc.prems(4) obtain v2 i2 br2 where
    2: "decode_bytes b n (v1, i1, br1) = Some (v2, i2, br2)" "0 < br2" "br2 \<le> 8"
      "8 * i2 + 8 = p + 8 + 8 * n + br2"
      "\<And>k. bit v2 k = (k < 64 \<and> (if k < 8 * n then buffer_bit b (p + 8 + 8 * n - 1 - k)
                                 else bit v1 (k - 8 * n)))"
    by auto
  note v1 = 1(5) and v2 = 2(5)
  have "bit v2 k = (k < 64 \<and> (if k < 8 * Suc n then buffer_bit b (p + 8 * Suc n - 1 - k)
      else bit val (k - 8 * Suc n)))" for k
  proof -
    have sh: "bit (push_bit 8 val) (k - 8 * n) = (8 \<le> k - 8 * n \<and> bit val (k - 8 * Suc n))"
      if "k < 64" using that by (auto simp: bit_push_bit_iff add.commute)
    consider "k < 8 * n" | "8 * n \<le> k" "k < 8 * Suc n" | "8 * Suc n \<le> k" by linarith
    then show ?thesis
    proof cases
      case 2
      then have "p + 8 - 1 - (k - 8 * n) = p + 8 * Suc n - 1 - k" by simp
      with 2 sh show ?thesis using v2 [of k] v1 [of "k - 8 * n"] by auto
    qed (use v2 [of k] v1 [of "k - 8 * n"] sh in \<open>auto simp: algebra_simps\<close>)
  qed
  with 1(1) 2(1-4) show ?case by auto
qed


section \<open>The contract of the codec\<close>

text \<open>
  \<open>put\<close> or-s a field into the bit sequence at the cursor and moves the cursor behind it; \<open>get\<close>
  reads a field back. \<open>get\<close> is only promised to read a field whose leading \<open>n mod 8\<close> bits lie in
  one byte: \<open>decode_value\<close> does not read other fields correctly.
\<close>

locale bit_codec =
  fixes put :: "u8 \<Rightarrow> nat \<Rightarrow> 'b \<times> 'c \<Rightarrow> ('b \<times> 'c) option"
    and get :: "'b \<Rightarrow> 'c \<Rightarrow> nat \<Rightarrow> (u64 \<times> 'c) option"
    and bits :: "'b \<Rightarrow> nat"
    and bit_at :: "'b \<Rightarrow> nat \<Rightarrow> bool"
    and pos :: "'c \<Rightarrow> nat"
    and ok :: "'c \<Rightarrow> bool"
  assumes put_spec: "ok c \<Longrightarrow> 1 \<le> n \<Longrightarrow> pos c + n \<le> bits b \<Longrightarrow>
      \<exists>b' c'. put v n (b, c) = Some (b', c') \<and> ok c' \<and> pos c' = pos c + n \<and> bits b' = bits b \<and>
        (\<forall>q < bits b. bit_at b' q =
           (bit_at b q \<or> pos c \<le> q \<and> q < pos c + n \<and> bit v (pos c + n - 1 - q)))"
    and get_spec: "ok c \<Longrightarrow> pos c + n \<le> bits b \<Longrightarrow> n mod 8 \<le> 8 - pos c mod 8 \<Longrightarrow>
      \<exists>w c'. get b c n = Some (w, c') \<and> ok c' \<and> pos c' = pos c + n \<and>
        (\<forall>k. bit w k = (k < 64 \<and> k < n \<and> bit_at b (pos c + n - 1 - k)))"
begin

text \<open>The \<open>n\<close> bits at position \<open>p\<close> hold the number \<open>x\<close>; nothing is set from \<open>p\<close> on.\<close>

definition stored :: "'b \<Rightarrow> nat \<Rightarrow> nat \<Rightarrow> nat \<Rightarrow> bool" where
  "stored b p n x \<longleftrightarrow> p + n \<le> bits b \<and> (\<forall>k < n. bit_at b (p + n - 1 - k) = bit x k)"

definition blank :: "'b \<Rightarrow> nat \<Rightarrow> bool" where
  "blank b p \<longleftrightarrow> (\<forall>q. p \<le> q \<longrightarrow> q < bits b \<longrightarrow> \<not> bit_at b q)"

text \<open>\<open>keeps b b' p\<close>: what is stored below \<open>p\<close> in \<open>b\<close> is stored in \<open>b'\<close>.\<close>

definition keeps :: "'b \<Rightarrow> 'b \<Rightarrow> nat \<Rightarrow> bool" where
  "keeps b b' p \<longleftrightarrow> bits b' = bits b \<and> (\<forall>q < p. q < bits b \<longrightarrow> bit_at b' q = bit_at b q)"

lemma keeps_refl [simp]: "keeps b b p"
  by (simp add: keeps_def)

lemma keeps_trans: "keeps a b p \<Longrightarrow> keeps b c q \<Longrightarrow> p \<le> q \<Longrightarrow> keeps a c p"
  by (auto simp: keeps_def)

lemma keeps_stored: "keeps b b' p \<Longrightarrow> stored b q n x \<Longrightarrow> q + n \<le> p \<Longrightarrow> stored b' q n x"
  by (auto simp: keeps_def stored_def)

lemma put_stored:
  assumes "ok c" and "1 \<le> n" and "pos c + n \<le> bits b" and "blank b (pos c)"
  shows "\<exists>b' c'. put v n (b, c) = Some (b', c') \<and> ok c' \<and> pos c' = pos c + n \<and>
    blank b' (pos c') \<and> stored b' (pos c) n (unat v) \<and> keeps b b' (pos c)"
proof -
  from put_spec [OF assms(1-3), of v] obtain b' c' where
    b': "put v n (b, c) = Some (b', c')" "ok c'" "pos c' = pos c + n" "bits b' = bits b"
      "\<forall>q < bits b. bit_at b' q =
         (bit_at b q \<or> pos c \<le> q \<and> q < pos c + n \<and> bit v (pos c + n - 1 - q))"
    by blast
  have "bit_at b' (pos c + n - 1 - k) = bit (unat v) k" if "k < n" for k
  proof -
    have "pos c + n - 1 - (pos c + n - 1 - k) = k" using that by simp
    with that assms b'(5) show ?thesis by (auto simp: blank_def bit_unsigned_iff dest: bit_imp_le_length)
  qed
  then have "stored b' (pos c) n (unat v)" using assms(3) b'(4) by (simp add: stored_def)
  moreover have "blank b' (pos c')" and "keeps b b' (pos c)"
    using assms(4) b' by (auto simp: blank_def keeps_def)
  ultimately show ?thesis using b' by blast
qed

text \<open>Two adjacent fields are one field.\<close>

lemma stored_append:
  assumes "stored b p m x" and "stored b (p + m) n y" and "\<And>k. k < n \<Longrightarrow> bit z k = bit y k"
    and "\<And>k. k < m \<Longrightarrow> bit z (k + n) = bit x k"
  shows "stored b p (m + n) z"
proof -
  have "bit_at b (p + (m + n) - 1 - k) = bit z k" if "k < m + n" for k
  proof (cases "k < n")
    case True
    then have "p + (m + n) - 1 - k = p + m + n - 1 - k" by simp
    with True assms(2,3) show ?thesis by (simp add: stored_def)
  next
    case False
    then have eq: "p + (m + n) - 1 - k = p + m - 1 - (k - n)" and k: "k - n + n = k" "k - n < m"
      using that by auto
    have "bit_at b (p + m - 1 - (k - n)) = bit x (k - n)"
      using assms(1) k(2) by (simp add: stored_def)
    with assms(4) [of "k - n"] k show ?thesis by (simp only: eq)
  qed
  with assms(2) show ?thesis by (simp add: stored_def)
qed

lemma get_stored:
  assumes "ok c" and "stored b (pos c) n x" and "n mod 8 \<le> 8 - pos c mod 8" and "n \<le> 64"
  shows "\<exists>c'. get b c n = Some (word_of_nat (take_bit n x), c') \<and> ok c' \<and> pos c' = pos c + n"
proof -
  from assms(2) have room: "pos c + n \<le> bits b" by (simp add: stored_def)
  from get_spec [OF assms(1) room assms(3)] obtain w c' where
    w: "get b c n = Some (w, c')" "ok c'" "pos c' = pos c + n"
      "\<forall>k. bit w k = (k < 64 \<and> k < n \<and> bit_at b (pos c + n - 1 - k))"
    by blast
  have "w = word_of_nat (take_bit n x)"
    using w(4) assms(2,4)
    by (intro bit_word_eqI) (auto simp: stored_def bit_of_nat_iff bit_take_bit_iff)
  with w show ?thesis by blast
qed

end

lemma cursor_pos_eq: "cursor_ok (y, i) \<Longrightarrow> cursor_pos (y, i) = 8 * y + 8 - (i + 1)"
  by (auto simp: cursor_ok_def cursor_pos_def)

lemma cursor_pos_mod: "cursor_ok (y, i) \<Longrightarrow> cursor_pos (y, i) mod 8 = 7 - i"
proof -
  assume "cursor_ok (y, i)"
  then have "cursor_pos (y, i) = 8 * y + (7 - i)" "7 - i < 8"
    by (auto simp: cursor_ok_def cursor_pos_def)
  then show ?thesis by (simp only: div_mod_8_add)
qed

text \<open>\<open>setvalue\<close> and \<open>decode_value\<close> keep the contract.\<close>

interpretation fi: bit_codec setvalue decode_value buffer_bits buffer_bit cursor_pos cursor_ok
proof unfold_locales
  fix c :: "nat \<times> nat" and n b and v :: u8
  assume c: "cursor_ok c" and n: "1 \<le> n" and room: "cursor_pos c + n \<le> buffer_bits b"
  obtain y i where yi: "c = (y, i)" by (cases c)
  from setvalue_loop_spec [of "i + 1" y n b v] c room obtain b' ix' br' where
    l: "setvalue_loop v b y n (i + 1) = Some (b', ix', br')" "length b' = length b"
      "0 < br'" "br' \<le> 8" "8 * ix' + 8 - br' = cursor_pos c + n"
      "\<forall>q < 8 * length b. buffer_bit b' q = (buffer_bit b q \<or>
         cursor_pos c \<le> q \<and> q < cursor_pos c + n \<and> bit v (cursor_pos c + n - 1 - q))"
    unfolding yi cursor_pos_eq [OF c [unfolded yi]]
    by (auto simp: buffer_bits_def cursor_ok_def)
  have "setvalue v n (b, c) = Some (b', ix', br' - 1)"
    using n l(1) by (simp add: setvalue_def yi)
  moreover have "cursor_ok (ix', br' - 1)" "cursor_pos (ix', br' - 1) = cursor_pos c + n"
    using l(3-5) by (auto simp: cursor_ok_def cursor_pos_def)
  ultimately show "\<exists>b' c'. setvalue v n (b, c) = Some (b', c') \<and> cursor_ok c' \<and>
      cursor_pos c' = cursor_pos c + n \<and> buffer_bits b' = buffer_bits b \<and>
      (\<forall>q < buffer_bits b. buffer_bit b' q = (buffer_bit b q \<or>
         cursor_pos c \<le> q \<and> q < cursor_pos c + n \<and> bit v (cursor_pos c + n - 1 - q)))"
    using l(2,6) by (auto simp: buffer_bits_def)
next
  fix c :: "nat \<times> nat" and n b
  assume c: "cursor_ok c" and room: "cursor_pos c + n \<le> buffer_bits b"
    and al: "n mod 8 \<le> 8 - cursor_pos c mod 8"
  obtain y i where yi: "c = (y, i)" by (cases c)
  let ?p = "cursor_pos c"
  have i: "i \<le> 7" "8 * y + 8 - (i + 1) = ?p" "n mod 8 \<le> i + 1"
    using c al cursor_pos_eq [of y i] cursor_pos_mod [of y i] by (auto simp: yi cursor_ok_def)
  have len: "n = n mod 8 + 8 * (n div 8)" by simp
  have room1: "?p + n mod 8 \<le> 8 * length b" "?p + n mod 8 + 8 * (n div 8) \<le> 8 * length b"
    using room len by (simp_all add: buffer_bits_def)
  from decode_field_fits [OF i(3), of y b 0] i(1) room1(1) obtain v1 i1 br1 where
    1: "decode_field b y (i + 1) (n mod 8) 0 = Some (v1, i1, br1)" "0 < br1" "br1 \<le> 8"
      "8 * i1 + 8 = ?p + n mod 8 + br1"
      "\<And>k. bit v1 k = (k < n mod 8 \<and> buffer_bit b (?p + n mod 8 - 1 - k))"
    unfolding i(2) by fastforce
  from decode_bytes_spec [OF 1(2-4) room1(2), of v1] obtain v2 i2 br2 where
    2: "decode_bytes b (n div 8) (v1, i1, br1) = Some (v2, i2, br2)" "0 < br2" "br2 \<le> 8"
      "8 * i2 + 8 = ?p + n + br2"
      "\<And>k. bit v2 k = (k < 64 \<and> (if k < 8 * (n div 8) then buffer_bit b (?p + n - 1 - k)
           else bit v1 (k - 8 * (n div 8))))"
    using len by (metis (no_types, lifting) add.assoc)
  have "decode_value b c n = Some (v2, i2, br2 - 1)"
    using 1(1) 2(1) by (simp add: decode_value_def yi)
  moreover have "cursor_ok (i2, br2 - 1)" "cursor_pos (i2, br2 - 1) = ?p + n"
    using 2(2-4) by (auto simp: cursor_ok_def cursor_pos_def)
  moreover have "bit v2 k = (k < 64 \<and> k < n \<and> buffer_bit b (?p + n - 1 - k))" for k
  proof (cases "k < 8 * (n div 8)")
    case True
    with len 2(5) [of k] show ?thesis by auto
  next
    case False
    then have "?p + n mod 8 - 1 - (k - 8 * (n div 8)) = ?p + n - 1 - k" using len by linarith
    moreover have "k - 8 * (n div 8) < n mod 8 \<longleftrightarrow> k < n" using False len by linarith
    ultimately show ?thesis
      using False 2(5) [of k] 1(5) [of "k - 8 * (n div 8)"] by (simp only: if_False)
  qed
  ultimately show "\<exists>w c'. decode_value b c n = Some (w, c') \<and> cursor_ok c' \<and>
      cursor_pos c' = cursor_pos c + n \<and>
      (\<forall>k. bit w k = (k < 64 \<and> k < n \<and> buffer_bit b (cursor_pos c + n - 1 - k)))"
    by blast
qed

section \<open>Properties\<close>

text \<open>
  \<open>setvalue\<close> or-s the field into the buffer, most significant bit first, at the cursor, keeps
  every other bit, moves the cursor behind the field, and never fails while the field fits.
\<close>

lemma setvalue_writes_field:
  assumes "cursor_ok c" and "1 \<le> n" and "cursor_pos c + n \<le> buffer_bits b"
  shows "\<exists>b' c'. setvalue v n (b, c) = Some (b', c') \<and> cursor_ok c' \<and>
    cursor_pos c' = cursor_pos c + n \<and> length b' = length b \<and>
    (\<forall>q < buffer_bits b. buffer_bit b' q =
       (buffer_bit b q \<or> cursor_pos c \<le> q \<and> q < cursor_pos c + n \<and> bit v (cursor_pos c + n - 1 - q)))"
  using fi.put_spec [OF assms, of v] by (auto simp: buffer_bits_def)

text \<open>
  What \<open>setvalue\<close> wrote into a blank part of the buffer, \<open>decode_value\<close> reads back with the
  same cursor movement, as long as the leading \<open>n mod 8\<close> bits of the field lie in one byte.
\<close>

lemma decode_value_setvalue:
  assumes "cursor_ok c" and "1 \<le> n" and "n \<le> 64" and "cursor_pos c + n \<le> buffer_bits b"
    and "\<forall>q. cursor_pos c \<le> q \<longrightarrow> q < buffer_bits b \<longrightarrow> \<not> buffer_bit b q"
    and "n mod 8 \<le> 8 - cursor_pos c mod 8"
  shows "\<exists>b' c' c''. setvalue v n (b, c) = Some (b', c') \<and>
    decode_value b' c n = Some (word_of_nat (take_bit n (unat v)), c'') \<and>
    cursor_pos c'' = cursor_pos c'"
proof -
  from fi.put_stored [OF assms(1,2,4), of v] assms(5) obtain b' c' where
    b': "setvalue v n (b, c) = Some (b', c')" "cursor_pos c' = cursor_pos c + n"
      "fi.stored b' (cursor_pos c) n (unat v)" by (auto simp: fi.blank_def)
  from fi.get_stored [OF assms(1) b'(3) assms(6,3)] b'(1,2) show ?thesis by auto
qed

text \<open>
  C37: a field of less than eight bits that straddles a byte boundary is not read back. Its \<open>r\<close>
  leading bits, the last ones of the first byte, are shifted by \<open>8 - r\<close> and not by the \<open>n - r\<close>
  bits that follow, so that every leading one ends at least at bit \<open>8 - r\<close>, too high.
\<close>

theorem decode_value_straddle:
  assumes "0 < r" and "r < n" and "n < 8"
  shows "decode_value (b0 # b1 # bs) (0, r - 1) n =
    Some (push_bit (8 - r) (word_of_nat (take_bit r (unat b0))) OR
            word_of_nat (drop_bit (8 - (n - r)) (unat b1)), 1, 7 - (n - r))"
proof -
  have tb: "take_bit (n - r) (drop_bit (8 - (n - r)) (unat b1)) = drop_bit (8 - (n - r)) (unat b1)"
  proof (rule bit_eqI)
    fix k
    have "8 \<le> 8 - (n - r) + k" if "\<not> k < n - r" using that assms by simp
    then show "bit (take_bit (n - r) (drop_bit (8 - (n - r)) (unat b1))) k =
        bit (drop_bit (8 - (n - r)) (unat b1)) k"
      by (auto simp: bit_take_bit_iff bit_drop_bit_eq bit_unsigned_iff dest: bit_imp_le_length)
  qed
  have "decode_field (b0 # b1 # bs) 0 r n 0 = decode_field (b0 # b1 # bs) 1 8 (n - r)
      (push_bit (8 - r) (word_of_nat (take_bit r (unat b0))))"
    using assms by (subst decode_field.simps) (simp add: array_get_in and_pow_sum)
  also have "\<dots> = Some (push_bit (8 - r) (word_of_nat (take_bit r (unat b0))) OR
      word_of_nat (drop_bit (8 - (n - r)) (unat b1)), 1, 8 - (n - r))"
  proof -
    have "n - r \<le> 8" using assms by simp
    then show ?thesis using assms tb
      by (subst decode_field.simps) (simp add: array_get_in and_pow_sum Let_def)
  qed
  finally show ?thesis using assms by (simp add: decode_value_def)
qed

theorem decode_value_straddle_witness:
  "setvalue 2 2 ([0, 0], (0, 0)) = Some ([1, 0], 1, 6) \<and>
   decode_value (1 # 0 # []) (0, 1 - 1) 2 = Some (128, 1, 6)"
proof
  show "setvalue 2 2 ([0, 0], (0, 0)) = Some ([1, 0], 1, 6)" by code_simp
  have "push_bit (8 - 1) (word_of_nat (take_bit 1 (unat (1 :: u8))) :: u64) OR
      word_of_nat (drop_bit (8 - (2 - 1)) (unat (0 :: u8))) = 128" by code_simp
  then show "decode_value (1 # 0 # []) (0, 1 - 1) 2 = Some (128, 1, 6)"
    using decode_value_straddle [of 1 2 1 0 "[]"] by simp
qed

end
