(* ===== verification/Float32.thy ===== *)
theory Float32
  imports Tdma_Prelude "HOL-Library.Log_Nat"
begin

text \<open>
  Single-precision division, as \<open>MacTdma\<close> uses it to compare channel utilisation with its
  thresholds: \<open>((float) a) / b\<close> for small non-negative integers \<open>a\<close> and \<open>b\<close>. Both operands are exact
  as floats below \<open>2^24\<close>; the quotient is rounded to 24 significant bits, ties to even (IEEE 754).
  The comparison with a \<open>double\<close> threshold is exact, so values are kept as rationals.
\<close>

definition round_half_even :: "rat \<Rightarrow> int" where
  "round_half_even x =
     (let f = \<lfloor>x\<rfloor>; d = x - of_int f in
      if d < 1/2 then f else if 1/2 < d then f + 1 else if even f then f else f + 1)"

text \<open>The exponent \<open>e\<close> for which the quotient divided by \<open>2^e\<close> has 24 integer bits.\<close>

definition f32_exponent :: "int \<Rightarrow> int \<Rightarrow> int" where
  "f32_exponent a b =
     (let e = bitlen a - bitlen b - 24 in
      if (of_int a / of_int b :: rat) < 2 powi (e + 24) then e else e + 1)"

definition f32_div :: "int \<Rightarrow> int \<Rightarrow> rat" where
  "f32_div a b =
     (if a = 0 then 0
      else let e = f32_exponent a b in
        of_int (round_half_even (of_int a / of_int b * 2 powi (- e))) * 2 powi e)"

lemma round_half_even_of_int [simp]: "round_half_even (of_int n) = n"
  by (simp add: round_half_even_def)

lemma bitlen_power2: "bitlen (2 ^ k :: int) = int k + 1"
  using bitlen_twopow_add_eq [of 0 k] by simp

lemma f32_div_zero [simp]: "f32_div 0 b = 0"
  by (simp add: f32_div_def)

text \<open>
  For a frame length that is a power of two the quotient is exact: no comparison of the MAC is
  affected by rounding.
\<close>

lemma f32_div_exact:
  assumes "0 \<le> a" and "a < 2 ^ 24"
  shows "f32_div a (2 ^ k) = of_int a / 2 ^ k"
proof (cases "a = 0")
  case True
  then show ?thesis by simp
next
  case False
  with assms have a: "0 < a" by simp
  define m where "m = bitlen a"
  have m: "m \<le> 24" using assms(2) by (simp add: m_def bitlen_le_iff_power)
  define e where "e = f32_exponent a (2 ^ k)"
  have "e \<le> m - int k - 24"
    by (simp add: e_def f32_exponent_def Let_def bitlen_power2 m_def)
  then have "- e - int k \<ge> 0" using m by simp
  then obtain j where j: "- e = int k + int j" by (metis add.commute diff_add_cancel nonneg_int_cases)
  have "of_int a / (2::rat) ^ k * 2 powi (- e) = of_int (a * 2 ^ j)"
    by (simp add: j power_int_add)
  then have "round_half_even (of_int a / of_int (2 ^ k) * 2 powi (- e)) = a * 2 ^ j"
    by (simp only: round_half_even_of_int of_int_power of_int_numeral)
  moreover have "(2::rat) powi e = inverse (2 ^ k * 2 ^ j)"
  proof -
    have "e = - (int (k + j))" using j by simp
    then show ?thesis by (simp only: power_int_minus power_int_of_nat power_add)
  qed
  ultimately show ?thesis
    using False by (simp only: f32_div_def e_def [symmetric] Let_def if_False) (simp add: field_simps)
qed

end
