(* ===== verification/Slot_Table.thy ===== *)
theory Slot_Table
  imports Tdma_Prelude Float32
begin

text \<open>
  The slot table of the TDMA MAC and the operations of \<open>src/ns2/mac/mac-tdma.cc\<close> that work on it
  alone. A node keeps one \<open>Frame_info\<close> of its own, \<open>collected_fi_\<close>, an array of \<open>slot_tag\<close>s of the
  largest frame length, of which the first \<open>max_slot_num_\<close> are in use, and a list of the
  \<open>Frame_info\<close>s it received during the last frame, \<open>received_fi_list_\<close>.

  \<open>unsigned char\<close> and \<open>unsigned int\<close> fields are words. \<open>int\<close> fields are integers: they are counters
  and slot numbers far below \<open>2^31\<close>, where C and \<open>int\<close> agree. \<open>int\<close> configuration switches that the
  code only tests against zero are Booleans. Names drop the trailing underscore of the source.
\<close>

section \<open>Data\<close>

abbreviation SLOT_FREE :: u8 where "SLOT_FREE \<equiv> 0"
abbreviation SLOT_2HOP :: u8 where "SLOT_2HOP \<equiv> 1"
abbreviation SLOT_1HOP :: u8 where "SLOT_1HOP \<equiv> 2"
abbreviation SLOT_COLLISION :: u8 where "SLOT_COLLISION \<equiv> 3"

text \<open>\<open>MacTdma::max_frame_len_\<close>, which no code assigns.\<close>

abbreviation max_frame_len :: int where "max_frame_len \<equiv> 256"

record slot_tag =
  busy :: u8
  count_2hop :: int
  count_3hop :: int
  life_time :: int
  existed :: bool
  sti :: u32
  psf :: u8
  c3hop_flag :: bool
  locker :: bool

text \<open>The constructor of \<open>slot_tag\<close>.\<close>

definition new_slot_tag :: slot_tag where
  "new_slot_tag = \<lparr>busy = 0, count_2hop = 0, count_3hop = 0, life_time = 0, existed = False,
     sti = 0, psf = 0, c3hop_flag = False, locker = False\<rparr>"

record frame_info =
  fi_sti :: u32
  fi_index :: u32
  remain_time :: int
  frame_len :: int
  valid_time :: int
  recv_slot :: int
  fi_type :: int
  slot_describe :: "slot_tag list"

text \<open>The constructor \<open>Frame_info(int framelen)\<close>, with its assert.\<close>

definition new_Frame_info :: "int \<Rightarrow> frame_info option" where
  "new_Frame_info framelen =
     (if framelen < 0 then None
      else Some \<lparr>fi_sti = 0, fi_index = 0, remain_time = 0, frame_len = framelen, valid_time = 0,
        recv_slot = - 1, fi_type = - 1, slot_describe = replicate (nat framelen) new_slot_tag\<rparr>)"

definition FI_fade :: "int \<Rightarrow> frame_info \<Rightarrow> frame_info \<times> int" where
  "FI_fade time fi =
     (let fi' = fi\<lparr>remain_time := remain_time fi - time\<rparr> in (fi', remain_time fi'))"

datatype node_state =
  NODE_INIT | NODE_LISTEN | NODE_WAIT_REQUEST | NODE_REQUEST | NODE_WORK_FI | NODE_WORK_ADJ

datatype slot_state = BEGINING | FI | SAFETY | RTS | CTS | APP

text \<open>Parameters that are bound from Tcl when a node is made and never assigned afterwards.\<close>

record tdma_cfg =
  slot_lifetime_frame_s1 :: int
  slot_lifetime_frame_s2 :: int
  c3hop_threshold_s1 :: int
  delay_init_frame_num :: int
  random_bch_if_single_switch :: bool
  choose_bch_random_switch :: int
  adj_ena :: bool
  adj_single_slot_ena :: bool
  adj_frame_ena :: bool
  adj_frame_lower_bound :: int
  adj_frame_upper_bound :: int
  slot_memory :: bool
  frameadj_cut_ratio_ths :: rat
  frameadj_cut_ratio_ehs :: rat
  frameadj_exp_ratio :: rat

text \<open>The statistics counters of \<open>MacTdma\<close>.\<close>

record tdma_stats =
  collision_count :: int
  localmerge_collision_count :: int
  adj_count_total :: int
  adj_count_success :: int
  request_fail_times :: int
  no_avalible_count :: int
  waiting_frame_count :: int
  packet_sended :: int
  packet_received :: int
  frame_count :: int
  continuous_work_fi :: int
  continuous_work_fi_max :: int
  safe_recv_count :: int
  safe_send_count :: int
  recv_fi_count :: int
  send_fi_count :: int

text \<open>
  The protocol part of a \<open>MacTdma\<close> object. \<open>rand_count\<close> counts the calls of \<open>Random::random()\<close>:
  the generator is outside the repository, so its results are a parameter \<open>rnd\<close> of the model, the
  \<open>k\<close>-th call returning \<open>rnd k\<close>.
\<close>

record tdma =
  global_sti :: u32
  collected_fi :: frame_info
  received_fi_list :: "frame_info list"
  node_state :: node_state
  slot_state :: slot_state
  max_slot_num :: int
  slot_num :: int
  slot_adj_candidate :: int
  slot_count :: int
  total_slot_count :: int
  bch_slot_lock :: int
  backoff_frame_num :: int
  adj_free_threshold :: int
  testmode_init_flag :: bool
  initialed :: bool
  enable :: bool
  stats :: tdma_stats
  rand_count :: nat

type_synonym rng = "nat \<Rightarrow> nat"

text \<open>\<open>Random::random() % n\<close>.\<close>

definition random_mod :: "rng \<Rightarrow> int \<Rightarrow> 'a tdma_scheme \<Rightarrow> int \<times> 'a tdma_scheme" where
  "random_mod rnd n s = (int (rnd (rand_count s)) mod n, s\<lparr>rand_count := Suc (rand_count s)\<rparr>)"

section \<open>Access to the table\<close>

definition tags :: "'a tdma_scheme \<Rightarrow> slot_tag list" where
  "tags s = slot_describe (collected_fi s)"

definition set_tags :: "slot_tag list \<Rightarrow> 'a tdma_scheme \<Rightarrow> 'a tdma_scheme" where
  "set_tags ts s = s\<lparr>collected_fi := (collected_fi s)\<lparr>slot_describe := ts\<rparr>\<rparr>"

text \<open>\<open>fi_local[i]\<close> and assignments to its fields.\<close>

definition tag_at :: "'a tdma_scheme \<Rightarrow> int \<Rightarrow> slot_tag option" where
  "tag_at s i = array_get (tags s) i"

definition mod_tag :: "int \<Rightarrow> (slot_tag \<Rightarrow> slot_tag) \<Rightarrow> 'a tdma_scheme \<Rightarrow> 'a tdma_scheme option" where
  "mod_tag i f s = map_option (\<lambda>ts. set_tags ts s) (array_mod (tags s) i f)"

text \<open>
  The two blocks of assignments that \<open>slotHandler\<close> repeats: a slot taken by this node, and a slot
  given up (\<open>locker\<close> is set separately, with different values).
\<close>

definition own_tag :: "u32 \<Rightarrow> slot_tag \<Rightarrow> slot_tag" where
  "own_tag me t = t\<lparr>busy := SLOT_1HOP, sti := me, count_2hop := 1, count_3hop := 1, psf := 0\<rparr>"

definition free_tag :: "slot_tag \<Rightarrow> slot_tag" where
  "free_tag t = t\<lparr>busy := SLOT_FREE, sti := 0, count_2hop := 0, count_3hop := 0, psf := 0\<rparr>"

lemma tags_set_tags [simp]: "tags (set_tags ts s) = ts"
  by (simp add: tags_def set_tags_def)

lemma set_tags_set_tags [simp]: "set_tags ts (set_tags us s) = set_tags ts s"
  by (simp add: set_tags_def)

lemma set_tags_same [simp]: "set_tags (tags s) s = s"
  by (simp add: set_tags_def tags_def)

lemma set_tags_fields [simp]:
  "global_sti (set_tags ts s) = global_sti s"
  "received_fi_list (set_tags ts s) = received_fi_list s"
  "node_state (set_tags ts s) = node_state s"
  "slot_state (set_tags ts s) = slot_state s"
  "max_slot_num (set_tags ts s) = max_slot_num s"
  "slot_num (set_tags ts s) = slot_num s"
  "slot_adj_candidate (set_tags ts s) = slot_adj_candidate s"
  "slot_count (set_tags ts s) = slot_count s"
  "total_slot_count (set_tags ts s) = total_slot_count s"
  "bch_slot_lock (set_tags ts s) = bch_slot_lock s"
  "backoff_frame_num (set_tags ts s) = backoff_frame_num s"
  "adj_free_threshold (set_tags ts s) = adj_free_threshold s"
  "testmode_init_flag (set_tags ts s) = testmode_init_flag s"
  "initialed (set_tags ts s) = initialed s"
  "enable (set_tags ts s) = enable s"
  "stats (set_tags ts s) = stats s"
  "rand_count (set_tags ts s) = rand_count s"
  "tdma.more (set_tags ts s) = tdma.more s"
  by (simp_all add: set_tags_def)

lemma tags_update [simp]:
  "tags (s\<lparr>global_sti := a\<rparr>) = tags s" "tags (s\<lparr>received_fi_list := b\<rparr>) = tags s"
  "tags (s\<lparr>node_state := c\<rparr>) = tags s" "tags (s\<lparr>slot_state := d\<rparr>) = tags s"
  "tags (s\<lparr>max_slot_num := e\<rparr>) = tags s" "tags (s\<lparr>slot_num := e\<rparr>) = tags s"
  "tags (s\<lparr>slot_adj_candidate := e\<rparr>) = tags s" "tags (s\<lparr>slot_count := e\<rparr>) = tags s"
  "tags (s\<lparr>total_slot_count := e\<rparr>) = tags s" "tags (s\<lparr>bch_slot_lock := e\<rparr>) = tags s"
  "tags (s\<lparr>backoff_frame_num := e\<rparr>) = tags s" "tags (s\<lparr>adj_free_threshold := e\<rparr>) = tags s"
  "tags (s\<lparr>testmode_init_flag := g\<rparr>) = tags s" "tags (s\<lparr>initialed := g\<rparr>) = tags s"
  "tags (s\<lparr>enable := g\<rparr>) = tags s" "tags (s\<lparr>stats := h\<rparr>) = tags s"
  "tags (s\<lparr>rand_count := k\<rparr>) = tags s"
  by (simp_all add: tags_def)

section \<open>Operations\<close>

text \<open>\<open>get_new_FI\<close> appends the new \<open>Frame_info\<close> at the end of the received list.\<close>

definition get_new_FI :: "frame_info \<Rightarrow> 'a tdma_scheme \<Rightarrow> 'a tdma_scheme" where
  "get_new_FI newFI s = s\<lparr>received_fi_list := received_fi_list s @ [newFI]\<rparr>"

fun fade_list :: "int \<Rightarrow> frame_info list \<Rightarrow> frame_info list" where
  "fade_list time [] = []"
| "fade_list time (current # rest) =
     (let current' = current\<lparr>remain_time := remain_time current - time\<rparr> in
      if remain_time current' \<le> 0 \<or> time = 0 then fade_list time rest
      else current' # fade_list time rest)"

definition fade_received_fi_list :: "int \<Rightarrow> 'a tdma_scheme \<Rightarrow> 'a tdma_scheme" where
  "fade_received_fi_list time s = s\<lparr>received_fi_list := fade_list time (received_fi_list s)\<rparr>"

definition isNewNeighbor :: "u32 \<Rightarrow> 'a tdma_scheme \<Rightarrow> bool option" where
  "isNewNeighbor sid s =
     map_option Not (array_any (\<lambda>t. sti t = sid) (tags s) 0 (nat (max_slot_num s)))"

definition isSingle :: "'a tdma_scheme \<Rightarrow> bool option" where
  "isSingle s =
     map_option Not (array_any (\<lambda>t. sti t \<noteq> 0 \<and> sti t \<noteq> global_sti s) (tags s) 0
       (nat (max_slot_num s)))"

definition slot_available :: "int \<Rightarrow> 'a tdma_scheme \<Rightarrow> int option" where
  "slot_available n s =
     map_option (\<lambda>t. if sti t = global_sti s then 1 else 0) (tag_at s n)"

text \<open>\<open>clear_FI(collected_fi_)\<close>: a new array of \<open>max_frame_len_\<close> tags.\<close>

definition clear_FI :: "'a tdma_scheme \<Rightarrow> 'a tdma_scheme" where
  "clear_FI s = s\<lparr>collected_fi := (collected_fi s)\<lparr>valid_time := 0, remain_time := 0,
     recv_slot := - 1, slot_describe := replicate (nat max_frame_len) new_slot_tag\<rparr>\<rparr>"

definition clear_others_tag :: "u32 \<Rightarrow> slot_tag \<Rightarrow> slot_tag" where
  "clear_others_tag me t =
     (if sti t \<noteq> me then
        t\<lparr>busy := SLOT_FREE, sti := 0, count_2hop := 0, count_3hop := 0, psf := 0, locker := False\<rparr>
      else t)"

definition clear_others_slot_status :: "'a tdma_scheme \<Rightarrow> 'a tdma_scheme option" where
  "clear_others_slot_status s =
     map_option (\<lambda>ts. set_tags ts s)
       (for_range 0 (max_slot_num s)
          (\<lambda>count ts. array_mod ts count (clear_others_tag (global_sti s))) (tags s))"

text \<open>Every statement of \<open>clear_2hop_slot_status\<close> is commented out.\<close>

definition clear_2hop_slot_status :: "'a tdma_scheme \<Rightarrow> 'a tdma_scheme" where
  "clear_2hop_slot_status s = s"

text \<open>\<open>merge_local_frame\<close> folds the upper half of the frame onto the lower half.\<close>

definition merge_local_step ::
    "int \<Rightarrow> int \<Rightarrow> slot_tag list \<times> int \<Rightarrow> (slot_tag list \<times> int) option" where
  "merge_local_step half i st = (case st of (ts, collisions) \<Rightarrow> do {
     ti \<leftarrow> array_get ts i;
     tj \<leftarrow> array_get ts (i - half);
     if busy ti \<noteq> SLOT_FREE \<and> busy tj = SLOT_FREE then do {
       ts' \<leftarrow> array_mod ts (i - half) (\<lambda>t. t\<lparr>busy := busy ti, sti := sti ti, psf := psf ti,
                count_2hop := count_2hop ti, count_3hop := count_3hop ti\<rparr>);
       ts'' \<leftarrow> array_mod ts' i free_tag;
       Some (ts'', collisions)
     } else if busy ti \<noteq> SLOT_FREE then do {
       ts' \<leftarrow> array_mod ts i (\<lambda>t. (free_tag t)\<lparr>locker := True\<rparr>);
       Some (ts', collisions + 1)
     } else Some (ts, collisions)
   })"

definition merge_local_frame :: "'a tdma_scheme \<Rightarrow> 'a tdma_scheme option" where
  "merge_local_frame s =
     map_option (\<lambda>(ts, collisions). (set_tags ts s)
         \<lparr>stats := (stats s)\<lparr>localmerge_collision_count := collisions\<rparr>\<rparr>)
       (for_range (max_slot_num s div 2) (max_slot_num s)
          (merge_local_step (max_slot_num s div 2))
          (tags s, localmerge_collision_count (stats s)))"

section \<open>Well-formed tables\<close>

text \<open>
  The table has room for the largest frame, the slots in use are a part of it, and every status is
  one of the four that two bits can carry. (The ns-2 MAC allocates exactly the largest frame, the
  ns-3 MAC more.)
\<close>

definition tag_ok :: "slot_tag \<Rightarrow> bool" where
  "tag_ok t \<longleftrightarrow> busy t \<le> 3"

definition table_ok :: "'a tdma_scheme \<Rightarrow> bool" where
  "table_ok s \<longleftrightarrow> max_frame_len \<le> int (length (tags s)) \<and> 0 < max_slot_num s \<and>
     max_slot_num s \<le> max_frame_len \<and> (\<forall>t \<in> set (tags s). tag_ok t)"

end
