(* ===== verification/Slot_Example.thy ===== *)
theory Slot_Example
  imports Slot_Table
begin

text \<open>
  Concrete configurations, nodes and tables. The theorems of the development are applied to them
  to show that their hypotheses can hold.
\<close>

text \<open>The defaults of the constructor of \<open>MacTdma\<close>, with frame adaptation switched on.\<close>

definition example_cfg :: tdma_cfg where
  "example_cfg = \<lparr>slot_lifetime_frame_s1 = 3, slot_lifetime_frame_s2 = 5, c3hop_threshold_s1 = 3,
     delay_init_frame_num = 0, random_bch_if_single_switch = False, choose_bch_random_switch = 1,
     adj_ena = True, adj_single_slot_ena = False, adj_frame_ena = True,
     adj_frame_lower_bound = 16, adj_frame_upper_bound = 256, slot_memory = True,
     frameadj_cut_ratio_ths = 2 / 5, frameadj_cut_ratio_ehs = 3 / 5, frameadj_exp_ratio = 9 / 10\<rparr>"

definition zero_stats :: tdma_stats where
  "zero_stats = \<lparr>collision_count = 0, localmerge_collision_count = 0, adj_count_total = 0,
     adj_count_success = 0, request_fail_times = 0, no_avalible_count = 0, waiting_frame_count = 0,
     packet_sended = 0, packet_received = 0, frame_count = 0, continuous_work_fi = 0,
     continuous_work_fi_max = 0, safe_recv_count = 0, safe_send_count = 0, recv_fi_count = 0,
     send_fi_count = 0\<rparr>"

text \<open>Frame information of a node \<open>me\<close> with given slots.\<close>

definition example_fi :: "u32 \<Rightarrow> slot_tag list \<Rightarrow> frame_info" where
  "example_fi me ts = \<lparr>fi_sti = me, fi_index = 0, remain_time = 1, frame_len = int (length ts),
     valid_time = 0, recv_slot = - 1, fi_type = - 1, slot_describe = ts\<rparr>"

text \<open>A slot of node \<open>own\<close> with status \<open>st\<close>.\<close>

definition example_tag :: "u32 \<Rightarrow> u8 \<Rightarrow> slot_tag" where
  "example_tag own st = new_slot_tag\<lparr>busy := st, sti := own, count_2hop := 1, life_time := 5\<rparr>"

text \<open>A node \<open>me\<close> that uses 32 slots; \<open>ts\<close> are the first slots, the others are free.\<close>

definition example_tags :: "slot_tag list \<Rightarrow> slot_tag list" where
  "example_tags ts = ts @ replicate (256 - length ts) new_slot_tag"

definition example_node :: "u32 \<Rightarrow> slot_tag list \<Rightarrow> tdma" where
  "example_node me ts = \<lparr>global_sti = me, collected_fi = example_fi me (example_tags ts),
     received_fi_list = [], node_state = NODE_WORK_FI, slot_state = BEGINING, max_slot_num = 32,
     slot_num = 0, slot_adj_candidate = - 1, slot_count = 0, total_slot_count = 0,
     bch_slot_lock = 5, backoff_frame_num = 0, adj_free_threshold = 5, testmode_init_flag = True,
     initialed = True, enable = True, stats = zero_stats, rand_count = 0\<rparr>"

lemma tags_example_node [simp]: "tags (example_node me ts) = example_tags ts"
  by (simp add: tags_def example_node_def example_fi_def)

lemma example_node_fields [simp]:
  "global_sti (example_node me ts) = me" "max_slot_num (example_node me ts) = 32"
  "adj_free_threshold (example_node me ts) = 5" "node_state (example_node me ts) = NODE_WORK_FI"
  "slot_num (example_node me ts) = 0" "slot_adj_candidate (example_node me ts) = - 1"
  "received_fi_list (example_node me ts) = []" "rand_count (example_node me ts) = 0"
  by (simp_all add: example_node_def)

lemma example_tags_nth:
  "i < 256 \<Longrightarrow> example_tags ts ! i = (if i < length ts then ts ! i else new_slot_tag)"
  by (simp add: example_tags_def nth_append)

lemma tag_ok_examples [simp]:
  "tag_ok new_slot_tag" "tag_ok (example_tag own st) \<longleftrightarrow> st \<le> 3"
  by (simp_all add: tag_ok_def new_slot_tag_def example_tag_def)

lemma example_tag_fields [simp]:
  "busy (example_tag own st) = st" "sti (example_tag own st) = own" "psf (example_tag own st) = 0"
  "locker (example_tag own st) = False" "count_2hop (example_tag own st) = 1"
  "count_3hop (example_tag own st) = 0" "life_time (example_tag own st) = 5"
  "existed (example_tag own st) = False" "c3hop_flag (example_tag own st) = False"
  by (simp_all add: example_tag_def new_slot_tag_def)

lemma new_slot_tag_fields [simp]:
  "busy new_slot_tag = SLOT_FREE" "sti new_slot_tag = 0" "psf new_slot_tag = 0"
  "locker new_slot_tag = False" "count_2hop new_slot_tag = 0" "count_3hop new_slot_tag = 0"
  "life_time new_slot_tag = 0" "existed new_slot_tag = False" "c3hop_flag new_slot_tag = False"
  by (simp_all add: new_slot_tag_def)

lemma example_fi_fields [simp]:
  "fi_sti (example_fi me ts) = me" "frame_len (example_fi me ts) = int (length ts)"
  "slot_describe (example_fi me ts) = ts"
  by (simp_all add: example_fi_def)

lemma example_node_ok [simp]:
  "length ts \<le> 256 \<Longrightarrow> \<forall>t \<in> set ts. tag_ok t \<Longrightarrow> table_ok (example_node me ts)"
  by (auto simp: table_ok_def example_tags_def)

end
