(* ===== verification/Fi_Packet.thy ===== *)
theory Fi_Packet
  imports Fi_Codec Slot_Example
begin

text \<open>
  The payload of the frame-information packet: how \<open>generate_FI_packet\<close> writes the slot table and
  \<open>recvFI\<close> reads it back (\<open>src/ns2/mac/mac-tdma.cc\<close>). The payload is the sender's identifier, the
  logarithm of the frame length, and one 28-bit field per slot.
\<close>

section \<open>Model\<close>

abbreviation BIT_LENGTH_BUSY :: nat where "BIT_LENGTH_BUSY \<equiv> 2"
abbreviation BIT_LENGTH_STI :: nat where "BIT_LENGTH_STI \<equiv> 16"
abbreviation BIT_LENGTH_FRAMELEN :: nat where "BIT_LENGTH_FRAMELEN \<equiv> 4"
abbreviation BIT_LENGTH_PSF :: nat where "BIT_LENGTH_PSF \<equiv> 2"
abbreviation BIT_LENGTH_COUNT :: nat where "BIT_LENGTH_COUNT \<equiv> 8"

abbreviation BIT_LENGTH_SLOT_TAG :: nat where
  "BIT_LENGTH_SLOT_TAG \<equiv> BIT_LENGTH_BUSY + BIT_LENGTH_STI + BIT_LENGTH_PSF + BIT_LENGTH_COUNT"

type_synonym bit_buffer = "u8 list \<times> nat \<times> nat"

text \<open>\<open>for (j = n - 1; j >= 0; j--) setvalue((unsigned char)(x >> (8 * j)), 8, \<dots>)\<close>.\<close>

fun put_bytes :: "u32 \<Rightarrow> nat \<Rightarrow> bit_buffer \<Rightarrow> bit_buffer option" where
  "put_bytes x 0 st = Some st"
| "put_bytes x (Suc j) st =
     (case setvalue (ucast (drop_bit (8 * j) x)) 8 st of
        None \<Rightarrow> None | Some st' \<Rightarrow> put_bytes x j st')"

definition put_sti :: "u32 \<Rightarrow> bit_buffer \<Rightarrow> bit_buffer option" where
  "put_sti x st = do {
     st' \<leftarrow> (if BIT_LENGTH_STI mod 8 \<noteq> 0
             then setvalue (ucast (drop_bit (8 * (BIT_LENGTH_STI div 8)) x)) (BIT_LENGTH_STI mod 8) st
             else Some st);
     put_bytes x (BIT_LENGTH_STI div 8) st'
   }"

text \<open>One slot; the count is truncated to a byte.\<close>

definition put_slot_tag :: "slot_tag \<Rightarrow> bit_buffer \<Rightarrow> bit_buffer option" where
  "put_slot_tag t st = do {
     st1 \<leftarrow> setvalue (busy t) BIT_LENGTH_BUSY st;
     st2 \<leftarrow> put_sti (sti t) st1;
     st3 \<leftarrow> setvalue (word_of_int (count_2hop t)) BIT_LENGTH_COUNT st2;
     setvalue (psf t) BIT_LENGTH_PSF st3
   }"

text \<open>The counters are reset once they have been written.\<close>

definition sent_tag :: "u32 \<Rightarrow> slot_tag \<Rightarrow> slot_tag" where
  "sent_tag me t =
     (if sti t = me then t\<lparr>count_2hop := 1, count_3hop := 1\<rparr>
      else t\<lparr>c3hop_flag := False, count_2hop := 0, count_3hop := 0\<rparr>)"

text \<open>\<open>log(n) / log(2)\<close>, truncated.\<close>

fun log2_floor :: "nat \<Rightarrow> nat" where
  "log2_floor n = (if n < 2 then 0 else Suc (log2_floor (n div 2)))"

declare log2_floor.simps [simp del]

definition fi_size :: "int \<Rightarrow> int" where
  "fi_size m =
     (let n = int BIT_LENGTH_SLOT_TAG * m + int BIT_LENGTH_STI + int BIT_LENGTH_FRAMELEN
      in if n mod 8 \<noteq> 0 then n div 8 + 1 else n div 8)"

definition put_slot_step ::
    "int \<Rightarrow> bit_buffer \<times> 'a tdma_scheme \<Rightarrow> (bit_buffer \<times> 'a tdma_scheme) option" where
  "put_slot_step i c = (case c of (st, s) \<Rightarrow> do {
     t \<leftarrow> tag_at s i;
     st' \<leftarrow> put_slot_tag t st;
     s' \<leftarrow> mod_tag i (sent_tag (global_sti s)) s;
     Some (st', s')
   })"

text \<open>The payload that \<open>generate_FI_packet\<close> builds, and the effect on the node.\<close>

definition generate_FI_code :: "'a tdma_scheme \<Rightarrow> (u8 list \<times> 'a tdma_scheme) option" where
  "generate_FI_code s =
     (if max_slot_num s < 1 then None
      else do {
        st1 \<leftarrow> put_sti (global_sti s) (replicate (nat (fi_size (max_slot_num s))) 0, 0, 7);
        st2 \<leftarrow> setvalue (word_of_nat (log2_floor (nat (max_slot_num s)))) BIT_LENGTH_FRAMELEN st1;
        ((code, _), s') \<leftarrow> for_range 0 (max_slot_num s) put_slot_step (st2, s);
        Some (code, s'\<lparr>stats := (stats s')\<lparr>send_fi_count := send_fi_count (stats s') + 1\<rparr>\<rparr>)
      })"

definition decode_slot_tag ::
    "u8 list \<Rightarrow> nat \<times> nat \<Rightarrow> slot_tag \<Rightarrow> (slot_tag \<times> nat \<times> nat) option" where
  "decode_slot_tag buffer c t = do {
     (v1, c1) \<leftarrow> decode_value buffer c BIT_LENGTH_BUSY;
     (v2, c2) \<leftarrow> decode_value buffer c1 BIT_LENGTH_STI;
     (v3, c3) \<leftarrow> decode_value buffer c2 BIT_LENGTH_COUNT;
     (v4, c4) \<leftarrow> decode_value buffer c3 BIT_LENGTH_PSF;
     Some (t\<lparr>busy := ucast v1, sti := ucast v2, count_2hop := sint (ucast v3 :: u32), psf := ucast v4\<rparr>,
       c4)
   }"

definition decode_slot_step ::
    "u8 list \<Rightarrow> int \<Rightarrow> slot_tag list \<times> nat \<times> nat \<Rightarrow> (slot_tag list \<times> nat \<times> nat) option" where
  "decode_slot_step buffer i st = (case st of (ts, c) \<Rightarrow> do {
     t \<leftarrow> array_get ts i;
     (t', c') \<leftarrow> decode_slot_tag buffer c t;
     ts' \<leftarrow> array_mod ts i (\<lambda>_. t');
     Some (ts', c')
   })"

text \<open>\<open>recvFI\<close>: \<open>src\<close> is the source address in the MAC header.\<close>

definition recvFI :: "tdma_cfg \<Rightarrow> u8 list \<Rightarrow> u32 \<Rightarrow> 'a tdma_scheme \<Rightarrow> 'a tdma_scheme option" where
  "recvFI cfg buffer src s = do {
     (v1, c1) \<leftarrow> decode_value buffer (0, 7) BIT_LENGTH_STI;
     (v2, c2) \<leftarrow> decode_value buffer c1 BIT_LENGTH_FRAMELEN;
     let n = (if adj_frame_ena cfg then 2 ^ unat v2 else max_slot_num s);
     fi \<leftarrow> new_Frame_info n;
     (ts, _) \<leftarrow> for_range 0 n (decode_slot_step buffer) (slot_describe fi, c2);
     Some (get_new_FI
       (fi\<lparr>fi_sti := ucast v1, frame_len := n, fi_index := src, recv_slot := slot_count s,
           valid_time := max_slot_num s, remain_time := max_slot_num s, slot_describe := ts\<rparr>) s)
   }"

section \<open>What is stored\<close>

text \<open>A slot as it survives the transmission.\<close>

definition wire_tag :: "slot_tag \<Rightarrow> slot_tag" where
  "wire_tag t = new_slot_tag\<lparr>busy := take_bit 2 (busy t), sti := take_bit 16 (sti t),
     count_2hop := count_2hop t mod 256, psf := take_bit 2 (psf t)\<rparr>"

definition stored_tag :: "u8 list \<Rightarrow> nat \<Rightarrow> slot_tag \<Rightarrow> bool" where
  "stored_tag b p t \<longleftrightarrow> fi.stored b p 2 (unat (busy t)) \<and> fi.stored b (p + 2) 16 (unat (sti t)) \<and>
     fi.stored b (p + 18) 8 (nat (count_2hop t mod 256)) \<and> fi.stored b (p + 26) 2 (unat (psf t))"

lemma keeps_stored_tag:
  "fi.keeps b b' p \<Longrightarrow> stored_tag b q t \<Longrightarrow> q + 28 \<le> p \<Longrightarrow> stored_tag b' q t"
  by (auto simp: stored_tag_def intro: fi.keeps_stored)

lemma keeps_bits: "fi.keeps b b' p \<Longrightarrow> buffer_bits b' = buffer_bits b"
  by (simp add: fi.keeps_def)

text \<open>A write at the cursor into a buffer that is blank from there on.\<close>

definition wrote :: "bit_buffer \<Rightarrow> nat \<Rightarrow> bit_buffer option \<Rightarrow> (u8 list \<Rightarrow> bool) \<Rightarrow> bool" where
  "wrote st n r P \<longleftrightarrow> (\<exists>b c. r = Some (b, c) \<and> cursor_ok c \<and>
     cursor_pos c = cursor_pos (snd st) + n \<and> fi.blank b (cursor_pos c) \<and>
     fi.keeps (fst st) b (cursor_pos (snd st)) \<and> P b)"

definition ready :: "bit_buffer \<Rightarrow> nat \<Rightarrow> bool" where
  "ready st n \<longleftrightarrow> cursor_ok (snd st) \<and> cursor_pos (snd st) + n \<le> buffer_bits (fst st) \<and>
     fi.blank (fst st) (cursor_pos (snd st))"

lemma setvalue_wrote:
  assumes "ready st n" and "1 \<le> n"
  shows "wrote st n (setvalue v n st) (\<lambda>b. fi.stored b (cursor_pos (snd st)) n (unat v))"
proof -
  obtain b c where "st = (b, c)" by (cases st)
  with fi.put_stored [of c n b v] assms show ?thesis
    by (auto simp: wrote_def ready_def)
qed

text \<open>Two writes one after the other.\<close>

lemma wrote_then:
  assumes "wrote st m r P" and "ready st (m + n)"
    and "\<And>st'. ready st' n \<Longrightarrow> cursor_pos (snd st') = cursor_pos (snd st) + m \<Longrightarrow> wrote st' n (f st') Q"
    and "\<And>b b'. P b \<Longrightarrow> fi.keeps b b' (cursor_pos (snd st) + m) \<Longrightarrow> P b'"
  shows "wrote st (m + n) (r \<bind> f) (\<lambda>b. P b \<and> Q b)"
proof -
  from assms(1) obtain b c where bc: "r = Some (b, c)" "cursor_ok c"
      "cursor_pos c = cursor_pos (snd st) + m" "fi.blank b (cursor_pos c)"
      "fi.keeps (fst st) b (cursor_pos (snd st))" "P b"
    by (auto simp: wrote_def)
  have "ready (b, c) n"
    using bc assms(2) keeps_bits [OF bc(5)] by (simp add: ready_def)
  with assms(3) [of "(b, c)"] bc have "wrote (b, c) n (f (b, c)) Q" by simp
  then obtain b' c' where b': "f (b, c) = Some (b', c')" "cursor_ok c'"
      "cursor_pos c' = cursor_pos c + n" "fi.blank b' (cursor_pos c')"
      "fi.keeps b b' (cursor_pos c)" "Q b'"
    by (auto simp: wrote_def)
  have "P b'" using assms(4) [OF bc(6)] b'(5) bc(3) by simp
  moreover have "fi.keeps (fst st) b' (cursor_pos (snd st))"
    using fi.keeps_trans [OF bc(5) b'(5)] bc(3) by simp
  ultimately show ?thesis using bc b' by (auto simp: wrote_def)
qed

lemma wrote_mono: "wrote st n r P \<Longrightarrow> (\<And>b. P b \<Longrightarrow> Q b) \<Longrightarrow> wrote st n r Q"
  by (auto simp: wrote_def)

lemma put_sti_eq:
  "put_sti x st = setvalue (ucast (drop_bit 8 x)) 8 st \<bind> setvalue (ucast x) 8"
  by (cases "setvalue (ucast (drop_bit 8 x)) 8 st")
    (auto simp: put_sti_def numeral_2_eq_2 split: option.splits)

lemma put_sti_wrote:
  assumes "ready st 16"
  shows "wrote st 16 (put_sti x st) (\<lambda>b. fi.stored b (cursor_pos (snd st)) 16 (unat x))"
proof -
  let ?p = "cursor_pos (snd st)" and ?hi = "ucast (drop_bit 8 x) :: u8" and ?lo = "ucast x :: u8"
  have r: "ready st (8 + 8)" "ready st 8" using assms by (auto simp: ready_def)
  have "wrote st (8 + 8) (setvalue ?hi 8 st \<bind> setvalue ?lo 8)
      (\<lambda>b. fi.stored b ?p 8 (unat ?hi) \<and> fi.stored b (?p + 8) 8 (unat ?lo))"
  proof (rule wrote_then [OF _ r(1)])
    show "wrote st 8 (setvalue ?hi 8 st) (\<lambda>b. fi.stored b ?p 8 (unat ?hi))"
      by (rule setvalue_wrote) (use r in simp_all)
  next
    fix st' :: bit_buffer assume "ready st' 8" and pos: "cursor_pos (snd st') = ?p + 8"
    then show "wrote st' 8 (setvalue ?lo 8 st') (\<lambda>b. fi.stored b (?p + 8) 8 (unat ?lo))"
      using setvalue_wrote [of st' 8 ?lo] unfolding pos by simp
  qed (rule fi.keeps_stored, auto)
  then have "wrote st (8 + 8) (put_sti x st) (\<lambda>b. fi.stored b ?p (8 + 8) (unat x))"
    unfolding put_sti_eq
  proof (rule wrote_mono)
    fix b assume "fi.stored b ?p 8 (unat ?hi) \<and> fi.stored b (?p + 8) 8 (unat ?lo)"
    then show "fi.stored b ?p (8 + 8) (unat x)"
      by (intro fi.stored_append [of b ?p 8 "unat ?hi" 8 "unat ?lo"])
        (auto simp: bit_unsigned_iff bit_ucast_iff bit_drop_bit_eq add.commute dest: bit_imp_le_length)
  qed
  then show ?thesis by simp
qed

lemma ready_less: "ready st n \<Longrightarrow> m \<le> n \<Longrightarrow> ready st m"
  by (auto simp: ready_def)

lemma unat_count: "unat (word_of_int i :: u8) = nat (i mod 256)"
  by (simp add: unat_eq_nat_uint uint_word_of_int)

lemma put_slot_tag_wrote:
  assumes "ready st 28"
  shows "wrote st 28 (put_slot_tag t st) (\<lambda>b. stored_tag b (cursor_pos (snd st)) t)"
proof -
  let ?p = "cursor_pos (snd st)"
  let ?B = "\<lambda>b. fi.stored b ?p 2 (unat (busy t))"
  let ?S = "\<lambda>b. fi.stored b (?p + 2) 16 (unat (sti t))"
  let ?C = "\<lambda>b. fi.stored b (?p + 18) 8 (nat (count_2hop t mod 256))"
  let ?F = "\<lambda>b. fi.stored b (?p + 26) 2 (unat (psf t))"
  let ?c = "word_of_int (count_2hop t) :: u8"
  have psf: "wrote st' 2 (setvalue (psf t) 2 st') ?F"
    if "ready st' 2" "cursor_pos (snd st') = ?p + 26" for st'
    using setvalue_wrote [OF that(1), of "psf t"] that(2) by simp
  have count: "wrote st' (8 + 2) (setvalue ?c 8 st' \<bind> setvalue (psf t) 2) (\<lambda>b. ?C b \<and> ?F b)"
    if r: "ready st' (8 + 2)" and pos: "cursor_pos (snd st') = ?p + 18" for st'
  proof (rule wrote_then [OF _ r])
    show "wrote st' 8 (setvalue ?c 8 st') ?C"
      using setvalue_wrote [OF ready_less [OF r], of 8 ?c] pos by (simp add: unat_count)
  qed (use pos psf in \<open>auto intro: fi.keeps_stored\<close>)
  have sti: "wrote st' (16 + (8 + 2))
      (put_sti (sti t) st' \<bind> (\<lambda>st2. setvalue ?c 8 st2 \<bind> setvalue (psf t) 2)) (\<lambda>b. ?S b \<and> ?C b \<and> ?F b)"
    if r: "ready st' (16 + (8 + 2))" and pos: "cursor_pos (snd st') = ?p + 2" for st'
  proof (rule wrote_then [OF _ r])
    show "wrote st' 16 (put_sti (sti t) st') ?S"
      using put_sti_wrote [OF ready_less [OF r], of "sti t"] pos by simp
  qed (use pos count in \<open>auto intro: fi.keeps_stored\<close>)
  have "wrote st (2 + (16 + (8 + 2))) (setvalue (busy t) 2 st \<bind> (\<lambda>st1. put_sti (sti t) st1 \<bind>
      (\<lambda>st2. setvalue ?c 8 st2 \<bind> setvalue (psf t) 2))) (\<lambda>b. ?B b \<and> ?S b \<and> ?C b \<and> ?F b)"
  proof (rule wrote_then)
    show r: "ready st (2 + (16 + (8 + 2)))" using assms by simp
    show "wrote st 2 (setvalue (busy t) 2 st) ?B"
      by (rule setvalue_wrote [OF ready_less [OF r]]) simp_all
  qed (use sti in \<open>auto intro: fi.keeps_stored\<close>)
  then show ?thesis by (simp add: put_slot_tag_def stored_tag_def)
qed

lemma ucast_take_bit:
  "ucast (word_of_nat (take_bit n (unat w)) :: u64) = (take_bit n w :: 'a::len word)"
  if "LENGTH('a) \<le> 64"
  by (rule bit_word_eqI)
    (use that in \<open>auto simp: bit_ucast_iff bit_of_nat_iff bit_take_bit_iff bit_unsigned_iff
        dest: bit_imp_le_length\<close>)

lemma count_wire:
  "sint (ucast (word_of_nat (take_bit 8 (nat (c mod 256))) :: u64) :: u32) = c mod 256"
proof -
  define x where "x = nat (c mod 256)"
  have x: "x < 256" "int x = c mod 256" by (auto simp: x_def)
  have "take_bit 8 x = x" using x(1) by (simp add: take_bit_nat_eq_self)
  then have "ucast (word_of_nat (take_bit 8 x) :: u64) = (word_of_nat x :: u32)"
    by (intro bit_word_eqI) (simp add: bit_ucast_iff bit_of_nat_iff)
  moreover have "sint (word_of_nat x :: u32) = int x"
    using x(1) by (simp add: signed_of_nat signed_take_bit_int_eq_self)
  ultimately show ?thesis using x(2) unfolding x_def by simp
qed

lemma decode_slot_tag_stored:
  assumes "cursor_ok c" and "stored_tag b (cursor_pos c) t" and "cursor_pos c mod 4 = 0"
  shows "\<exists>c'. decode_slot_tag b c t0 = Some (t0\<lparr>busy := take_bit 2 (busy t), sti := take_bit 16 (sti t),
      count_2hop := count_2hop t mod 256, psf := take_bit 2 (psf t)\<rparr>, c') \<and>
    cursor_ok c' \<and> cursor_pos c' = cursor_pos c + 28"
proof -
  note st = assms(2) [unfolded stored_tag_def]
  let ?p = "cursor_pos c"
  have al: "2 mod 8 \<le> 8 - ?p mod 8" "2 mod 8 \<le> 8 - (?p + 26) mod 8"
    using assms(3) by presburger+
  from fi.get_stored [OF assms(1), of b 2 "unat (busy t)"] st al(1) obtain c1 where
    c1: "decode_value b c 2 = Some (word_of_nat (take_bit 2 (unat (busy t))), c1)" "cursor_ok c1"
      "cursor_pos c1 = ?p + 2" by auto
  from fi.get_stored [OF c1(2), of b 16 "unat (sti t)"] st c1(3) obtain c2 where
    c2: "decode_value b c1 16 = Some (word_of_nat (take_bit 16 (unat (sti t))), c2)" "cursor_ok c2"
      "cursor_pos c2 = ?p + 18" by auto
  from fi.get_stored [OF c2(2), of b 8 "nat (count_2hop t mod 256)"] st c2(3) obtain c3 where
    c3: "decode_value b c2 8 = Some (word_of_nat (take_bit 8 (nat (count_2hop t mod 256))), c3)"
      "cursor_ok c3" "cursor_pos c3 = ?p + 26" by auto
  from fi.get_stored [OF c3(2), of b 2 "unat (psf t)"] st c3(3) al(2) obtain c4 where
    c4: "decode_value b c3 2 = Some (word_of_nat (take_bit 2 (unat (psf t))), c4)" "cursor_ok c4"
      "cursor_pos c4 = ?p + 28" by auto
  show ?thesis
    using c1(1) c2(1) c3(1) c4
    by (simp add: decode_slot_tag_def ucast_take_bit count_wire)
qed

section \<open>The whole payload\<close>

text \<open>The node after its table was written.\<close>

definition sent_state :: "int \<Rightarrow> 'a tdma_scheme \<Rightarrow> 'a tdma_scheme" where
  "sent_state j s = set_tags (map_range j (\<lambda>_. sent_tag (global_sti s)) (tags s)) s"

definition fi_header :: "u8 list \<Rightarrow> u32 \<Rightarrow> nat \<Rightarrow> bool" where
  "fi_header b me k \<longleftrightarrow> fi.stored b 0 16 (unat me) \<and> fi.stored b 16 4 k"

lemma fi_size_bits: "0 < m \<Longrightarrow> int (20 + 28 * nat m) \<le> 8 * fi_size m"
  unfolding fi_size_def Let_def by (simp, presburger)

lemma ready_blank: "20 \<le> 8 * n \<Longrightarrow> ready (replicate n 0, 0, 7) 20"
  by (auto simp: ready_def cursor_ok_def cursor_pos_def buffer_bits_def fi.blank_def buffer_bit_def
      less_mult_imp_div_less mult.commute)

lemma fi_header_wrote:
  assumes "20 \<le> 8 * n"
  shows "wrote (replicate n 0, 0, 7) 20
    (put_sti me (replicate n 0, 0, 7) \<bind> setvalue v 4) (\<lambda>b. fi_header b me (unat v))"
proof -
  let ?st = "(replicate n 0, 0, 7) :: bit_buffer"
  have p: "cursor_pos (snd ?st) = 0" by (simp add: cursor_pos_def)
  have r: "ready ?st (16 + 4)" using ready_blank [OF assms] by simp
  have "wrote ?st (16 + 4) (put_sti me ?st \<bind> setvalue v 4)
      (\<lambda>b. fi.stored b 0 16 (unat me) \<and> fi.stored b 16 4 (unat v))"
  proof (rule wrote_then [OF _ r])
    show "wrote ?st 16 (put_sti me ?st) (\<lambda>b. fi.stored b 0 16 (unat me))"
      using put_sti_wrote [OF ready_less [OF r], of me] unfolding p by simp
  next
    fix st' :: bit_buffer assume "ready st' 4" "cursor_pos (snd st') = cursor_pos (snd ?st) + 16"
    then show "wrote st' 4 (setvalue v 4 st') (\<lambda>b. fi.stored b 16 4 (unat v))"
      using setvalue_wrote [of st' 4 v] unfolding p by simp
  qed (simp add: cursor_pos_def fi.keeps_stored)
  then show ?thesis by (simp add: fi_header_def)
qed

lemma sent_state_0: "sent_state 0 s = s"
proof -
  have "map_range 0 (\<lambda>_. sent_tag (global_sti s)) (tags s) = tags s" by (intro nth_equalityI) auto
  then show ?thesis by (simp add: sent_state_def)
qed

lemma sent_state_step:
  assumes "0 \<le> j" and "j < int (length (tags s))"
  shows "mod_tag j (sent_tag (global_sti s)) (sent_state j s) = Some (sent_state (j + 1) s)"
proof -
  let ?f = "\<lambda>_. sent_tag (global_sti s)"
  have "(map_range j ?f (tags s))[nat j := sent_tag (global_sti s) (tags s ! nat j)] =
      map_range (j + 1) ?f (tags s)"
    using assms by (intro nth_equalityI) (auto simp: nth_list_update)
  then show ?thesis using assms by (simp add: sent_state_def mod_tag_def array_mod_in)
qed

lemma sent_state_fields [simp]:
  "global_sti (sent_state j s) = global_sti s" "stats (sent_state j s) = stats s"
  "max_slot_num (sent_state j s) = max_slot_num s"
  by (simp_all add: sent_state_def)

lemma tag_at_sent_state:
  "0 \<le> j \<Longrightarrow> j < int (length (tags s)) \<Longrightarrow> tag_at (sent_state j s) j = Some (tags s ! nat j)"
  by (simp add: sent_state_def tag_at_def array_get_in)

text \<open>The buffer with the header and the first \<open>j\<close> slots.\<close>

definition slots_written :: "'a tdma_scheme \<Rightarrow> nat \<Rightarrow> nat \<Rightarrow> int \<Rightarrow> bit_buffer \<Rightarrow> bool" where
  "slots_written s k bits j st \<longleftrightarrow> cursor_ok (snd st) \<and> cursor_pos (snd st) = 20 + 28 * nat j \<and>
     fi.blank (fst st) (cursor_pos (snd st)) \<and> buffer_bits (fst st) = bits \<and>
     fi_header (fst st) (global_sti s) k \<and>
     (\<forall>i. int i < j \<longrightarrow> stored_tag (fst st) (20 + 28 * i) (tags s ! i))"

lemma slots_written_step:
  assumes w: "slots_written s k bits j st" and j: "0 \<le> j" and room: "20 + 28 * nat j + 28 \<le> bits"
  shows "\<exists>st'. put_slot_tag (tags s ! nat j) st = Some st' \<and> slots_written s k bits (j + 1) st'"
proof -
  let ?p = "cursor_pos (snd st)"
  have p: "?p = 20 + 28 * nat j" using w by (simp add: slots_written_def)
  have "ready st 28" using w room by (auto simp: slots_written_def ready_def)
  from put_slot_tag_wrote [OF this, of "tags s ! nat j"] obtain b c where
    bc: "put_slot_tag (tags s ! nat j) st = Some (b, c)" "cursor_ok c" "cursor_pos c = ?p + 28"
      "fi.blank b (cursor_pos c)" "fi.keeps (fst st) b ?p" "stored_tag b ?p (tags s ! nat j)"
    by (auto simp: wrote_def)
  have "stored_tag b (20 + 28 * i) (tags s ! i)" if "int i < j + 1" for i
  proof (cases "int i < j")
    case True
    then have "20 + 28 * i + 28 \<le> ?p" using p j by simp
    with True w keeps_stored_tag [OF bc(5)] show ?thesis by (simp add: slots_written_def)
  next
    case False
    then have "i = nat j" using that by simp
    with bc(6) p show ?thesis by simp
  qed
  moreover have "fi_header b (global_sti s) k"
    using w p fi.keeps_stored [OF bc(5)] by (simp add: slots_written_def fi_header_def)
  moreover have "cursor_pos c = 20 + 28 * nat (j + 1)" using bc(3) p j by (simp add: nat_add_distrib)
  ultimately show ?thesis
    using bc w keeps_bits [OF bc(5)] by (auto simp: slots_written_def)
qed

lemma generate_FI_code_spec:
  assumes "table_ok s"
  shows "\<exists>code. generate_FI_code s = Some (code, (sent_state (max_slot_num s) s)
      \<lparr>stats := (stats s)\<lparr>send_fi_count := send_fi_count (stats s) + 1\<rparr>\<rparr>) \<and>
    int (length code) = fi_size (max_slot_num s) \<and>
    fi_header code (global_sti s) (unat (word_of_nat (log2_floor (nat (max_slot_num s))) :: u8)) \<and>
    (\<forall>i. int i < max_slot_num s \<longrightarrow> stored_tag code (20 + 28 * i) (tags s ! i))"
proof -
  let ?m = "max_slot_num s" and ?v = "word_of_nat (log2_floor (nat (max_slot_num s))) :: u8"
  let ?n = "nat (fi_size ?m)" and ?k = "unat (word_of_nat (log2_floor (nat (max_slot_num s))) :: u8)"
  have m: "0 < ?m" "?m \<le> int (length (tags s))" using assms by (auto simp: table_ok_def)
  note size = fi_size_bits [OF m(1)]
  then have "0 \<le> fi_size ?m" by linarith
  then have n: "int ?n = fi_size ?m" by simp
  have "20 \<le> 8 * ?n" using size n by linarith
  from fi_header_wrote [OF this, of "global_sti s" ?v] obtain st1 b c where
    hd: "put_sti (global_sti s) (replicate ?n 0, 0, 7) = Some st1" "setvalue ?v 4 st1 = Some (b, c)"
      "cursor_ok c" "cursor_pos c = 20" "fi.blank b 20" "buffer_bits b = 8 * ?n"
      "fi_header b (global_sti s) ?k"
    by (auto simp: wrote_def cursor_pos_def buffer_bits_def bind_eq_Some_conv dest: keeps_bits)
  let ?I = "\<lambda>j x. slots_written s ?k (8 * ?n) j (fst x) \<and> snd x = sent_state j s"
  have "\<exists>x. for_range 0 ?m put_slot_step ((b, c), s) = Some x \<and> ?I ?m x"
  proof (rule for_range_rule [where I = ?I])
    show "?I 0 ((b, c), s)" using hd by (simp add: slots_written_def sent_state_0)
    show "0 \<le> ?m" using m by simp
  next
    fix j x assume j: "0 \<le> j" "j < ?m" and x: "?I j x"
    have "20 + 28 * nat j + 28 \<le> 20 + 28 * nat ?m" using j by simp
    then have "20 + 28 * nat j + 28 \<le> 8 * ?n" using size n by linarith
    from slots_written_step [OF _ j(1) this] x obtain st' where
      "put_slot_tag (tags s ! nat j) (fst x) = Some st'" "slots_written s ?k (8 * ?n) (j + 1) st'"
      by blast
    with x j m show "\<exists>t'. put_slot_step j x = Some t' \<and> ?I (j + 1) t'"
      by (cases x) (simp add: put_slot_step_def tag_at_sent_state sent_state_step)
  qed
  then obtain code c' where loop: "for_range 0 ?m put_slot_step ((b, c), s) = Some ((code, c'), sent_state ?m s)"
    "slots_written s ?k (8 * ?n) ?m (code, c')" by auto
  have "int (length code) = fi_size ?m"
    using loop(2) n by (simp add: slots_written_def buffer_bits_def)
  then show ?thesis
    using m(1) hd(1,2) loop by (simp add: generate_FI_code_def slots_written_def)
qed

text \<open>The record that \<open>recvFI\<close> appends to the received list.\<close>

definition received_fi :: "u32 \<Rightarrow> u32 \<Rightarrow> slot_tag list \<Rightarrow> 'a tdma_scheme \<Rightarrow> frame_info" where
  "received_fi me src ts r = \<lparr>fi_sti = me, fi_index = src, remain_time = max_slot_num r,
     frame_len = int (length ts), valid_time = max_slot_num r, recv_slot = slot_count r, fi_type = - 1,
     slot_describe = ts\<rparr>"

lemma decode_slots_loop:
  assumes ok: "cursor_ok c" "cursor_pos c = 20"
    and st: "\<And>i. i < n \<Longrightarrow> stored_tag b (20 + 28 * i) (us ! i)" and us: "n \<le> length us"
  shows "\<exists>c'. for_range 0 (int n) (decode_slot_step b) (replicate n new_slot_tag, c) =
    Some (map wire_tag (take n us), c')"
proof -
  let ?I = "\<lambda>j x. length (fst x) = n \<and> cursor_ok (snd x) \<and> cursor_pos (snd x) = 20 + 28 * nat j \<and>
    (\<forall>i < n. fst x ! i = (if int i < j then wire_tag (us ! i) else new_slot_tag))"
  have "\<exists>x. for_range 0 (int n) (decode_slot_step b) (replicate n new_slot_tag, c) = Some x \<and> ?I (int n) x"
  proof (rule for_range_rule [where I = ?I])
    show "?I 0 (replicate n new_slot_tag, c)" using ok by simp
  next
    fix j x assume j: "0 \<le> j" "j < int n" and x: "?I j x"
    obtain ts c1 where tc: "x = (ts, c1)" by (cases x)
    have "cursor_pos c1 mod 4 = 0" using x by (simp add: tc mod_add_eq [symmetric] mod_mult_eq [symmetric])
    moreover have "stored_tag b (cursor_pos c1) (us ! nat j)" using x st [of "nat j"] j by (simp add: tc)
    ultimately obtain c2 where c2: "decode_slot_tag b c1 new_slot_tag = Some (wire_tag (us ! nat j), c2)"
        "cursor_ok c2" "cursor_pos c2 = cursor_pos c1 + 28"
      using decode_slot_tag_stored [of c1 b "us ! nat j" new_slot_tag] x by (auto simp: tc wire_tag_def)
    have "decode_slot_step b j x = Some (ts[nat j := wire_tag (us ! nat j)], c2)"
      using j x c2(1) by (simp add: tc decode_slot_step_def array_get_in array_mod_in)
    moreover have "?I (j + 1) (ts[nat j := wire_tag (us ! nat j)], c2)"
      using x j c2 by (auto simp: tc nth_list_update nat_add_distrib)
    ultimately show "\<exists>t'. decode_slot_step b j x = Some t' \<and> ?I (j + 1) t'" by blast
  qed simp
  then obtain ts c' where loop: "for_range 0 (int n) (decode_slot_step b) (replicate n new_slot_tag, c) = Some (ts, c')"
    "length ts = n" "\<forall>i < n. ts ! i = wire_tag (us ! i)" by auto
  moreover have "ts = map wire_tag (take n us)"
    using loop(2,3) us by (intro nth_equalityI) auto
  ultimately show ?thesis by auto
qed

lemma recvFI_stored:
  assumes hd: "fi_header b me k" and k: "k < 16"
    and n: "int n = (if adj_frame_ena cfg then 2 ^ k else max_slot_num r)"
    and st: "\<And>i. i < n \<Longrightarrow> stored_tag b (20 + 28 * i) (us ! i)" and us: "n \<le> length us"
  shows "recvFI cfg b src r =
    Some (get_new_FI (received_fi (take_bit 16 me) src (map wire_tag (take n us)) r) r)"
proof -
  have c0: "cursor_ok (0, 7)" "cursor_pos (0, 7) = 0" by (simp_all add: cursor_ok_def cursor_pos_def)
  from fi.get_stored [of "(0, 7)" b 16 "unat me"] hd c0 obtain c1 where
    c1: "decode_value b (0, 7) 16 = Some (word_of_nat (take_bit 16 (unat me)), c1)"
      "cursor_ok c1" "cursor_pos c1 = 16" by (auto simp: fi_header_def)
  from fi.get_stored [OF c1(2), of b 4 k] hd c1(3) obtain c2 where
    c2: "decode_value b c1 4 = Some (word_of_nat (take_bit 4 k), c2)" "cursor_ok c2" "cursor_pos c2 = 20"
    by (auto simp: fi_header_def)
  have "unat (word_of_nat (take_bit 4 k) :: u64) = k"
    using k by (simp add: take_bit_nat_eq_self unat_of_nat)
  then have v: "(if adj_frame_ena cfg then 2 ^ unat (word_of_nat (take_bit 4 k) :: u64)
      else max_slot_num r) = int n" using n by simp
  from decode_slots_loop [OF c2(2,3) st us] obtain c3 where
    "for_range 0 (int n) (decode_slot_step b) (replicate n new_slot_tag, c2) =
      Some (map wire_tag (take n us), c3)" by blast
  then show ?thesis
    using c1(1) c2(1) us unfolding recvFI_def
    by (simp add: v new_Frame_info_def received_fi_def ucast_take_bit)
qed

lemma take_bit_unat_self: "unat w < 2 ^ n \<Longrightarrow> take_bit n w = w"
  by (rule word_unat_eq_iff [THEN iffD2]) (simp add: unsigned_take_bit_eq take_bit_nat_eq_self)

lemma log2_floor_power: "log2_floor (2 ^ k) = k"
proof (induction k)
  case 0
  show ?case by (subst log2_floor.simps) simp
next
  case (Suc k)
  have "(2::nat) ^ Suc k div 2 = 2 ^ k" "\<not> (2::nat) ^ Suc k < 2" by simp_all
  with Suc show ?case by (subst log2_floor.simps) (simp only: if_False)
qed

section \<open>Properties\<close>

lemma recvFI_of_code:
  assumes "table_ok s" and "max_slot_num s = 2 ^ k"
    and "adj_frame_ena cfg \<or> max_slot_num r = max_slot_num s"
  shows "\<exists>code s'. generate_FI_code s = Some (code, s') \<and>
    recvFI cfg code src r = Some (get_new_FI (received_fi (take_bit 16 (global_sti s)) src
      (map wire_tag (take (nat (max_slot_num s)) (tags s))) r) r)"
proof -
  from generate_FI_code_spec [OF assms(1)] obtain code s' where
    code: "generate_FI_code s = Some (code, s')"
      "fi_header code (global_sti s) (unat (word_of_nat (log2_floor (nat (max_slot_num s))) :: u8))"
      "\<And>i. int i < max_slot_num s \<Longrightarrow> stored_tag code (20 + 28 * i) (tags s ! i)"
    by blast
  have "(2::int) ^ k \<le> 2 ^ 8" using assms(1,2) by (simp add: table_ok_def)
  then have k: "k \<le> 8" by (rule power_le_imp_le_exp [rotated]) simp
  have "log2_floor (nat (max_slot_num s)) = k"
    unfolding assms(2) by (simp add: nat_power_eq log2_floor_power)
  then have hd: "fi_header code (global_sti s) k" using code(2) k by (simp add: unat_of_nat)
  have "recvFI cfg code src r = Some (get_new_FI (received_fi (take_bit 16 (global_sti s)) src
      (map wire_tag (take (nat (max_slot_num s)) (tags s))) r) r)"
  proof (rule recvFI_stored [OF hd])
    show "k < 16" using k by simp
    show "int (nat (max_slot_num s)) = (if adj_frame_ena cfg then 2 ^ k else max_slot_num r)"
      using assms by (auto simp: table_ok_def)
    show "nat (max_slot_num s) \<le> length (tags s)" using assms(1) by (auto simp: table_ok_def nat_le_iff)
  qed (simp add: code(3))
  with code(1) show ?thesis by blast
qed

text \<open>
  C10: the frame information round trip. A node with a well-formed table always produces a payload;
  a receiver that adapts its frame length, or uses the same frame length, decodes from it exactly
  the sender's identifier, its frame length and its slots, up to the widths of the wire fields
  (\<open>wire_tag\<close>), and appends them to its received list.
\<close>

theorem recvFI_generate_FI:
  assumes "table_ok s" and "max_slot_num s = 2 ^ k"
    and "adj_frame_ena cfg \<or> max_slot_num r = max_slot_num s"
  shows "\<exists>code s'. generate_FI_code s = Some (code, s') \<and>
    recvFI cfg code src r = Some (get_new_FI (received_fi (take_bit 16 (global_sti s)) src
      (map wire_tag (take (nat (max_slot_num s)) (tags s))) r) r)"
  by (rule recvFI_of_code [OF assms])

theorem recvFI_generate_FI_witness:
  "\<exists>code s'. generate_FI_code (example_node 7 [example_tag 7 SLOT_1HOP, example_tag 9 SLOT_2HOP]) =
       Some (code, s') \<and>
     recvFI example_cfg code 3 (example_node 8 []) =
       Some (get_new_FI (received_fi
         (take_bit 16 (global_sti (example_node 7 [example_tag 7 SLOT_1HOP, example_tag 9 SLOT_2HOP]))) 3
         (map wire_tag (take (nat (max_slot_num
              (example_node 7 [example_tag 7 SLOT_1HOP, example_tag 9 SLOT_2HOP])))
            (tags (example_node 7 [example_tag 7 SLOT_1HOP, example_tag 9 SLOT_2HOP]))))
         (example_node 8 [])) (example_node 8 []))"
  by (rule recvFI_generate_FI [where k = 5]) (simp_all add: example_cfg_def)

text \<open>
  Identifiers below \<open>2^16\<close>, counts of a byte and the four status values are transmitted
  without loss, so the received slots agree with the sent ones in every field that is on the wire.
\<close>

lemma wire_tag_lossless:
  assumes "busy t \<le> 3" and "sti t < 2 ^ 16" and "0 \<le> count_2hop t" and "count_2hop t < 256"
    and "psf t \<le> 3"
  shows "wire_tag t = new_slot_tag\<lparr>busy := busy t, sti := sti t, count_2hop := count_2hop t, psf := psf t\<rparr>"
proof -
  have "take_bit 2 (busy t) = busy t" "take_bit 2 (psf t) = psf t"
    using assms(1,5) by (auto intro!: take_bit_unat_self simp: word_le_nat_alt)
  moreover have "take_bit 16 (sti t) = sti t"
    using assms(2) by (intro take_bit_unat_self) (simp add: word_less_nat_alt)
  ultimately show ?thesis using assms(3,4) by (simp add: wire_tag_def)
qed

text \<open>
  Writing the packet never leaves the payload buffer, whose size is the least number of bytes
  that holds all fields; it resets the neighbour counters of every slot in use and changes nothing
  else of the node but the count of sent packets.
\<close>

lemma generate_FI_code_safe:
  assumes "table_ok s"
  shows "\<exists>code. generate_FI_code s = Some (code,
      (set_tags (map_range (max_slot_num s) (\<lambda>_. sent_tag (global_sti s)) (tags s)) s)
      \<lparr>stats := (stats s)\<lparr>send_fi_count := send_fi_count (stats s) + 1\<rparr>\<rparr>) \<and>
    20 + 28 * max_slot_num s \<le> 8 * int (length code) \<and> 8 * int (length code) < 28 + 28 * max_slot_num s"
proof -
  from generate_FI_code_spec [OF assms] obtain code where
    code: "generate_FI_code s = Some (code, (sent_state (max_slot_num s) s)
      \<lparr>stats := (stats s)\<lparr>send_fi_count := send_fi_count (stats s) + 1\<rparr>\<rparr>)"
      "int (length code) = fi_size (max_slot_num s)" by blast
  have "0 < max_slot_num s" using assms by (simp add: table_ok_def)
  from fi_size_bits [OF this] this have "20 + 28 * max_slot_num s \<le> 8 * fi_size (max_slot_num s)" by simp
  moreover have "8 * fi_size (max_slot_num s) < 28 + 28 * max_slot_num s"
    unfolding fi_size_def Let_def by (simp, presburger)
  ultimately show ?thesis using code by (simp add: sent_state_def)
qed

end
