(* ===== verification/Mac_Packet.thy ===== *)
theory Mac_Packet
  imports Fi_Packet
begin

text \<open>
  Packets and their headers: the parts of \<open>hdr_cmn\<close> and \<open>Packet\<close> (\<open>src/ns2/patch/common/packet.h\<close>)
  and \<open>hdr_mac_tdma\<close> (\<open>src/ns2/mac/mac-tdma.h\<close>) that the MAC reads or writes, the header routines,
  the transmission times, and the construction of FI and safety packets.

  Addresses are byte arrays in the header. The macros that store and load them, \<open>STORE4BYTE\<close> and
  \<open>GET4BYTE\<close> and their two-byte variants, belong to ns-2 (\<open>marshall.h\<close>); they are the parameter \<open>mx\<close>
  of the operations that use them. \<open>marshal_ok\<close> is what the MAC relies on: loading returns what was
  stored.

  Times and rates are exact rationals; the rounding of \<open>double\<close> is not modelled here.
\<close>

section \<open>Headers\<close>

record marshal =
  store4 :: "u32 \<Rightarrow> u8 list \<Rightarrow> u8 list"
  get4 :: "u8 list \<Rightarrow> u32"
  store2 :: "u16 \<Rightarrow> u8 list \<Rightarrow> u8 list"
  get2 :: "u8 list \<Rightarrow> u16"

definition marshal_ok :: "marshal \<Rightarrow> bool" where
  "marshal_ok mx \<longleftrightarrow> (\<forall>x b. 4 \<le> length b \<longrightarrow> get4 mx (store4 mx x b) = x \<and> length (store4 mx x b) = length b) \<and>
     (\<forall>x b. 2 \<le> length b \<longrightarrow> get2 mx (store2 mx x b) = x \<and> length (store2 mx x b) = length b)"

abbreviation MAC_ProtocolVersion :: "2 word" where "MAC_ProtocolVersion \<equiv> 0"
abbreviation MAC_Type_Management :: "2 word" where "MAC_Type_Management \<equiv> 0"
abbreviation MAC_Type_Control :: "2 word" where "MAC_Type_Control \<equiv> 1"
abbreviation MAC_Type_Data :: "2 word" where "MAC_Type_Data \<equiv> 2"
abbreviation MAC_Subtype_RTS :: "4 word" where "MAC_Subtype_RTS \<equiv> 0xB"
abbreviation MAC_Subtype_CTS :: "4 word" where "MAC_Subtype_CTS \<equiv> 0xC"
abbreviation MAC_Subtype_ACK :: "4 word" where "MAC_Subtype_ACK \<equiv> 0xD"
abbreviation MAC_Subtype_Data :: "4 word" where "MAC_Subtype_Data \<equiv> 0"
abbreviation MAC_Subtype_SAFE :: "4 word" where "MAC_Subtype_SAFE \<equiv> 2"
abbreviation MAC_BROADCAST :: u32 where "MAC_BROADCAST \<equiv> 0xffffffff"
abbreviation DATA_DURATION :: u16 where "DATA_DURATION \<equiv> 5"

record frame_control =
  fc_subtype :: "4 word"
  fc_type :: "2 word"
  fc_protocol_version :: "2 word"
  fc_order :: "1 word"
  fc_wep :: "1 word"
  fc_more_data :: "1 word"
  fc_pwr_mgt :: "1 word"
  fc_retry :: "1 word"
  fc_more_frag :: "1 word"
  fc_from_ds :: "1 word"
  fc_to_ds :: "1 word"

record hdr_mac_tdma =
  dh_fc :: frame_control
  dh_duration :: u16
  send_slot :: u8
  dh_da :: "u8 list"
  dh_sa :: "u8 list"
  dh_bssid :: "u8 list"
  dh_scontrol :: u16
  dh_body :: "u8 list"

text \<open>Packet types: the two that the MAC distinguishes, and the others.\<close>

datatype ptype = PT_TDMA | PT_CBR | PT_OTHER nat

datatype dir_t = DOWN | NONE | UP

record hdr_cmn =
  ptype :: ptype
  ch_size :: int
  ch_uid :: int
  ch_error :: int
  iface :: int
  direction :: dir_t
  num_forwards :: int
  txtime :: rat

text \<open>\<open>rx_pr\<close> and \<open>cp_thresh\<close> are \<open>txinfo_.RxPr\<close> and \<open>txinfo_.CPThresh\<close>; \<open>pdata\<close> the user data.\<close>

record packet =
  cmn :: hdr_cmn
  mac_hdr :: hdr_mac_tdma
  pdata :: "u8 list"
  rx_pr :: rat
  cp_thresh :: rat

section \<open>Header routines\<close>

definition zero_fc :: frame_control where
  "zero_fc = \<lparr>fc_subtype = 0, fc_type = 0, fc_protocol_version = 0, fc_order = 0, fc_wep = 0,
     fc_more_data = 0, fc_pwr_mgt = 0, fc_retry = 0, fc_more_frag = 0, fc_from_ds = 0, fc_to_ds = 0\<rparr>"

text \<open>A zeroed header: \<open>bzero(dh, MAC_HDR_LEN)\<close>.\<close>

definition zero_mac_hdr :: hdr_mac_tdma where
  "zero_mac_hdr = \<lparr>dh_fc = zero_fc, dh_duration = 0, send_slot = 0, dh_da = replicate 6 0,
     dh_sa = replicate 6 0, dh_bssid = replicate 6 0, dh_scontrol = 0, dh_body = replicate 38 0\<rparr>"

text \<open>\<open>Packet::alloc\<close>: zeroed headers, direction down.\<close>

definition Packet_alloc :: packet where
  "Packet_alloc = \<lparr>cmn = \<lparr>ptype = PT_OTHER 0, ch_size = 0, ch_uid = 0, ch_error = 0, iface = 0,
     direction = DOWN, num_forwards = 0, txtime = 0\<rparr>, mac_hdr = zero_mac_hdr, pdata = [], rx_pr = 0,
     cp_thresh = 0\<rparr>"

definition ETHER_ADDR :: "marshal \<Rightarrow> u8 list \<Rightarrow> u32" where
  "ETHER_ADDR mx a = get4 mx a"

text \<open>The routines return the address field as an \<open>int\<close> after an optional store.\<close>

definition hdr_dst :: "marshal \<Rightarrow> hdr_mac_tdma \<Rightarrow> int \<Rightarrow> int \<times> hdr_mac_tdma" where
  "hdr_dst mx dh dst =
     (let dh' = (if - 2 < dst then dh\<lparr>dh_da := store4 mx (word_of_int dst) (dh_da dh)\<rparr> else dh)
      in (sint (ETHER_ADDR mx (dh_da dh')), dh'))"

definition hdr_src :: "marshal \<Rightarrow> hdr_mac_tdma \<Rightarrow> int \<Rightarrow> int \<times> hdr_mac_tdma" where
  "hdr_src mx dh src =
     (let dh' = (if - 2 < src then dh\<lparr>dh_sa := store4 mx (word_of_int src) (dh_sa dh)\<rparr> else dh)
      in (sint (ETHER_ADDR mx (dh_sa dh')), dh'))"

definition hdr_type :: "marshal \<Rightarrow> hdr_mac_tdma \<Rightarrow> u16 \<Rightarrow> int \<times> hdr_mac_tdma" where
  "hdr_type mx dh ty =
     (let dh' = (if ty \<noteq> 0 then dh\<lparr>dh_body := store2 mx ty (dh_body dh)\<rparr> else dh)
      in (uint (get2 mx (dh_body dh')), dh'))"

section \<open>Lengths and times\<close>

text \<open>The \<open>PHY_MIB_TDMA\<close> in use, and \<open>bandwidth_\<close>.\<close>

record phy =
  SIFSTime :: rat
  PreambleLength :: u32
  PLCPHeaderLength :: u32
  bandwidth :: rat

text \<open>
  The values of \<open>PMIB\<close>; \<open>offsetof(struct hdr_mac_tdma, dh_body[0])\<close> is 26: two bytes of frame
  control, duration, slot, three addresses of six bytes, one byte of padding and the sequence
  control.
\<close>

definition TDMA_Overhead :: int where
  "TDMA_Overhead = (2 + 6 + 6 + 2) + 4"

definition PHY_TDMA_Overhead :: "phy \<Rightarrow> int" where
  "PHY_TDMA_Overhead ph =
     uint (drop_bit 3 (PreambleLength ph)) + uint (drop_bit 3 (PLCPHeaderLength ph)) + TDMA_Overhead"

definition ETHER_HDR_LEN :: "phy \<Rightarrow> int" where
  "ETHER_HDR_LEN ph =
     uint (drop_bit 3 (PreambleLength ph)) + uint (drop_bit 3 (PLCPHeaderLength ph)) + 26 + 4"

definition DATA_Time :: "phy \<Rightarrow> int \<Rightarrow> rat" where
  "DATA_Time ph len = of_int (8 * len) / bandwidth ph"

text \<open>\<open>TX_Time\<close> exits on a negative time.\<close>

definition TX_Time :: "phy \<Rightarrow> packet \<Rightarrow> rat option" where
  "TX_Time ph p = (let t = DATA_Time ph (ch_size (cmn p)) in if t < 0 then None else Some t)"

text \<open>\<open>(int)x\<close> of a \<open>double\<close> truncates towards zero.\<close>

definition trunc :: "rat \<Rightarrow> int" where
  "trunc x = (if x < 0 then \<lceil>x\<rceil> else \<lfloor>x\<rfloor>)"

definition get_Remain_slottime :: "rat \<Rightarrow> rat \<Rightarrow> rat \<Rightarrow> rat" where
  "get_Remain_slottime slot_time start_time now_time =
     slot_time - (now_time - of_int (trunc ((now_time - start_time) / slot_time)) * slot_time)"

section \<open>Building packets\<close>

definition mgmt_header :: "marshal \<Rightarrow> int \<Rightarrow> 4 word \<Rightarrow> hdr_mac_tdma" where
  "mgmt_header mx index subtype = zero_mac_hdr
     \<lparr>dh_fc := zero_fc\<lparr>fc_protocol_version := MAC_ProtocolVersion, fc_type := MAC_Type_Management,
        fc_subtype := subtype\<rparr>,
      dh_da := store4 mx MAC_BROADCAST (dh_da zero_mac_hdr),
      dh_sa := store4 mx (word_of_int index) (dh_sa zero_mac_hdr),
      dh_duration := DATA_DURATION\<rparr>"

definition mgmt_cmn :: "phy \<Rightarrow> int \<Rightarrow> hdr_cmn \<Rightarrow> hdr_cmn" where
  "mgmt_cmn ph size0 ch = (let sz = size0 + PHY_TDMA_Overhead ph in
     ch\<lparr>ch_uid := 0, ptype := PT_TDMA, ch_size := sz, iface := - 2, ch_error := 0,
        txtime := DATA_Time ph sz\<rparr>)"

definition generate_FI_packet ::
    "marshal \<Rightarrow> phy \<Rightarrow> int \<Rightarrow> 'a tdma_scheme \<Rightarrow> (packet \<times> 'a tdma_scheme) option" where
  "generate_FI_packet mx ph index s = do {
     (code, s') \<leftarrow> generate_FI_code s;
     Some (Packet_alloc\<lparr>pdata := code, cmn := mgmt_cmn ph (fi_size (max_slot_num s)) (cmn Packet_alloc),
       mac_hdr := mgmt_header mx index MAC_Subtype_Data\<rparr>, s')
   }"

definition generate_safe_packet :: "marshal \<Rightarrow> phy \<Rightarrow> int \<Rightarrow> packet" where
  "generate_safe_packet mx ph index =
     Packet_alloc\<lparr>cmn := mgmt_cmn ph 100 (cmn Packet_alloc),
       mac_hdr := mgmt_header mx index MAC_Subtype_SAFE\<rparr>"

end
