(* ===== verification/Packet_Queue.thy ===== *)
theory Packet_Queue
  imports Tdma_Prelude
begin

text \<open>
  \<open>Packet_queue\<close> of \<open>src/ns2/mac/mac-tdma.h\<close>: a singly linked list with a dummy head node, a tail
  pointer and a bound on its length. The nodes live in an explicit store, so that a use of a null
  or freed pointer is a failure (\<open>None\<close>) and a leaked node is visible. The locale \<open>bounded_queue\<close>
  is the contract its clients rely on.
\<close>

section \<open>Model\<close>

text \<open>\<open>struct Packet_list_Node\<close>; a null \<open>Packet *\<close> is \<open>None\<close>.\<close>

record 'p list_node =
  node_p :: "'p option"
  node_next :: "nat option"

text \<open>\<open>fresh\<close> is the next address the allocator returns.\<close>

record 'p packet_queue =
  store :: "nat \<Rightarrow> 'p list_node option"
  fresh :: nat
  q_head :: nat
  q_tail :: nat
  packet_count :: int
  max_size :: int

definition new_Packet_queue :: "int \<Rightarrow> 'p packet_queue" where
  "new_Packet_queue sz = \<lparr>store = (\<lambda>_. None)(0 := Some \<lparr>node_p = None, node_next = None\<rparr>), fresh = 1,
     q_head = 0, q_tail = 0, packet_count = 0, max_size = sz\<rparr>"

text \<open>\<open>a->next = x\<close>.\<close>

definition set_next :: "nat \<Rightarrow> nat option \<Rightarrow> 'p packet_queue \<Rightarrow> 'p packet_queue option" where
  "set_next a x q =
     map_option (\<lambda>n. q\<lparr>store := (store q)(a := Some (n\<lparr>node_next := x\<rparr>))\<rparr>) (store q a)"

definition Enqueue :: "'p \<Rightarrow> 'p packet_queue \<Rightarrow> (int \<times> 'p packet_queue) option" where
  "Enqueue p q =
     (if packet_count q < max_size q then do {
        let a = fresh q;
        let q1 = q\<lparr>store := (store q)(a := Some \<lparr>node_p = Some p, node_next = None\<rparr>), fresh := a + 1\<rparr>;
        q2 \<leftarrow> set_next (q_tail q1) (Some a) q1;
        let q3 = q2\<lparr>q_tail := a, packet_count := packet_count q2 + 1\<rparr>;
        Some (packet_count q3, q3)
      } else Some (- 1, q))"

definition QueueHead :: "'p packet_queue \<Rightarrow> 'p option option" where
  "QueueHead q = do {
     h \<leftarrow> store q (q_head q);
     a \<leftarrow> node_next h;
     n \<leftarrow> store q a;
     Some (node_p n)
   }"

definition Dequeue :: "'p packet_queue \<Rightarrow> ('p option \<times> 'p packet_queue) option" where
  "Dequeue q = do {
     h \<leftarrow> store q (q_head q);
     if 0 < packet_count q then do {
       first \<leftarrow> node_next h;
       n \<leftarrow> store q first;
       q1 \<leftarrow> set_next (q_head q) (node_next n) q;
       let q2 = q1\<lparr>packet_count := packet_count q1 - 1\<rparr>;
       let q3 = (if packet_count q2 = 0 then q2\<lparr>q_tail := q_head q2\<rparr> else q2);
       Some (node_p n, q3\<lparr>store := (store q3)(first := None)\<rparr>)
     } else Some (None, q)
   }"

definition Isempty :: "'p packet_queue \<Rightarrow> bool" where
  "Isempty q \<longleftrightarrow> packet_count q = 0"

definition Size :: "'p packet_queue \<Rightarrow> int" where
  "Size q = packet_count q"

text \<open>The destructor: frees the nodes up to the tail, then the last one.\<close>

partial_function (option) free_nodes ::
    "(nat \<Rightarrow> 'p list_node option) \<Rightarrow> nat \<Rightarrow> nat \<Rightarrow> (nat \<Rightarrow> 'p list_node option) option" where
  "free_nodes st h t =
     (if t = h then Some (st(h := None))
      else case st h of
        None \<Rightarrow> None
      | Some n \<Rightarrow> (case node_next n of None \<Rightarrow> None | Some h' \<Rightarrow> free_nodes (st(h := None)) h' t))"

definition destroy_Packet_queue :: "'p packet_queue \<Rightarrow> (nat \<Rightarrow> 'p list_node option) option" where
  "destroy_Packet_queue q = free_nodes (store q) (q_head q) (q_tail q)"

section \<open>The contract of a bounded queue\<close>

text \<open>
  \<open>rep q xs\<close>: the queue \<open>q\<close> holds the packets \<open>xs\<close>, oldest first, and at most \<open>cap q\<close> of them.
\<close>

locale bounded_queue =
  fixes enq :: "'p \<Rightarrow> 'q \<Rightarrow> (int \<times> 'q) option"
    and deq :: "'q \<Rightarrow> ('p option \<times> 'q) option"
    and front :: "'q \<Rightarrow> 'p option option"
    and rep :: "'q \<Rightarrow> 'p list \<Rightarrow> bool"
    and cap :: "'q \<Rightarrow> int"
  assumes enq_spec: "rep q xs \<Longrightarrow>
      (if int (length xs) < cap q
       then \<exists>q'. enq p q = Some (int (length xs) + 1, q') \<and> rep q' (xs @ [p]) \<and> cap q' = cap q
       else enq p q = Some (- 1, q))"
    and deq_Cons: "rep q (x # xs) \<Longrightarrow> \<exists>q'. deq q = Some (Some x, q') \<and> rep q' xs \<and> cap q' = cap q"
    and deq_Nil: "rep q [] \<Longrightarrow> deq q = Some (None, q)"
    and front_Cons: "rep q (x # xs) \<Longrightarrow> front q = Some (Some x)"
    and front_Nil: "rep q [] \<Longrightarrow> front q = None"
begin

text \<open>Enqueue a list of packets, dequeue \<open>n\<close> times.\<close>

primrec enq_all :: "'p list \<Rightarrow> 'q \<Rightarrow> 'q option" where
  "enq_all [] q = Some q"
| "enq_all (p # ps) q = (case enq p q of None \<Rightarrow> None | Some (_, q') \<Rightarrow> enq_all ps q')"

primrec deq_n :: "nat \<Rightarrow> 'q \<Rightarrow> ('p option list \<times> 'q) option" where
  "deq_n 0 q = Some ([], q)"
| "deq_n (Suc n) q =
     (case deq q of None \<Rightarrow> None
      | Some (x, q') \<Rightarrow> (case deq_n n q' of None \<Rightarrow> None | Some (xs, q'') \<Rightarrow> Some (x # xs, q'')))"

text \<open>Packets beyond the bound are refused; the others are kept in order.\<close>

lemma enq_all_rep:
  assumes "rep q xs" and "int (length xs) \<le> cap q"
  shows "\<exists>q'. enq_all ps q = Some q' \<and> cap q' = cap q \<and> rep q' (take (nat (cap q)) (xs @ ps))"
  using assms
proof (induction ps arbitrary: q xs)
  case Nil
  then show ?case by simp
next
  case (Cons p ps)
  show ?case
  proof (cases "int (length xs) < cap q")
    case True
    with enq_spec [OF Cons.prems(1), of p] obtain q1 where
      q1: "enq p q = Some (int (length xs) + 1, q1)" "rep q1 (xs @ [p])" "cap q1 = cap q" by auto
    from Cons.IH [OF q1(2)] True q1(3) obtain q' where
      "enq_all ps q1 = Some q'" "cap q' = cap q" "rep q' (take (nat (cap q)) ((xs @ [p]) @ ps))" by auto
    with q1(1) show ?thesis by simp
  next
    case False
    with enq_spec [OF Cons.prems(1), of p] have "enq p q = Some (- 1, q)" by simp
    moreover from False Cons.prems have full: "nat (cap q) = length xs" by simp
    ultimately show ?thesis using Cons.IH [OF Cons.prems] by simp
  qed
qed

lemma deq_n_rep:
  "rep q (xs @ ys) \<Longrightarrow> \<exists>q'. deq_n (length xs) q = Some (map Some xs, q') \<and> rep q' ys"
proof (induction xs arbitrary: q)
  case Nil
  then show ?case by simp
next
  case (Cons x xs)
  then obtain q1 where q1: "deq q = Some (Some x, q1)" "rep q1 (xs @ ys)" using deq_Cons by force
  from Cons.IH [OF q1(2)] q1(1) show ?case by auto
qed

lemma fill_drain:
  assumes "rep q []" and "int (length ps) \<le> cap q"
  shows "\<exists>q' q''. enq_all ps q = Some q' \<and> deq_n (length ps) q' = Some (map Some ps, q'') \<and> rep q'' []"
proof -
  from enq_all_rep [OF assms(1), of ps] assms(2) obtain q' where
    q': "enq_all ps q = Some q'" "rep q' (ps @ [])" by (auto simp: nat_le_iff)
  from deq_n_rep [OF q'(2)] q'(1) show ?thesis by auto
qed

end

section \<open>The linked list keeps the contract\<close>

text \<open>From \<open>x\<close> the store has nodes at the addresses \<open>as\<close> with the packets \<open>ps\<close>, then a null pointer.\<close>

fun chain :: "(nat \<Rightarrow> 'p list_node option) \<Rightarrow> nat option \<Rightarrow> nat list \<Rightarrow> 'p list \<Rightarrow> bool" where
  "chain st x [] [] \<longleftrightarrow> x = None"
| "chain st x (a # as) (p # ps) \<longleftrightarrow>
     x = Some a \<and> (\<exists>y. st a = Some \<lparr>node_p = Some p, node_next = y\<rparr> \<and> chain st y as ps)"
| "chain st x _ _ \<longleftrightarrow> False"

definition queue_at :: "'p packet_queue \<Rightarrow> nat list \<Rightarrow> 'p list \<Rightarrow> bool" where
  "queue_at q as xs \<longleftrightarrow>
     (\<exists>y. store q (q_head q) = Some \<lparr>node_p = None, node_next = y\<rparr> \<and> chain (store q) y as xs) \<and>
     distinct (q_head q # as) \<and> q_tail q = last (q_head q # as) \<and>
     dom (store q) = set (q_head q # as) \<and> (\<forall>a \<in> dom (store q). a < fresh q) \<and>
     packet_count q = int (length xs)"

definition queue_rep :: "'p packet_queue \<Rightarrow> 'p list \<Rightarrow> bool" where
  "queue_rep q xs \<longleftrightarrow> (\<exists>as. queue_at q as xs)"

lemma chain_Nil: "chain st y as [] \<longleftrightarrow> as = [] \<and> y = None"
  by (cases as) auto

lemma chain_Cons:
  "chain st y as (x # xs) \<longleftrightarrow> (\<exists>a as' z. as = a # as' \<and> y = Some a \<and>
     st a = Some \<lparr>node_p = Some x, node_next = z\<rparr> \<and> chain st z as' xs)"
  by (cases as) auto

lemma chain_length: "chain st x as ps \<Longrightarrow> length as = length ps"
  by (induction st x as ps rule: chain.induct) auto

lemma chain_upd [simp]: "a \<notin> set as \<Longrightarrow> chain (st(a := v)) x as ps = chain st x as ps"
  by (induction st x as ps rule: chain.induct) auto

lemma chain_snoc:
  assumes "chain st x as ps" and "as \<noteq> []" and "distinct as" and "b \<notin> set as"
  shows "\<exists>n. st (last as) = Some n \<and> chain (st(b := Some \<lparr>node_p = Some p, node_next = None\<rparr>,
      last as := Some (n\<lparr>node_next := Some b\<rparr>))) x (as @ [b]) (ps @ [p])"
  using assms
proof (induction st x as ps rule: chain.induct)
  case (2 st x a as q ps)
  then obtain y where y: "st a = Some \<lparr>node_p = Some q, node_next = y\<rparr>" "chain st y as ps" "x = Some a"
    by auto
  show ?case
  proof (cases "as = []")
    case True
    with y have "ps = []" "y = None" using chain_length [OF y(2)] by auto
    with True y 2 show ?thesis by auto
  next
    case False
    obtain n where "st (last as) = Some n"
      "chain (st(b := Some \<lparr>node_p = Some p, node_next = None\<rparr>, last as := Some (n\<lparr>node_next := Some b\<rparr>)))
         y (as @ [b]) (ps @ [p])"
      using "2.IH" [OF y(2) False] "2.prems"(3,4) by (auto simp del: fun_upd_apply)
    moreover have "a \<noteq> last as" "a \<noteq> b" using False 2(4,5) by (auto dest: last_in_set)
    ultimately show ?thesis using False y by (auto simp: fun_upd_def)
  qed
qed auto

lemma Enqueue_rep:
  assumes "queue_rep q xs" and "int (length xs) < max_size q"
  shows "\<exists>q'. Enqueue p q = Some (int (length xs) + 1, q') \<and> queue_rep q' (xs @ [p]) \<and>
    max_size q' = max_size q"
proof -
  from assms(1) obtain as y where at: "store q (q_head q) = Some \<lparr>node_p = None, node_next = y\<rparr>"
      "chain (store q) y as xs" "distinct (q_head q # as)" "q_tail q = last (q_head q # as)"
      "dom (store q) = set (q_head q # as)" "\<forall>a \<in> dom (store q). a < fresh q"
      "packet_count q = int (length xs)"
    by (auto simp: queue_rep_def queue_at_def)
  let ?b = "fresh q" and ?new = "\<lparr>node_p = Some p, node_next = None\<rparr>"
  have b: "?b \<notin> set (q_head q # as)" using at(5,6) by blast
  have tail: "q_tail q \<in> set (q_head q # as)" using at(4) by (auto split: if_splits)
  then obtain n where n: "store q (q_tail q) = Some n" using at(5) by (auto simp: domIff)
  let ?st = "(store q)(?b := Some ?new, q_tail q := Some (n\<lparr>node_next := Some ?b\<rparr>))"
  let ?q = "q\<lparr>store := ?st, fresh := ?b + 1, q_tail := ?b, packet_count := packet_count q + 1\<rparr>"
  have "q_tail q \<noteq> ?b" using tail b by auto
  then have "Enqueue p q = Some (int (length xs) + 1, ?q)"
    using assms(2) n at(7) by (simp add: Enqueue_def set_next_def Let_def)
  moreover have "queue_at ?q (as @ [?b]) (xs @ [p])"
  proof -
    have "\<exists>y'. ?st (q_head q) = Some \<lparr>node_p = None, node_next = y'\<rparr> \<and> chain ?st y' (as @ [?b]) (xs @ [p])"
    proof (cases "as = []")
      case True
      with at(2) have "xs = []" using chain_length [OF at(2)] by simp
      with True at n b show ?thesis by auto
    next
      case False
      then have t: "q_tail q = last as" "q_tail q \<noteq> q_head q"
        using at(3,4) by (auto dest: last_in_set)
      from chain_snoc [OF at(2) False, of ?b p] at(3) b n t(1) have "chain ?st y (as @ [?b]) (xs @ [p])"
        by auto
      moreover have "?st (q_head q) = Some \<lparr>node_p = None, node_next = y\<rparr>" using at(1) t b by auto
      ultimately show ?thesis by blast
    qed
    moreover have "dom ?st = set (q_head q # as @ [?b])" using at(5) tail by auto
    moreover have "\<forall>a \<in> set (q_head q # as @ [?b]). a < ?b + 1" using at(5,6) by auto
    ultimately show ?thesis using at(3,7) b unfolding queue_at_def by simp
  qed
  ultimately show ?thesis by (auto simp: queue_rep_def)
qed

lemma Dequeue_rep:
  assumes "queue_rep q (x # xs)"
  shows "\<exists>q'. Dequeue q = Some (Some x, q') \<and> queue_rep q' xs \<and> max_size q' = max_size q"
proof -
  from assms obtain as0 y where at: "store q (q_head q) = Some \<lparr>node_p = None, node_next = y\<rparr>"
      "chain (store q) y as0 (x # xs)" "distinct (q_head q # as0)" "q_tail q = last (q_head q # as0)"
      "dom (store q) = set (q_head q # as0)" "\<forall>a \<in> dom (store q). a < fresh q"
      "packet_count q = int (length (x # xs))"
    by (auto simp: queue_rep_def queue_at_def)
  from at(2) obtain a as z where a: "as0 = a # as" "y = Some a"
      "store q a = Some \<lparr>node_p = Some x, node_next = z\<rparr>" "chain (store q) z as xs"
    by (auto simp: chain_Cons)
  let ?st = "(store q)(q_head q := Some \<lparr>node_p = None, node_next = z\<rparr>, a := None)"
  let ?q = "q\<lparr>store := ?st, q_tail := (if xs = [] then q_head q else q_tail q),
    packet_count := packet_count q - 1\<rparr>"
  have "Dequeue q = Some (Some x, ?q)"
    using at(1,7) a by (simp add: Dequeue_def set_next_def Let_def)
  moreover have "queue_at ?q as xs"
    using at a chain_length [OF a(4)] unfolding queue_at_def by auto
  ultimately show ?thesis by (auto simp: queue_rep_def)
qed

lemma Enqueue_full:
  "queue_rep q xs \<Longrightarrow> \<not> int (length xs) < max_size q \<Longrightarrow> Enqueue p q = Some (- 1, q)"
  by (auto simp: Enqueue_def queue_rep_def queue_at_def)

lemma QueueHead_Cons: "queue_rep q (x # xs) \<Longrightarrow> QueueHead q = Some (Some x)"
  by (auto simp: queue_rep_def queue_at_def QueueHead_def chain_Cons)

lemma QueueHead_Nil: "queue_rep q [] \<Longrightarrow> QueueHead q = None"
  by (auto simp: queue_rep_def queue_at_def QueueHead_def chain_Nil)

lemma Dequeue_Nil: "queue_rep q [] \<Longrightarrow> Dequeue q = Some (None, q)"
  by (auto simp: queue_rep_def queue_at_def Dequeue_def)

interpretation pq: bounded_queue Enqueue Dequeue QueueHead queue_rep max_size
  by unfold_locales
    (auto simp: Enqueue_rep Enqueue_full Dequeue_rep Dequeue_Nil QueueHead_Cons QueueHead_Nil)

lemma new_Packet_queue_rep: "queue_rep (new_Packet_queue n) []"
  unfolding queue_rep_def queue_at_def by (intro exI [of _ "[]"]) (auto simp: new_Packet_queue_def)

lemma free_nodes_chain:
  assumes "st h = Some n" and "node_next n = y" and "chain st y as ps" and "distinct (h # as)"
  shows "free_nodes st h (last (h # as)) = Some (\<lambda>a. if a \<in> set (h # as) then None else st a)"
  using assms
proof (induction as arbitrary: st h n y ps)
  case Nil
  then show ?case by (subst free_nodes.simps) (auto simp: fun_eq_iff)
next
  case (Cons a as)
  from Cons.prems(3) obtain p ps' z where a: "ps = p # ps'" "y = Some a"
      "st a = Some \<lparr>node_p = Some p, node_next = z\<rparr>" "chain st z as ps'"
    by (cases ps) auto
  let ?st = "st(h := None)"
  have "free_nodes ?st a (last (a # as)) = Some (\<lambda>c. if c \<in> set (a # as) then None else ?st c)"
    by (rule Cons.IH) (use Cons.prems(4) a(3,4) in \<open>auto simp del: fun_upd_apply simp: fun_upd_other\<close>)
  moreover have "last (h # a # as) \<noteq> h" using Cons.prems(4) by (auto dest: last_in_set)
  ultimately show ?case
    using Cons.prems(1,2) a(2) by (subst free_nodes.simps) (auto simp: fun_eq_iff)
qed

section \<open>Properties\<close>

text \<open>
  \<open>Packet_queue\<close> is a bounded first-in first-out queue. Starting from the empty queue, packets
  that fit are dequeued in the order they were enqueued, without a use of a null or freed node, and
  the queue is empty again.
\<close>

lemma Packet_queue_fifo:
  assumes "int (length ps) \<le> n"
  shows "\<exists>q q'. pq.enq_all ps (new_Packet_queue n) = Some q \<and>
    pq.deq_n (length ps) q = Some (map Some ps, q') \<and> queue_rep q' []"
  using pq.fill_drain [OF new_Packet_queue_rep, of ps n] assms by (simp add: new_Packet_queue_def)

text \<open>
  C30: one step of the queue refines one step of a list: \<open>Enqueue\<close> appends and returns the new
  length, or returns \<open>-1\<close> and changes nothing when the queue is full; \<open>Dequeue\<close> removes the
  oldest packet, or returns a null packet when there is none.
\<close>

theorem Packet_queue_refines_list:
  assumes "queue_rep q xs"
  shows "(\<exists>r q'. Enqueue p q = Some (r, q') \<and>
      (if int (length xs) < max_size q then r = int (length xs) + 1 \<and> queue_rep q' (xs @ [p])
       else r = - 1 \<and> q' = q)) \<and>
    (\<exists>x q'. Dequeue q = Some (x, q') \<and>
      (case xs of [] \<Rightarrow> x = None \<and> q' = q | y # ys \<Rightarrow> x = Some y \<and> queue_rep q' ys))"
proof
  show "\<exists>r q'. Enqueue p q = Some (r, q') \<and>
      (if int (length xs) < max_size q then r = int (length xs) + 1 \<and> queue_rep q' (xs @ [p])
       else r = - 1 \<and> q' = q)"
    using pq.enq_spec [OF assms, of p] by (auto split: if_splits)
  show "\<exists>x q'. Dequeue q = Some (x, q') \<and>
      (case xs of [] \<Rightarrow> x = None \<and> q' = q | y # ys \<Rightarrow> x = Some y \<and> queue_rep q' ys)"
    using assms by (cases xs) (auto simp: Dequeue_Nil dest: Dequeue_rep)
qed

theorem Packet_queue_refines_list_witness:
  "(\<exists>r q'. Enqueue (5 :: nat) (new_Packet_queue 1) = Some (r, q') \<and>
      (if int (length ([] :: nat list)) < max_size (new_Packet_queue 1 :: nat packet_queue)
       then r = int (length ([] :: nat list)) + 1 \<and> queue_rep q' ([] @ [5])
       else r = - 1 \<and> q' = new_Packet_queue 1)) \<and>
   (\<exists>x q'. Dequeue (new_Packet_queue 1 :: nat packet_queue) = Some (x, q') \<and>
      (case [] of [] \<Rightarrow> x = None \<and> q' = new_Packet_queue 1 | y # ys \<Rightarrow> x = Some y \<and> queue_rep q' ys))"
  by (rule Packet_queue_refines_list [OF new_Packet_queue_rep])

text \<open>
  The destructor terminates and frees every node of the queue exactly once; nothing is leaked.
\<close>

lemma destroy_Packet_queue_frees_all:
  assumes "queue_rep q xs"
  shows "destroy_Packet_queue q = Some (\<lambda>_. None)"
proof -
  from assms obtain as y where at: "store q (q_head q) = Some \<lparr>node_p = None, node_next = y\<rparr>"
      "chain (store q) y as xs" "distinct (q_head q # as)" "q_tail q = last (q_head q # as)"
      "dom (store q) = set (q_head q # as)"
    by (auto simp: queue_rep_def queue_at_def)
  have "(\<lambda>a. if a \<in> set (q_head q # as) then None else store q a) = (\<lambda>_. None)"
    using at(5) by (auto simp: fun_eq_iff domIff)
  with free_nodes_chain [OF at(1) _ at(2,3)] at(4) show ?thesis
    by (simp add: destroy_Packet_queue_def)
qed

end
