(* ===== verification/Mac_State.thy ===== *)
theory Mac_State
  imports Mac_Packet Packet_Queue
begin

text \<open>
  The state of a \<open>MacTdma\<close> object beyond its slot table: timers, radio state, buffered packets and
  queues (\<open>src/ns2/mac/mac-tdma.h\<close>), and the timer operations, the constructor and the start-up
  handler of \<open>src/ns2/mac/mac-tdma.cc\<close>.

  What an operation does outside the object is recorded in the field \<open>out\<close>, oldest first: events
  given to the scheduler, packets handed to the physical layer or to the upper layers, dropped and
  freed packets, trace lines. The simulation clock is the field \<open>clock\<close>.
\<close>

section \<open>Timers\<close>

record mac_timer =
  t_busy :: bool
  t_paused :: bool
  stime :: rat
  rtime :: rat

record backoff_timer = mac_timer +
  difs_wait :: rat
  bo_slottime :: rat

datatype timer_id = DelayInitTimer | SlotTimer | TxPktTimer | RxPktTimer | BackoffTimer

datatype effect =
    Schedule timer_id rat
  | Cancel timer_id
  | Down packet
  | Up packet
  | Dropped packet
  | Freed packet
  | LibcFreed packet
  | Callback
  | Trace
  | Radio bool

text \<open>
  \<open>Freed\<close> is \<open>Packet::free\<close>; \<open>LibcFreed\<close> the function \<open>free\<close> of the C library, which \<open>sendUp\<close> calls on a
  packet. \<open>Callback\<close> resumes the interface queue.
\<close>

text \<open>The constructor of \<open>MacTdmaTimer\<close>.\<close>

definition new_timer :: mac_timer where
  "new_timer = \<lparr>t_busy = False, t_paused = False, stime = 0, rtime = 0\<rparr>"

text \<open>
  Both versions of \<open>MacTdmaTimer::start\<close>: they differ in the event they schedule only. The assert
  on the time comes after the assignments.
\<close>

definition timer_start ::
    "timer_id \<Rightarrow> rat \<Rightarrow> rat \<Rightarrow> 'a mac_timer_scheme \<Rightarrow> ('a mac_timer_scheme \<times> effect list) option" where
  "timer_start k now time t =
     (if t_busy t \<or> time < 0 then None
      else Some (t\<lparr>t_busy := True, t_paused := False, stime := now, rtime := time\<rparr>, [Schedule k time]))"

definition timer_stop ::
    "timer_id \<Rightarrow> 'a mac_timer_scheme \<Rightarrow> ('a mac_timer_scheme \<times> effect list) option" where
  "timer_stop k t =
     (if \<not> t_busy t then None
      else Some (t\<lparr>t_busy := False, t_paused := False, stime := 0, rtime := 0\<rparr>,
        if t_paused t then [] else [Cancel k]))"

definition timer_expire :: "rat \<Rightarrow> 'a mac_timer_scheme \<Rightarrow> rat" where
  "timer_expire now t = stime t + rtime t - now"

text \<open>What every \<open>handle\<close> does before it calls the handler of the MAC.\<close>

definition timer_handle :: "'a mac_timer_scheme \<Rightarrow> 'a mac_timer_scheme" where
  "timer_handle t = t\<lparr>t_busy := False, t_paused := False, stime := 0, rtime := 0\<rparr>"

definition backoff_handle :: "backoff_timer \<Rightarrow> backoff_timer" where
  "backoff_handle t = (timer_handle t)\<lparr>difs_wait := 0\<rparr>"

definition backoff_start ::
    "rat \<Rightarrow> int \<Rightarrow> bool \<Rightarrow> rat \<Rightarrow> backoff_timer \<Rightarrow> (backoff_timer \<times> effect list) option" where
  "backoff_start now cw idle difs t =
     (if t_busy t then None
      else
        let t' = t\<lparr>t_busy := True, t_paused := False, stime := now, rtime := of_int cw * bo_slottime t,
              difs_wait := difs\<rparr>
        in if \<not> idle then Some (t'\<lparr>t_paused := True\<rparr>, [])
           else if rtime t' + difs_wait t' < 0 then None
           else Some (t', [Schedule BackoffTimer (rtime t' + difs_wait t')]))"

definition backoff_pause :: "rat \<Rightarrow> backoff_timer \<Rightarrow> (backoff_timer \<times> effect list) option" where
  "backoff_pause now t =
     (let sr = now - (stime t + difs_wait t);
          slots0 = trunc (sr / bo_slottime t);
          slots = (if slots0 < 0 then 0 else slots0);
          t' = t\<lparr>t_paused := True, rtime := rtime t - of_int slots * bo_slottime t, difs_wait := 0\<rparr>
      in if \<not> (t_busy t \<and> \<not> t_paused t) then None
         else if rtime t' < 0 then None
         else Some (t', [Cancel BackoffTimer]))"

definition backoff_resume :: "rat \<Rightarrow> rat \<Rightarrow> backoff_timer \<Rightarrow> (backoff_timer \<times> effect list) option" where
  "backoff_resume now difs t =
     (if \<not> (t_busy t \<and> t_paused t) then None
      else
        let t' = t\<lparr>t_paused := False, stime := now, difs_wait := difs\<rparr>
        in if rtime t' + difs_wait t' < 0 then None
           else Some (t', [Schedule BackoffTimer (rtime t' + difs_wait t')]))"

section \<open>The MAC object\<close>

datatype mac_state = MAC_IDLE | MAC_POLLING | MAC_RECV | MAC_SEND | MAC_RTS | MAC_BCN | MAC_CTS
  | MAC_ACK | MAC_COLL | MAC_BUSY | MAC_MGMT

text \<open>\<open>callback\<close> says whether a handler of the interface queue is registered in \<open>callback_\<close>.\<close>

record mac = tdma +
  index :: int
  clock :: rat
  slot_time :: rat
  start_time :: rat
  mhDelayInit :: mac_timer
  mhSlot :: mac_timer
  mhTxPkt :: mac_timer
  mhRxPkt :: mac_timer
  mhBackoff :: backoff_timer
  mstate :: mac_state
  rx_state :: mac_state
  tx_state :: mac_state
  radio_active :: bool
  tx_active :: bool
  pktRx :: "packet option"
  pktTx :: "packet option"
  pktFI :: "packet option"
  callback :: bool
  last_log_time :: rat
  safety_packet_queue :: "packet packet_queue"
  out :: "effect list"

text \<open>
  Parameters of every handler: configuration, the static \<open>frame_len_\<close>, random numbers, address
  macros, radio.
\<close>

record env =
  cfg :: tdma_cfg
  frame_len0 :: int
  rnd :: rng
  mx :: marshal
  ph :: phy

definition emit :: "effect list \<Rightarrow> 'a mac_scheme \<Rightarrow> 'a mac_scheme" where
  "emit es s = s\<lparr>out := out s @ es\<rparr>"

definition mod_stats :: "(tdma_stats \<Rightarrow> tdma_stats) \<Rightarrow> 'a tdma_scheme \<Rightarrow> 'a tdma_scheme" where
  "mod_stats f s = s\<lparr>stats := f (stats s)\<rparr>"

definition start_slot_timer :: "rat \<Rightarrow> 'a mac_scheme \<Rightarrow> 'a mac_scheme option" where
  "start_slot_timer time s =
     map_option (\<lambda>(t, es). emit es (s\<lparr>mhSlot := t\<rparr>)) (timer_start SlotTimer (clock s) time (mhSlot s))"

definition start_delay_timer :: "rat \<Rightarrow> 'a mac_scheme \<Rightarrow> 'a mac_scheme option" where
  "start_delay_timer time s =
     map_option (\<lambda>(t, es). emit es (s\<lparr>mhDelayInit := t\<rparr>))
       (timer_start DelayInitTimer (clock s) time (mhDelayInit s))"

definition start_tx_timer :: "rat \<Rightarrow> 'a mac_scheme \<Rightarrow> 'a mac_scheme option" where
  "start_tx_timer time s =
     map_option (\<lambda>(t, es). emit es (s\<lparr>mhTxPkt := t\<rparr>)) (timer_start TxPktTimer (clock s) time (mhTxPkt s))"

definition start_rx_timer :: "rat \<Rightarrow> 'a mac_scheme \<Rightarrow> 'a mac_scheme option" where
  "start_rx_timer time s =
     map_option (\<lambda>(t, es). emit es (s\<lparr>mhRxPkt := t\<rparr>)) (timer_start RxPktTimer (clock s) time (mhRxPkt s))"

definition stop_rx_timer :: "'a mac_scheme \<Rightarrow> 'a mac_scheme option" where
  "stop_rx_timer s =
     map_option (\<lambda>(t, es). emit es (s\<lparr>mhRxPkt := t\<rparr>)) (timer_stop RxPktTimer (mhRxPkt s))"

definition start_backoff :: "int \<Rightarrow> bool \<Rightarrow> rat \<Rightarrow> 'a mac_scheme \<Rightarrow> 'a mac_scheme option" where
  "start_backoff cw idle difs s =
     map_option (\<lambda>(t, es). emit es (s\<lparr>mhBackoff := t\<rparr>)) (backoff_start (clock s) cw idle difs (mhBackoff s))"

section \<open>Construction\<close>

text \<open>C's remainder, with the sign of the dividend.\<close>

definition c_rem :: "int \<Rightarrow> int \<Rightarrow> int" where
  "c_rem a b = (if a < 0 then - (- a mod \<bar>b\<bar>) else a mod \<bar>b\<bar>)"

text \<open>The static variables of the class that the constructor reads or writes.\<close>

record statics =
  active_node :: int
  s_start_time :: rat

definition re_schedule :: "rat \<Rightarrow> statics \<Rightarrow> statics" where
  "re_schedule now st = (if active_node st = 1 then st\<lparr>s_start_time := now\<rparr> else st)"

text \<open>
  The constructor. \<open>raw\<close> is the object after the constructor of the base class and the calls of
  \<open>bind\<close>: \<open>slot_time\<close> and \<open>adj_free_threshold\<close> hold their bound values, and the fields that the
  constructor does not assign keep the values of \<open>raw\<close>. \<open>frame_len_\<close> and \<open>max_node_num_\<close> are the other
  bound variables it reads; \<open>max_frame_len_\<close> tags are allocated. The identifier is copied into
  \<open>collected_fi_\<close> before it is assigned.
\<close>

definition init_fields :: "env \<Rightarrow> frame_info \<Rightarrow> int \<Rightarrow> rat \<Rightarrow> 'a mac_scheme \<Rightarrow> 'a mac_scheme" where
  "init_fields e fi node start raw =
     (let total = trunc ((clock raw - start) / slot_time raw) - 1 in
      mod_stats (\<lambda>x. x\<lparr>collision_count := 0, localmerge_collision_count := 0, request_fail_times := 0,
          waiting_frame_count := 0, frame_count := 0, packet_sended := 0, packet_received := 0,
          safe_send_count := 0, safe_recv_count := 0, recv_fi_count := 0, send_fi_count := 0\<rparr>)
        (raw\<lparr>bch_slot_lock := 5, initialed := False, testmode_init_flag := True,
           max_slot_num := frame_len0 e, received_fi_list := [],
           safety_packet_queue := new_Packet_queue 100,
           collected_fi := fi\<lparr>fi_index := word_of_int (index raw), fi_sti := global_sti raw\<rparr>,
           global_sti := word_of_int node, start_time := start,
           tx_state := MAC_IDLE, rx_state := MAC_IDLE, tx_active := False, radio_active := True,
           total_slot_count := total, slot_count := c_rem total (frame_len0 e),
           mhDelayInit := new_timer, mhSlot := new_timer, mhTxPkt := new_timer, mhRxPkt := new_timer,
           mhBackoff := \<lparr>t_busy = False, t_paused = False, stime = 0, rtime = 0, difs_wait = 0,
             bo_slottime = SIFSTime (ph e)\<rparr>,
           node_state := NODE_INIT, slot_state := BEGINING, enable := False\<rparr>))"

definition new_MacTdma ::
    "env \<Rightarrow> int \<Rightarrow> statics \<Rightarrow> 'a mac_scheme \<Rightarrow> ('a mac_scheme \<times> statics) option" where
  "new_MacTdma e max_node_num st raw = do {
     fi \<leftarrow> new_Frame_info max_frame_len;
     let st1 = st\<lparr>active_node := active_node st + 1\<rparr>;
     if max_node_num < active_node st1 \<or> slot_time raw = 0 \<or> frame_len0 e = 0 then None
     else do {
       let st2 = re_schedule (clock raw) st1;
       let s1 = init_fields e fi (active_node st1) (s_start_time st2) raw;
       let (k, s2) = (if delay_init_frame_num (cfg e) \<noteq> 0
             then random_mod (rnd e) (delay_init_frame_num (cfg e)) s1 else (0, s1));
       s3 \<leftarrow> start_delay_timer (of_int (k * frame_len0 e) * slot_time raw) s2;
       Some (s3, st2)
     }
   }"

definition delayInitHandler :: "'a mac_scheme \<Rightarrow> 'a mac_scheme option" where
  "delayInitHandler s =
     start_slot_timer ((clock s - start_time s) - of_int (slot_count s + 1) * slot_time s) s"

text \<open>\<open>DelayInitTimer::handle\<close>.\<close>

definition DelayInitTimer_handle :: "'a mac_scheme \<Rightarrow> 'a mac_scheme option" where
  "DelayInitTimer_handle s = delayInitHandler (s\<lparr>mhDelayInit := timer_handle (mhDelayInit s)\<rparr>)"

end
