(* ===== verification/Mac_Example.thy ===== *)
theory Mac_Example
  imports Mac_State Slot_Example
begin

text \<open>
  A concrete environment and concrete MAC objects, to which the theorems about the handlers are
  applied. The address macros are instantiated by big-endian byte arrays.
\<close>

definition be_store4 :: "u32 \<Rightarrow> u8 list \<Rightarrow> u8 list" where
  "be_store4 x b = [ucast (drop_bit 24 x), ucast (drop_bit 16 x), ucast (drop_bit 8 x), ucast x] @ drop 4 b"

definition be_get4 :: "u8 list \<Rightarrow> u32" where
  "be_get4 b = push_bit 24 (ucast (b ! 0)) OR push_bit 16 (ucast (b ! 1)) OR push_bit 8 (ucast (b ! 2)) OR
     ucast (b ! 3)"

definition be_store2 :: "u16 \<Rightarrow> u8 list \<Rightarrow> u8 list" where
  "be_store2 x b = [ucast (drop_bit 8 x), ucast x] @ drop 2 b"

definition be_get2 :: "u8 list \<Rightarrow> u16" where
  "be_get2 b = push_bit 8 (ucast (b ! 0)) OR ucast (b ! 1)"

definition example_marshal :: marshal where
  "example_marshal = \<lparr>store4 = be_store4, get4 = be_get4, store2 = be_store2, get2 = be_get2\<rparr>"

lemma be_get4_store4 [simp]: "be_get4 (be_store4 x b) = x"
proof (rule bit_word_eqI)
  fix n :: nat assume "n < LENGTH(32)"
  then show "bit (be_get4 (be_store4 x b)) n \<longleftrightarrow> bit x n"
    by (cases "n < 8"; cases "n < 16"; cases "n < 24") (auto simp: be_get4_def be_store4_def bit_simps)
qed

lemma be_get2_store2 [simp]: "be_get2 (be_store2 x b) = x"
  by (rule bit_word_eqI) (auto simp: be_get2_def be_store2_def bit_simps)

lemma example_marshal_ok [simp]: "marshal_ok example_marshal"
  by (simp add: marshal_ok_def example_marshal_def) (auto simp: be_store4_def be_store2_def)

text \<open>The values of \<open>PMIB\<close> and a bandwidth of 2 Mb/s.\<close>

definition example_phy :: phy where
  "example_phy = \<lparr>SIFSTime = 1 / 100000, PreambleLength = 144, PLCPHeaderLength = 48, bandwidth = 2000000\<rparr>"

definition example_env :: env where
  "example_env = \<lparr>cfg = example_cfg, frame_len0 = 32, rnd = (\<lambda>_. 7), mx = example_marshal, ph = example_phy\<rparr>"

text \<open>A fixed frame length instead of frame adaptation.\<close>

definition fixed_env :: env where
  "fixed_env = example_env\<lparr>cfg := example_cfg\<lparr>adj_frame_ena := False\<rparr>\<rparr>"

definition example_mac :: "tdma \<Rightarrow> mac" where
  "example_mac n = tdma.extend n (mac.fields 1 0 (1 / 1000) 0 new_timer new_timer new_timer new_timer
     \<lparr>t_busy = False, t_paused = False, stime = 0, rtime = 0, difs_wait = 0, bo_slottime = 1 / 100000\<rparr>
     MAC_IDLE MAC_IDLE MAC_IDLE True False None None None False 0 (new_Packet_queue 100) [])"

lemma example_mac_fields [simp]:
  "global_sti (example_mac n) = global_sti n" "collected_fi (example_mac n) = collected_fi n"
  "received_fi_list (example_mac n) = received_fi_list n" "node_state (example_mac n) = node_state n"
  "slot_state (example_mac n) = slot_state n" "max_slot_num (example_mac n) = max_slot_num n"
  "slot_num (example_mac n) = slot_num n" "slot_adj_candidate (example_mac n) = slot_adj_candidate n"
  "slot_count (example_mac n) = slot_count n" "total_slot_count (example_mac n) = total_slot_count n"
  "bch_slot_lock (example_mac n) = bch_slot_lock n" "adj_free_threshold (example_mac n) = adj_free_threshold n"
  "enable (example_mac n) = enable n" "initialed (example_mac n) = initialed n"
  "stats (example_mac n) = stats n"
  by (simp_all add: example_mac_def tdma.defs)

lemma example_mac_mac_fields [simp]:
  "index (example_mac n) = 1" "clock (example_mac n) = 0" "slot_time (example_mac n) = 1 / 1000"
  "start_time (example_mac n) = 0" "mhSlot (example_mac n) = new_timer" "mhTxPkt (example_mac n) = new_timer"
  "mhRxPkt (example_mac n) = new_timer" "\<not> t_busy (mhBackoff (example_mac n))"
  "rx_state (example_mac n) = MAC_IDLE" "tx_state (example_mac n) = MAC_IDLE"
  "radio_active (example_mac n)" "pktRx (example_mac n) = None" "pktFI (example_mac n) = None"
  "callback (example_mac n) = False" "out (example_mac n) = []"
  "safety_packet_queue (example_mac n) = new_Packet_queue 100"
  by (simp_all add: example_mac_def tdma.defs mac.defs)

lemma tags_example_mac [simp]: "tags (example_mac n) = tags n"
  by (simp add: tags_def)

lemma table_ok_example_mac [simp]: "table_ok (example_mac n) = table_ok n"
  by (simp add: table_ok_def)

lemma new_timer_idle [simp]: "\<not> t_busy new_timer"
  by (simp add: new_timer_def)

lemma example_env_fields [simp]:
  "cfg example_env = example_cfg" "ph example_env = example_phy" "mx example_env = example_marshal"
  "cfg fixed_env = example_cfg\<lparr>adj_frame_ena := False\<rparr>" "ph fixed_env = example_phy"
  "mx fixed_env = example_marshal" "frame_len0 example_env = 32" "frame_len0 fixed_env = 32"
  by (simp_all add: example_env_def fixed_env_def)

lemma example_cfg_switches [simp]:
  "\<not> random_bch_if_single_switch example_cfg" "choose_bch_random_switch example_cfg = 1"
  "adj_frame_ena example_cfg" "slot_memory example_cfg"
  by (simp_all add: example_cfg_def)

lemma example_node_counters [simp]:
  "enable (example_node me ts)" "total_slot_count (example_node me ts) = 0"
  "bch_slot_lock (example_node me ts) = 5" "slot_count (example_node me ts) = 0"
  "slot_state (example_node me ts) = BEGINING" "initialed (example_node me ts)"
  by (simp_all add: example_node_def)

end
