(* ===== verification/Merge_Fi.thy ===== *)
theory Merge_Fi
  imports Slot_Example
begin

text \<open>
  How a node updates its slot table from the frame information of its neighbours: \<open>merge_fi\<close> and
  \<open>synthesize_fi_list\<close> of \<open>src/ns2/mac/mac-tdma.cc\<close>. The two \<open>switch\<close> cascades of \<open>merge_fi\<close> are one
  function per status of the local slot.
\<close>

section \<open>Model\<close>

text \<open>First loop, own slot, the neighbour reports another node in it.\<close>

definition merge_own_other :: "tdma_cfg \<Rightarrow> u32 \<Rightarrow> slot_tag \<Rightarrow> slot_tag \<Rightarrow> slot_tag" where
  "merge_own_other cfg sender r t =
     (if busy r = SLOT_1HOP then
        if psf t < psf r then
          t\<lparr>life_time := slot_lifetime_frame_s2 cfg, sti := sti r, count_2hop := count_2hop t + 1,
            count_3hop := count_3hop t + count_2hop r,
            busy := (if sti r = sender then SLOT_1HOP else SLOT_2HOP)\<rparr>
        else if psf r = psf t then t\<lparr>busy := SLOT_COLLISION\<rparr>
        else t
      else if busy r = SLOT_2HOP then t\<lparr>count_3hop := count_3hop t + count_2hop r\<rparr>
      else if busy r = SLOT_FREE then t\<lparr>busy := SLOT_COLLISION\<rparr>
      else if busy r = SLOT_COLLISION then
        t\<lparr>life_time := slot_lifetime_frame_s2 cfg, sti := sti r, count_2hop := 1, count_3hop := 1,
          busy := SLOT_2HOP\<rparr>
      else t)"

text \<open>First loop, own slot, the neighbour reports this node in it.\<close>

definition merge_own_same :: "slot_tag \<Rightarrow> slot_tag \<Rightarrow> slot_tag" where
  "merge_own_same r t = (if busy r = SLOT_FREE then t\<lparr>busy := SLOT_COLLISION\<rparr> else t)"

definition merge_own_step ::
    "tdma_cfg \<Rightarrow> frame_info \<Rightarrow> int \<Rightarrow> 'a tdma_scheme \<Rightarrow> 'a tdma_scheme option" where
  "merge_own_step cfg fi count s = do {
     r \<leftarrow> array_get (slot_describe fi) count;
     t \<leftarrow> tag_at s count;
     if sti t = global_sti s then
       if sti t \<noteq> sti r \<and> sti r \<noteq> 0 then
         mod_tag count (merge_own_other cfg (fi_sti fi) r) s
       else if sti t = sti r then mod_tag count (merge_own_same r) s
       else if busy r = SLOT_FREE then do {
         new_neighbor \<leftarrow> isNewNeighbor (fi_sti fi) s;
         if \<not> new_neighbor then mod_tag count (\<lambda>t. t\<lparr>busy := SLOT_COLLISION\<rparr>) s else Some s
       } else Some s
     else Some s
   }"

text \<open>Second loop, slot of a direct neighbour.\<close>

definition merge_1hop :: "tdma_cfg \<Rightarrow> u32 \<Rightarrow> slot_tag \<Rightarrow> slot_tag \<Rightarrow> slot_tag" where
  "merge_1hop cfg sender r t =
     (if sti t \<noteq> sti r \<and> sti r \<noteq> 0 then
        if busy r = SLOT_1HOP then
          if sti r = sender then
            if psf t < psf r then
              t\<lparr>life_time := slot_lifetime_frame_s2 cfg, sti := sti r,
                count_2hop := count_2hop t + 1, count_3hop := count_3hop t + count_2hop r,
                busy := SLOT_1HOP\<rparr>
            else if psf r = psf t then
              t\<lparr>life_time := slot_lifetime_frame_s2 cfg, busy := SLOT_COLLISION\<rparr>
            else t
          else t\<lparr>count_2hop := count_2hop t + 1, count_3hop := count_3hop t + count_2hop r\<rparr>
        else if busy r = SLOT_2HOP then t\<lparr>count_3hop := count_3hop t + count_2hop r\<rparr>
        else if busy r = SLOT_FREE then t
        else if busy r = SLOT_COLLISION then
          t\<lparr>life_time := slot_lifetime_frame_s2 cfg, sti := sti r, count_2hop := 1,
            count_3hop := 1, busy := SLOT_2HOP\<rparr>
        else t
      else if sti t = sti r then
        if busy r = SLOT_1HOP then
          if sti r = sender then
            (let t' = t\<lparr>life_time := slot_lifetime_frame_s2 cfg\<rparr> in
             if \<not> c3hop_flag t' then
               t'\<lparr>count_2hop := count_2hop t' + 1, count_3hop := count_3hop t' + count_2hop r,
                 c3hop_flag := True\<rparr>
             else t')
          else t\<lparr>existed := True\<rparr>
        else t
      else if sender = sti t then
        t\<lparr>life_time := 0, sti := 0, count_2hop := 0, count_3hop := 0, busy := SLOT_FREE,
          locker := True\<rparr>
      else t)"

text \<open>Second loop, slot of a two-hop neighbour.\<close>

definition merge_2hop :: "tdma_cfg \<Rightarrow> u32 \<Rightarrow> slot_tag \<Rightarrow> slot_tag \<Rightarrow> slot_tag" where
  "merge_2hop cfg sender r t =
     (if sti t \<noteq> sti r \<and> sti r \<noteq> 0 then
        if busy r = SLOT_1HOP then
          t\<lparr>count_2hop := count_2hop t + 1, count_3hop := count_3hop t + count_2hop r\<rparr>
        else if busy r = SLOT_2HOP \<or> busy r = SLOT_FREE then t
        else if busy r = SLOT_COLLISION then
          t\<lparr>life_time := slot_lifetime_frame_s2 cfg, sti := sti r, count_2hop := 1,
            count_3hop := 1, busy := SLOT_2HOP\<rparr>
        else t
      else if sti t = sti r then
        if busy r = SLOT_1HOP then
          (let t1 = (if sti r = sender then t\<lparr>busy := SLOT_1HOP\<rparr> else t);
               t2 = t1\<lparr>life_time := slot_lifetime_frame_s2 cfg\<rparr>
           in if \<not> c3hop_flag t2 then
                t2\<lparr>c3hop_flag := True, count_2hop := count_2hop t2 + 1,
                  count_3hop := count_3hop t2 + count_2hop r\<rparr>
              else t2)
        else t
      else if sender = sti t then
        t\<lparr>life_time := 0, sti := 0, count_2hop := 0, count_3hop := 0, busy := SLOT_FREE,
          locker := True\<rparr>
      else t)"

text \<open>Second loop, free slot.\<close>

definition merge_free :: "tdma_cfg \<Rightarrow> u32 \<Rightarrow> slot_tag \<Rightarrow> slot_tag \<Rightarrow> slot_tag" where
  "merge_free cfg sender r t =
     (if sti t \<noteq> sti r then
        if busy r = SLOT_1HOP then
          t\<lparr>life_time := slot_lifetime_frame_s2 cfg, sti := sti r, count_2hop := 1,
            count_3hop := count_2hop r, c3hop_flag := True,
            busy := (if sti r = sender then SLOT_1HOP else SLOT_2HOP)\<rparr>
        else if busy r = SLOT_2HOP then t\<lparr>count_3hop := count_3hop t + count_2hop r\<rparr>
        else if busy r = SLOT_FREE then t
        else if busy r = SLOT_COLLISION then
          t\<lparr>life_time := slot_lifetime_frame_s2 cfg, sti := sti r, count_2hop := 1,
            count_3hop := 1, busy := SLOT_2HOP\<rparr>
        else t
      else t)"

definition merge_other_tag :: "tdma_cfg \<Rightarrow> u32 \<Rightarrow> slot_tag \<Rightarrow> slot_tag \<Rightarrow> slot_tag" where
  "merge_other_tag cfg sender r t =
     (if busy t = SLOT_1HOP then merge_1hop cfg sender r t
      else if busy t = SLOT_2HOP then merge_2hop cfg sender r t
      else if busy t = SLOT_FREE \<and> sti t = 0 then merge_free cfg sender r t
      else t)"

text \<open>
  The body of the second loop. The statement after the cascade restores the frame length when a
  slot beyond it turns out to be occupied; a \<open>continue\<close> skips it.
\<close>

definition merge_others_step ::
    "tdma_cfg \<Rightarrow> frame_info \<Rightarrow> int \<Rightarrow> 'a tdma_scheme \<Rightarrow> 'a tdma_scheme option" where
  "merge_others_step cfg fi count s = do {
     t \<leftarrow> tag_at s count;
     if locker t then Some s
     else do {
       r \<leftarrow> array_get (slot_describe fi) count;
       if sti t = global_sti s \<or> sti r = global_sti s then Some s
       else do {
         s' \<leftarrow> mod_tag count (merge_other_tag cfg (fi_sti fi) r) s;
         t' \<leftarrow> tag_at s' count;
         Some (if max_slot_num s' \<le> count \<and> sti t' \<noteq> 0
               then s'\<lparr>max_slot_num := frame_len fi\<rparr> else s')
       }
     }
   }"

text \<open>
  Both loops stop at \<open>count == recv_fi_frame_len\<close>. The first reads \<open>fi_append[count]\<close> before that
  test; the value read there is not used. The bound of the second is at least
  \<open>recv_fi_frame_len\<close> throughout, so it always ends by that test; the length is never negative,
  as the constructor of \<open>Frame_info\<close> asserts.
\<close>

definition merge_own_bound :: "frame_info \<Rightarrow> 'a tdma_scheme \<Rightarrow> int" where
  "merge_own_bound fi s =
     (if 0 \<le> frame_len fi \<and> frame_len fi < max_slot_num s
      then frame_len fi else max_slot_num s)"

definition merge_fi ::
    "tdma_cfg \<Rightarrow> frame_info \<Rightarrow> 'a tdma_scheme \<Rightarrow> 'a tdma_scheme option" where
  "merge_fi cfg fi s = do {
     s1 \<leftarrow> for_range 0 (merge_own_bound fi s) (merge_own_step cfg fi) s;
     for_range 0 (frame_len fi) (merge_others_step cfg fi) s1
   }"

text \<open>
  The ageing loop of \<open>synthesize_fi_list\<close>: \<open>own\<close> says that the slot is \<open>slot_num_\<close> or
  \<open>slot_adj_candidate_\<close>.
\<close>

definition age_unlock :: "slot_tag \<Rightarrow> slot_tag" where
  "age_unlock t = (if locker t \<and> sti t \<noteq> 0 then t\<lparr>locker := False\<rparr> else t)"

definition age_expire :: "tdma_cfg \<Rightarrow> slot_tag \<Rightarrow> slot_tag" where
  "age_expire cfg t =
     (if busy t = SLOT_2HOP then
        t\<lparr>busy := SLOT_FREE, sti := 0, count_2hop := 0, count_3hop := 0, psf := 0,
          c3hop_flag := False, life_time := 0, locker := False\<rparr>
      else if busy t = SLOT_1HOP \<and> existed t then
        t\<lparr>busy := SLOT_2HOP, life_time := slot_lifetime_frame_s2 cfg - 1, locker := False\<rparr>
      else
        t\<lparr>busy := SLOT_FREE, sti := 0, count_2hop := 0, count_3hop := 0, psf := 0,
          c3hop_flag := False, life_time := 0, locker := True\<rparr>)"

definition age_tag :: "tdma_cfg \<Rightarrow> u32 \<Rightarrow> bool \<Rightarrow> slot_tag \<Rightarrow> slot_tag" where
  "age_tag cfg me own t0 =
     (let t = age_unlock t0 in
      if sti t = me \<and> own \<or> sti t = 0 then t
      else
        let t1 = (if 0 < life_time t then t\<lparr>life_time := life_time t - 1\<rparr> else t);
            t2 = (if life_time t1 = 0 then age_expire cfg t1
                  else if busy t1 \<noteq> SLOT_COLLISION \<and>
                      life_time t1 = slot_lifetime_frame_s2 cfg - slot_lifetime_frame_s1 cfg
                  then t1\<lparr>busy := SLOT_FREE\<rparr> else t1)
        in t2\<lparr>existed := False\<rparr>)"

definition own_slot :: "'a tdma_scheme \<Rightarrow> int \<Rightarrow> bool" where
  "own_slot s count \<longleftrightarrow> count = slot_num s \<or> count = slot_adj_candidate s"

text \<open>One iteration also sets \<open>unlock_flag\<close> when a locked slot has no owner.\<close>

definition age_step ::
    "tdma_cfg \<Rightarrow> 'a tdma_scheme \<Rightarrow> int \<Rightarrow> slot_tag list \<times> bool \<Rightarrow> (slot_tag list \<times> bool) option" where
  "age_step cfg s count st = (case st of (ts, unlock_flag) \<Rightarrow> do {
     t \<leftarrow> array_get ts count;
     ts' \<leftarrow> array_mod ts count (age_tag cfg (global_sti s) (own_slot s count));
     Some (ts', if \<not> (locker t \<and> sti t \<noteq> 0) \<and> locker t then True else unlock_flag)
   })"

fun merge_all :: "tdma_cfg \<Rightarrow> frame_info list \<Rightarrow> 'a tdma_scheme \<Rightarrow> 'a tdma_scheme option" where
  "merge_all cfg [] s = Some s"
| "merge_all cfg (fi # fis) s =
     (case merge_fi cfg fi s of None \<Rightarrow> None | Some s' \<Rightarrow> merge_all cfg fis s')"

definition unlock_tag :: "slot_tag \<Rightarrow> slot_tag" where
  "unlock_tag t = (if locker t \<and> sti t = 0 then t\<lparr>locker := False\<rparr> else t)"

definition synthesize_fi_list :: "tdma_cfg \<Rightarrow> 'a tdma_scheme \<Rightarrow> 'a tdma_scheme option" where
  "synthesize_fi_list cfg s = do {
     (ts, unlock_flag) \<leftarrow>
       (if node_state s \<noteq> NODE_LISTEN \<and> slot_memory cfg
        then for_range 0 (max_slot_num s) (age_step cfg s) (tags s, False)
        else Some (tags s, False));
     s1 \<leftarrow> merge_all cfg (received_fi_list s) (set_tags ts s);
     if unlock_flag then
       map_option (\<lambda>ts. set_tags ts s1)
         (for_range 0 (max_slot_num s1) (\<lambda>count ts. array_mod ts count unlock_tag) (tags s1))
     else Some s1
   }"

section \<open>What one merge does to each slot\<close>

lemmas merge_tag_defs = merge_own_other_def merge_own_same_def merge_1hop_def merge_2hop_def
  merge_free_def merge_other_tag_def Let_def

text \<open>Received frame information as \<open>recvFI\<close> builds it.\<close>

definition frame_ok :: "frame_info \<Rightarrow> bool" where
  "frame_ok fi \<longleftrightarrow> int (length (slot_describe fi)) = frame_len fi \<and> 0 < frame_len fi \<and>
     frame_len fi \<le> max_frame_len"

text \<open>The first loop on one slot; \<open>new\<close> is the answer of \<open>isNewNeighbor\<close>.\<close>

definition merge_own_tag ::
    "tdma_cfg \<Rightarrow> u32 \<Rightarrow> u32 \<Rightarrow> bool \<Rightarrow> slot_tag \<Rightarrow> slot_tag \<Rightarrow> slot_tag" where
  "merge_own_tag cfg me sender new r t =
     (if sti t = me then
        if sti t \<noteq> sti r \<and> sti r \<noteq> 0 then merge_own_other cfg sender r t
        else if sti t = sti r then merge_own_same r t
        else if busy r = SLOT_FREE \<and> \<not> new then t\<lparr>busy := SLOT_COLLISION\<rparr>
        else t
      else t)"

text \<open>The second loop on one slot.\<close>

definition merge_skips :: "u32 \<Rightarrow> slot_tag \<Rightarrow> slot_tag \<Rightarrow> bool" where
  "merge_skips me r t \<longleftrightarrow> locker t \<or> sti t = me \<or> sti r = me"

definition merge_others_tag :: "tdma_cfg \<Rightarrow> u32 \<Rightarrow> u32 \<Rightarrow> slot_tag \<Rightarrow> slot_tag \<Rightarrow> slot_tag" where
  "merge_others_tag cfg me sender r t =
     (if merge_skips me r t then t else merge_other_tag cfg sender r t)"

definition knows_neighbor :: "u32 \<Rightarrow> 'a tdma_scheme \<Rightarrow> bool" where
  "knows_neighbor sid s \<longleftrightarrow> (\<exists>j. int j < max_slot_num s \<and> sti (tags s ! j) = sid)"

lemma isNewNeighbor_in:
  "max_slot_num s \<le> int (length (tags s)) \<Longrightarrow> isNewNeighbor sid s = Some (\<not> knows_neighbor sid s)"
  by (simp add: isNewNeighbor_def array_any_range knows_neighbor_def)

lemma mod_tag_in:
  "0 \<le> i \<Longrightarrow> i < int (length (tags s)) \<Longrightarrow>
     mod_tag i f s = Some (set_tags ((tags s)[nat i := f (tags s ! nat i)]) s)"
  by (simp add: mod_tag_def array_mod_in)

lemma tag_at_in: "0 \<le> i \<Longrightarrow> i < int (length (tags s)) \<Longrightarrow> tag_at s i = Some (tags s ! nat i)"
  by (simp add: tag_at_def array_get_in)

lemma merge_own_step_in:
  assumes "0 \<le> count" and "count < int (length (slot_describe fi))"
    and "count < int (length (tags s))" and "max_slot_num s \<le> int (length (tags s))"
  shows "merge_own_step cfg fi count s =
    Some (set_tags ((tags s)[nat count := merge_own_tag cfg (global_sti s) (fi_sti fi)
      (\<not> knows_neighbor (fi_sti fi) s) (slot_describe fi ! nat count) (tags s ! nat count)]) s)"
  using assms
  by (simp add: merge_own_step_def array_get_in tag_at_in isNewNeighbor_in mod_tag_in
      merge_own_tag_def)

lemma merge_own_tag_not_mine: "sti t \<noteq> me \<Longrightarrow> merge_own_tag cfg me sender new r t = t"
  by (simp add: merge_own_tag_def)

text \<open>\<open>t'\<close> is what the first loop can make of slot \<open>i\<close>. A sender that is in the table stays in it.\<close>

definition own_merged ::
    "tdma_cfg \<Rightarrow> frame_info \<Rightarrow> 'a tdma_scheme \<Rightarrow> nat \<Rightarrow> slot_tag \<Rightarrow> bool" where
  "own_merged cfg fi s i t' \<longleftrightarrow>
     (\<exists>new. (new \<longrightarrow> fi_sti fi = global_sti s \<or> \<not> knows_neighbor (fi_sti fi) s) \<and>
        t' = merge_own_tag cfg (global_sti s) (fi_sti fi) new (slot_describe fi ! i) (tags s ! i))"

lemma own_merged_not_mine: "own_merged cfg fi s i t' \<Longrightarrow> sti (tags s ! i) \<noteq> global_sti s \<Longrightarrow> t' = tags s ! i"
  by (auto simp: own_merged_def merge_own_tag_not_mine)

lemma knows_neighbor_kept:
  assumes "knows_neighbor sid s" and "sid \<noteq> global_sti s"
    and "\<And>i. int i < max_slot_num s \<Longrightarrow> sti (tags s ! i) \<noteq> global_sti s \<Longrightarrow> ts ! i = tags s ! i"
  shows "knows_neighbor sid (set_tags ts s)"
proof -
  from assms(1) obtain k where k: "int k < max_slot_num s" "sti (tags s ! k) = sid"
    by (auto simp: knows_neighbor_def)
  with assms(2) assms(3) [of k] show ?thesis
    by (auto simp: knows_neighbor_def intro!: exI [of _ k])
qed

lemma merge_own_loop:
  assumes "max_slot_num s \<le> int (length (tags s))" and "0 \<le> hi" and "hi \<le> max_slot_num s"
    and "hi \<le> int (length (slot_describe fi))"
  shows "\<exists>ts. for_range 0 hi (merge_own_step cfg fi) s = Some (set_tags ts s) \<and>
    length ts = length (tags s) \<and>
    (\<forall>i < length ts. (int i < hi \<longrightarrow> own_merged cfg fi s i (ts ! i)) \<and>
       (hi \<le> int i \<longrightarrow> ts ! i = tags s ! i))"
proof -
  let ?P = "\<lambda>j ts. length ts = length (tags s) \<and>
    (\<forall>i < length ts. (int i < j \<longrightarrow> own_merged cfg fi s i (ts ! i)) \<and>
       (j \<le> int i \<longrightarrow> ts ! i = tags s ! i))"
  let ?I = "\<lambda>j t. \<exists>ts. t = set_tags ts s \<and> ?P j ts"
  have "\<exists>s'. for_range 0 hi (merge_own_step cfg fi) s = Some s' \<and> ?I hi s'"
  proof (rule for_range_rule [where I = ?I])
    show "?I 0 s" by (intro exI [of _ "tags s"]) simp
    show "0 \<le> hi" by fact
  next
    fix j t
    assume j: "0 \<le> j" "j < hi" and "?I j t"
    then obtain ts where t: "t = set_tags ts s" and P: "?P j ts" by blast
    let ?new = "\<not> knows_neighbor (fi_sti fi) t"
    let ?x = "merge_own_tag cfg (global_sti s) (fi_sti fi) ?new (slot_describe fi ! nat j)
      (tags s ! nat j)"
    have jl: "nat j < length ts" using j assms P by simp
    then have tsj: "ts ! nat j = tags s ! nat j" using P j by simp
    have "merge_own_step cfg fi j t = Some (set_tags (ts[nat j := ?x]) s)"
      using merge_own_step_in [of j fi t cfg] j assms P by (simp add: t tsj)
    moreover have "own_merged cfg fi s (nat j) ?x"
    proof -
      have "fi_sti fi = global_sti s \<or> \<not> knows_neighbor (fi_sti fi) s" if ?new
      proof (rule ccontr)
        assume nt: "\<not> ?thesis"
        have "ts ! i = tags s ! i" if "int i < max_slot_num s" "sti (tags s ! i) \<noteq> global_sti s" for i
          using P assms(1) that own_merged_not_mine [of cfg fi s i "ts ! i"]
          by (cases "int i < j") auto
        with nt have "knows_neighbor (fi_sti fi) t"
          unfolding t by (intro knows_neighbor_kept) auto
        with that show False by blast
      qed
      then show ?thesis unfolding own_merged_def by (intro exI [of _ ?new] conjI impI refl)
    qed
    then have "?P (j + 1) (ts[nat j := ?x])"
      using P j jl by (auto simp: nth_list_update)
    ultimately show "\<exists>t'. merge_own_step cfg fi j t = Some t' \<and> ?I (j + 1) t'"
      by blast
  qed
  then show ?thesis by blast
qed

text \<open>The second loop.\<close>

definition others_merged :: "tdma_cfg \<Rightarrow> frame_info \<Rightarrow> 'a tdma_scheme \<Rightarrow> int \<Rightarrow> slot_tag \<Rightarrow> slot_tag" where
  "others_merged cfg fi s i t =
     merge_others_tag cfg (global_sti s) (fi_sti fi) (slot_describe fi ! nat i) t"

text \<open>Slot \<open>i\<close> lies beyond the frame and the second loop found it occupied.\<close>

definition extends_frame :: "tdma_cfg \<Rightarrow> frame_info \<Rightarrow> 'a tdma_scheme \<Rightarrow> nat \<Rightarrow> bool" where
  "extends_frame cfg fi s i \<longleftrightarrow>
     max_slot_num s \<le> int i \<and> \<not> merge_skips (global_sti s) (slot_describe fi ! i) (tags s ! i) \<and>
     sti (others_merged cfg fi s (int i) (tags s ! i)) \<noteq> 0"

lemma merge_others_step_in:
  assumes "0 \<le> count" and "count < int (length (slot_describe fi))"
    and "count < int (length (tags s))"
  shows "merge_others_step cfg fi count s =
    Some ((set_tags ((tags s)[nat count := others_merged cfg fi s count (tags s ! nat count)]) s)
      \<lparr>max_slot_num := (if extends_frame cfg fi s (nat count) then frame_len fi else max_slot_num s)\<rparr>)"
proof -
  have id: "set_tags (tags s) s\<lparr>max_slot_num := max_slot_num s\<rparr> = s" by simp
  have id': "set_tags ts s\<lparr>max_slot_num := max_slot_num s\<rparr> = set_tags ts s" for ts
    by (simp add: set_tags_def)
  show ?thesis
    using assms
    by (simp add: merge_others_step_def array_get_in tag_at_in mod_tag_in others_merged_def
        extends_frame_def merge_others_tag_def merge_skips_def id id')
qed

lemma set_tags_max_slot_num:
  "set_tags ts (s\<lparr>max_slot_num := m\<rparr>) = (set_tags ts s)\<lparr>max_slot_num := m\<rparr>"
  by (simp add: set_tags_def)

lemma merge_others_loop:
  assumes "frame_len fi \<le> int (length (tags s))" and "0 \<le> frame_len fi"
    and "frame_len fi \<le> int (length (slot_describe fi))"
  shows "for_range 0 (frame_len fi) (merge_others_step cfg fi) s =
    Some ((set_tags (map_range (frame_len fi) (others_merged cfg fi s) (tags s)) s)
      \<lparr>max_slot_num := (if \<exists>i. int i < frame_len fi \<and> extends_frame cfg fi s i
                       then frame_len fi else max_slot_num s)\<rparr>)"
proof -
  let ?m = "\<lambda>j. if \<exists>i. int i < j \<and> extends_frame cfg fi s i then frame_len fi else max_slot_num s"
  let ?ts = "\<lambda>j. map_range j (others_merged cfg fi s) (tags s)"
  let ?I = "\<lambda>j t. t = (set_tags (?ts j) s)\<lparr>max_slot_num := ?m j\<rparr>"
  have "\<exists>s'. for_range 0 (frame_len fi) (merge_others_step cfg fi) s = Some s' \<and> ?I (frame_len fi) s'"
  proof (rule for_range_rule [where I = ?I])
    have "?ts 0 = tags s" by (intro nth_equalityI) auto
    then show "?I 0 s" by simp
    show "0 \<le> frame_len fi" by fact
  next
    fix j t
    assume j: "0 \<le> j" "j < frame_len fi" and t: "?I j t"
    have jl: "nat j < length (tags s)" using j assms by simp
    have tj: "tags t ! nat j = tags s ! nat j" using t jl j by simp
    have len: "length (tags t) = length (tags s)" using t by simp
    have om: "others_merged cfg fi t = others_merged cfg fi s"
      using t by (simp add: others_merged_def fun_eq_iff)
    have m: "(if extends_frame cfg fi t (nat j) then frame_len fi else max_slot_num t) = ?m (j + 1)"
    proof (cases "\<exists>i. int i < j \<and> extends_frame cfg fi s i")
      case True
      then have "max_slot_num t = frame_len fi" using t unfolding if_P [OF True] by simp
      moreover have "\<exists>i. int i < j + 1 \<and> extends_frame cfg fi s i" using True by force
      ultimately show ?thesis by simp
    next
      case False
      then have "max_slot_num t = max_slot_num s" "global_sti t = global_sti s"
        using t unfolding if_not_P [OF False] by simp_all
      moreover from this have "extends_frame cfg fi t (nat j) = extends_frame cfg fi s (nat j)"
        by (simp add: extends_frame_def tj om)
      moreover have "(\<exists>i. int i < j + 1 \<and> extends_frame cfg fi s i) = extends_frame cfg fi s (nat j)"
      proof
        assume "\<exists>i. int i < j + 1 \<and> extends_frame cfg fi s i"
        then obtain i where i: "int i < j + 1" "extends_frame cfg fi s i" by blast
        with False have "i = nat j" by (metis less_add_one nat_int zle_add1_eq_le order_le_less)
        with i show "extends_frame cfg fi s (nat j)" by simp
      qed (use j in \<open>auto intro!: exI [of _ "nat j"]\<close>)
      ultimately show ?thesis by simp
    qed
    have up: "(?ts j)[nat j := others_merged cfg fi s j (tags s ! nat j)] = ?ts (j + 1)"
      using j jl by (intro nth_equalityI) (auto simp: nth_list_update)
    have "merge_others_step cfg fi j t = Some ((set_tags (?ts (j + 1)) t)\<lparr>max_slot_num := ?m (j + 1)\<rparr>)"
      using merge_others_step_in [of j fi t cfg] j assms len
      unfolding m tj om by (simp add: t up)
    also have "(set_tags (?ts (j + 1)) t)\<lparr>max_slot_num := ?m (j + 1)\<rparr> =
        (set_tags (?ts (j + 1)) s)\<lparr>max_slot_num := ?m (j + 1)\<rparr>"
      by (simp add: t set_tags_max_slot_num)
    finally have "merge_others_step cfg fi j t =
        Some ((set_tags (?ts (j + 1)) s)\<lparr>max_slot_num := ?m (j + 1)\<rparr>)" .
    then show "\<exists>t'. merge_others_step cfg fi j t = Some t' \<and> ?I (j + 1) t'" by blast
  qed
  then show ?thesis by blast
qed

text \<open>The frame length after the merge.\<close>

definition merged_len :: "tdma_cfg \<Rightarrow> frame_info \<Rightarrow> 'a tdma_scheme \<Rightarrow> int" where
  "merged_len cfg fi s =
     (if \<exists>i. int i < frame_len fi \<and> extends_frame cfg fi s i then frame_len fi
      else max_slot_num s)"

text \<open>Both loops together on slot \<open>i\<close>.\<close>

definition merged_slot :: "tdma_cfg \<Rightarrow> frame_info \<Rightarrow> 'a tdma_scheme \<Rightarrow> nat \<Rightarrow> slot_tag \<Rightarrow> bool" where
  "merged_slot cfg fi s i t' \<longleftrightarrow>
     (\<exists>t. (if int i < merge_own_bound fi s then own_merged cfg fi s i t else t = tags s ! i) \<and>
        t' = (if int i < frame_len fi then others_merged cfg fi s (int i) t else t))"

text \<open>
  \<open>merge_fi\<close> never leaves its arrays and changes nothing but the slots and the frame length.
\<close>

lemma merge_fi_spec:
  assumes s: "max_frame_len \<le> int (length (tags s))" "0 < max_slot_num s"
      "max_slot_num s \<le> max_frame_len"
    and fi: "frame_ok fi"
  shows "\<exists>ts. merge_fi cfg fi s = Some ((set_tags ts s)\<lparr>max_slot_num := merged_len cfg fi s\<rparr>) \<and>
      length ts = length (tags s) \<and> (\<forall>i < length ts. merged_slot cfg fi s i (ts ! i))"
proof -
  let ?hi = "merge_own_bound fi s"
  have f: "int (length (slot_describe fi)) = frame_len fi" "0 < frame_len fi"
    "frame_len fi \<le> max_frame_len" using fi by (auto simp: frame_ok_def)
  have hi: "0 \<le> ?hi" "?hi \<le> max_slot_num s" "?hi \<le> int (length (slot_describe fi))"
    using s f by (auto simp: merge_own_bound_def)
  from merge_own_loop [OF _ hi, of cfg] s obtain ts where
    loop1: "for_range 0 ?hi (merge_own_step cfg fi) s = Some (set_tags ts s)"
      "length ts = length (tags s)"
      "\<And>i. i < length ts \<Longrightarrow> (int i < ?hi \<longrightarrow> own_merged cfg fi s i (ts ! i)) \<and>
         (?hi \<le> int i \<longrightarrow> ts ! i = tags s ! i)"
    by auto
  let ?s1 = "set_tags ts s"
  have om: "others_merged cfg fi ?s1 = others_merged cfg fi s"
    by (simp add: others_merged_def fun_eq_iff)
  have "extends_frame cfg fi ?s1 i = extends_frame cfg fi s i" if "int i < frame_len fi" for i
  proof (cases "max_slot_num s \<le> int i")
    case True
    then have "ts ! i = tags s ! i" using loop1(2) loop1(3) [of i] hi s f that by auto
    then show ?thesis by (simp add: extends_frame_def om)
  next
    case False
    then show ?thesis by (simp add: extends_frame_def)
  qed
  then have len: "merged_len cfg fi ?s1 = merged_len cfg fi s"
    unfolding merged_len_def set_tags_fields by (intro if_cong refl) blast
  let ?ts = "map_range (frame_len fi) (others_merged cfg fi s) ts"
  have "merge_fi cfg fi s = Some ((set_tags ?ts s)\<lparr>max_slot_num := merged_len cfg fi s\<rparr>)"
    using merge_others_loop [of fi ?s1 cfg, folded merged_len_def] f s loop1(1,2)
    by (simp add: merge_fi_def len om)
  moreover have "merged_slot cfg fi s i (?ts ! i)" if "i < length ts" for i
    using that loop1(3) [OF that] unfolding merged_slot_def
    by (intro exI [of _ "ts ! i"]) auto
  ultimately show ?thesis using loop1(2) by (intro exI [of _ ?ts]) simp
qed

lemmas merge_slot_defs = merged_slot_def own_merged_def merge_own_tag_def others_merged_def
  merge_others_tag_def merge_skips_def merge_tag_defs

text \<open>The owner of a merged slot: unchanged, the reported one, or nobody.\<close>

lemma merge_own_tag_sti:
  "sti (merge_own_tag cfg me sender nw r t) = sti t \<or>
   sti t = me \<and> sti (merge_own_tag cfg me sender nw r t) = sti r \<and> sti r \<noteq> me"
  by (auto simp: merge_own_tag_def merge_own_other_def merge_own_same_def)

lemma merge_others_tag_sti:
  "sti (merge_others_tag cfg me sender r t) = sti t \<or>
   sti (merge_others_tag cfg me sender r t) = sti r \<and> sti r \<noteq> me \<or>
   sti (merge_others_tag cfg me sender r t) = 0"
  by (auto simp: merge_others_tag_def merge_skips_def merge_tag_defs)

lemma merged_slot_never_claims:
  assumes "merged_slot cfg fi s i t'" and "sti t' = global_sti s" and "global_sti s \<noteq> 0"
  shows "sti (tags s ! i) = global_sti s"
proof -
  from assms(1) obtain t where
    t: "if int i < merge_own_bound fi s then own_merged cfg fi s i t else t = tags s ! i"
      "t' = (if int i < frame_len fi then others_merged cfg fi s (int i) t else t)"
    by (auto simp: merged_slot_def)
  have "sti t = global_sti s"
    using t(2) assms(2,3)
      merge_others_tag_sti [of cfg "global_sti s" "fi_sti fi" "slot_describe fi ! i" t]
    by (auto simp: others_merged_def split: if_splits)
  with t(1) show ?thesis
    using own_merged_not_mine [of cfg fi s i t] by (auto split: if_splits)
qed

section \<open>Frames and tables\<close>

lemma table_ok_sizes:
  "table_ok s \<Longrightarrow> max_frame_len \<le> int (length (tags s))" "table_ok s \<Longrightarrow> 0 < max_slot_num s"
  "table_ok s \<Longrightarrow> max_slot_num s \<le> max_frame_len"
  by (simp_all add: table_ok_def)

lemma merged_len_bounds:
  assumes "frame_ok fi" and "max_slot_num s \<le> max_frame_len"
  shows "max_slot_num s \<le> merged_len cfg fi s" "merged_len cfg fi s \<le> max_frame_len"
    "merged_len cfg fi s = max_slot_num s \<or> merged_len cfg fi s = frame_len fi"
  using assms by (auto simp: merged_len_def extends_frame_def frame_ok_def)

lemma tag_ok_simps [simp]:
  "tag_ok (t\<lparr>count_2hop := a\<rparr>) = tag_ok t" "tag_ok (t\<lparr>count_3hop := a\<rparr>) = tag_ok t"
  "tag_ok (t\<lparr>life_time := a\<rparr>) = tag_ok t" "tag_ok (t\<lparr>existed := b\<rparr>) = tag_ok t"
  "tag_ok (t\<lparr>sti := c\<rparr>) = tag_ok t" "tag_ok (t\<lparr>psf := d\<rparr>) = tag_ok t"
  "tag_ok (t\<lparr>c3hop_flag := b\<rparr>) = tag_ok t" "tag_ok (t\<lparr>locker := b\<rparr>) = tag_ok t"
  "tag_ok (t\<lparr>busy := e\<rparr>) \<longleftrightarrow> e \<le> 3"
  by (simp_all add: tag_ok_def)

lemma merge_own_tag_ok: "tag_ok t \<Longrightarrow> tag_ok (merge_own_tag cfg me sender new r t)"
  by (simp add: merge_own_tag_def merge_own_other_def merge_own_same_def)

lemma merge_other_tag_ok: "tag_ok t \<Longrightarrow> tag_ok (merge_other_tag cfg sender r t)"
  by (simp add: merge_tag_defs)

lemma merged_slot_ok:
  assumes "merged_slot cfg fi s i t'" and "tag_ok (tags s ! i)"
  shows "tag_ok t'"
  using assms
  by (auto simp: merged_slot_def own_merged_def others_merged_def merge_others_tag_def
      intro!: merge_own_tag_ok merge_other_tag_ok split: if_splits)

text \<open>What \<open>merge_fi\<close> does to slot \<open>i\<close>, for use in the properties.\<close>

lemma merge_fi_slot:
  assumes "table_ok s" and "frame_ok fi" and "int i < max_frame_len"
  shows "\<exists>s'. merge_fi cfg fi s = Some s' \<and> merged_slot cfg fi s i (tags s' ! i)"
proof -
  from merge_fi_spec [OF table_ok_sizes [OF assms(1)] assms(2)] obtain ts where
    "merge_fi cfg fi s = Some ((set_tags ts s)\<lparr>max_slot_num := merged_len cfg fi s\<rparr>)"
    "length ts = length (tags s)" "\<forall>i < length ts. merged_slot cfg fi s i (ts ! i)" by blast
  then show ?thesis using assms(1,3) by (auto simp: table_ok_def)
qed

lemma merged_slot_not_mine:
  assumes "merged_slot cfg fi s i t'" and "sti (tags s ! i) \<noteq> global_sti s"
  shows "t' = (if int i < frame_len fi then others_merged cfg fi s (int i) (tags s ! i) else tags s ! i)"
  using assms own_merged_not_mine [of cfg fi s i] by (auto simp: merged_slot_def split: if_splits)

lemma merged_slot_mine:
  assumes "merged_slot cfg fi s i t'" and "sti (tags s ! i) = global_sti s"
    and "int i < max_slot_num s" and "int i < frame_len fi"
  shows "\<exists>t. own_merged cfg fi s i t \<and> t' = others_merged cfg fi s (int i) t"
  using assms by (auto simp: merged_slot_def merge_own_bound_def split: if_splits)

lemma others_merged_mine: "sti t = global_sti s \<Longrightarrow> others_merged cfg fi s i t = t"
  by (simp add: others_merged_def merge_others_tag_def merge_skips_def)

lemma mod_tag_length: "mod_tag i f s = Some s' \<Longrightarrow> length (tags s') = length (tags s)"
  by (auto simp: mod_tag_def array_simps)

lemma merge_own_step_length:
  "merge_own_step cfg fi j s = Some s' \<Longrightarrow> length (tags s') = length (tags s)"
  by (auto simp: merge_own_step_def bind_eq_Some_conv mod_tag_length split: if_splits)

lemma merge_others_step_length:
  "merge_others_step cfg fi j s = Some s' \<Longrightarrow> length (tags s') = length (tags s)"
  by (auto simp: merge_others_step_def bind_eq_Some_conv mod_tag_length split: if_splits)

section \<open>Properties\<close>



text \<open>
  C24: no report of a neighbour can make a node believe that it owns a slot: after a merge every
  slot with the node's identifier had it before.
\<close>

theorem merge_fi_never_claims:
  assumes "table_ok s" and "frame_ok fi" and "global_sti s \<noteq> 0" and "int i < max_frame_len"
  shows "\<exists>s'. merge_fi cfg fi s = Some s' \<and>
    (sti (tags s' ! i) = global_sti s \<longrightarrow> sti (tags s ! i) = global_sti s)"
  using merge_fi_slot [OF assms(1,2,4)] merged_slot_never_claims assms(3) by blast

theorem merge_fi_never_claims_witness:
  "\<exists>s'. merge_fi example_cfg (example_fi 2 (replicate 32 (example_tag 1 SLOT_1HOP))) (example_node 1 []) =
       Some s' \<and>
     (sti (tags s' ! 3) = global_sti (example_node 1 []) \<longrightarrow>
      sti (tags (example_node 1 []) ! 3) = global_sti (example_node 1 []))"
  by (rule merge_fi_never_claims) (simp_all add: frame_ok_def)



text \<open>
  A neighbour that confirms the node in its slot leaves the slot as it is: whatever else the
  frame reports, there is no false collision.
\<close>

lemma merge_fi_keeps_confirmed:
  assumes "table_ok s" and "frame_ok fi" and "int i < max_slot_num s" and "int i < frame_len fi"
    and "sti (tags s ! i) = global_sti s" and "sti (slot_describe fi ! i) = global_sti s"
    and "busy (slot_describe fi ! i) \<noteq> SLOT_FREE"
  shows "\<exists>s'. merge_fi cfg fi s = Some s' \<and> tags s' ! i = tags s ! i"
proof -
  have "int i < max_frame_len" using assms(1,3) by (simp add: table_ok_def)
  from merge_fi_slot [OF assms(1,2) this] obtain s' where
    s': "merge_fi cfg fi s = Some s'" "merged_slot cfg fi s i (tags s' ! i)" by blast
  from merged_slot_mine [OF s'(2) assms(5,3,4)] obtain u where
    u: "own_merged cfg fi s i u" "tags s' ! i = others_merged cfg fi s (int i) u" by auto
  have "u = tags s ! i"
    using u(1) assms(5-7) by (auto simp: own_merged_def merge_own_tag_def merge_own_same_def)
  with s'(1) u(2) assms(5) show ?thesis by (simp add: others_merged_mine)
qed

lemma merge_fi_learns:
  assumes "table_ok s" and "frame_ok fi" and "int i < frame_len fi"
    and "t = tags s ! i" and "r = slot_describe fi ! i"
    and "busy t = SLOT_FREE" and "sti t = 0" and "\<not> locker t" and "global_sti s \<noteq> 0"
    and "busy r = SLOT_1HOP" and "sti r \<noteq> 0" and "sti r \<noteq> global_sti s"
  shows "\<exists>s'. merge_fi cfg fi s = Some s' \<and>
    tags s' ! i = t\<lparr>life_time := slot_lifetime_frame_s2 cfg, sti := sti r, count_2hop := 1,
      count_3hop := count_2hop r, c3hop_flag := True,
      busy := (if sti r = fi_sti fi then SLOT_1HOP else SLOT_2HOP)\<rparr>"
proof -
  have "int i < max_frame_len" using assms(2,3) by (simp add: frame_ok_def)
  from merge_fi_slot [OF assms(1,2) this] obtain s' where
    s': "merge_fi cfg fi s = Some s'" "merged_slot cfg fi s i (tags s' ! i)" by blast
  have "tags s' ! i = others_merged cfg fi s (int i) (tags s ! i)"
    using merged_slot_not_mine [OF s'(2)] assms(3,4,7,9) by simp
  also have "\<dots> = t\<lparr>life_time := slot_lifetime_frame_s2 cfg, sti := sti r, count_2hop := 1,
      count_3hop := count_2hop r, c3hop_flag := True,
      busy := (if sti r = fi_sti fi then SLOT_1HOP else SLOT_2HOP)\<rparr>"
    using assms(4-12) by (simp add: others_merged_def merge_others_tag_def merge_skips_def
        merge_other_tag_def merge_free_def)
  finally show ?thesis using s'(1) by blast
qed

text \<open>
  C25: a node learns its neighbourhood. A free, unlocked slot that a neighbour reports as directly
  used by some other node becomes a one-hop slot when that node is the neighbour itself, a two-hop
  slot otherwise, owned by the reported node, with a full life time and the reported count of
  three-hop users.
\<close>

theorem merge_fi_learns_slot:
  assumes "table_ok s" and "frame_ok fi" and "int i < frame_len fi"
    and "t = tags s ! i" and "r = slot_describe fi ! i"
    and "busy t = SLOT_FREE" and "sti t = 0" and "\<not> locker t" and "global_sti s \<noteq> 0"
    and "busy r = SLOT_1HOP" and "sti r \<noteq> 0" and "sti r \<noteq> global_sti s"
  shows "\<exists>s'. merge_fi cfg fi s = Some s' \<and>
    tags s' ! i = t\<lparr>life_time := slot_lifetime_frame_s2 cfg, sti := sti r, count_2hop := 1,
      count_3hop := count_2hop r, c3hop_flag := True,
      busy := (if sti r = fi_sti fi then SLOT_1HOP else SLOT_2HOP)\<rparr>"
  by (rule merge_fi_learns [OF assms])

theorem merge_fi_learns_slot_witness:
  "\<exists>s'. merge_fi example_cfg (example_fi 2 (replicate 64 (example_tag 2 SLOT_1HOP))) (example_node 1 []) =
       Some s' \<and>
     tags s' ! 40 = new_slot_tag\<lparr>life_time := slot_lifetime_frame_s2 example_cfg,
       sti := sti (example_tag 2 SLOT_1HOP), count_2hop := 1,
       count_3hop := count_2hop (example_tag 2 SLOT_1HOP), c3hop_flag := True,
       busy := (if sti (example_tag 2 SLOT_1HOP) =
                  fi_sti (example_fi 2 (replicate 64 (example_tag 2 SLOT_1HOP)))
                then SLOT_1HOP else SLOT_2HOP)\<rparr>"
  by (rule merge_fi_learns_slot) (simp_all add: frame_ok_def example_tags_nth)

text \<open>
  A neighbour that no longer uses its slot releases it: the slot becomes free and is locked, so
  that it is not reassigned from stale reports in the same frame.
\<close>

lemma merge_fi_releases_slot:
  assumes "table_ok s" and "frame_ok fi" and "int i < frame_len fi" and "t = tags s ! i"
    and "busy t = SLOT_1HOP \<or> busy t = SLOT_2HOP" and "sti t = fi_sti fi" and "\<not> locker t"
    and "fi_sti fi \<noteq> global_sti s" and "fi_sti fi \<noteq> 0" and "global_sti s \<noteq> 0"
    and "sti (slot_describe fi ! i) = 0"
  shows "\<exists>s'. merge_fi cfg fi s = Some s' \<and>
    tags s' ! i = t\<lparr>life_time := 0, sti := 0, count_2hop := 0, count_3hop := 0, busy := SLOT_FREE,
      locker := True\<rparr>"
proof -
  have "int i < max_frame_len" using assms(2,3) by (simp add: frame_ok_def)
  from merge_fi_slot [OF assms(1,2) this] obtain s' where
    s': "merge_fi cfg fi s = Some s'" "merged_slot cfg fi s i (tags s' ! i)" by blast
  have "tags s' ! i = others_merged cfg fi s (int i) (tags s ! i)"
    using merged_slot_not_mine [OF s'(2)] assms(3,4,6,8) by simp
  also have "\<dots> = t\<lparr>life_time := 0, sti := 0, count_2hop := 0, count_3hop := 0, busy := SLOT_FREE,
      locker := True\<rparr>"
    using assms(4-11) by (auto simp: others_merged_def merge_others_tag_def merge_skips_def
        merge_other_tag_def merge_1hop_def merge_2hop_def)
  finally show ?thesis using s'(1) by blast
qed

text \<open>
  C38: \<open>merge_fi\<close> relies on the receiver not accepting longer frames than the table has slots: for
  a longer frame its second loop leaves the array, in whatever state it is.
\<close>

theorem merge_fi_long_frame_overrun:
  fixes s :: "'a tdma_scheme"
  assumes "int (length (tags s)) < frame_len fi"
  shows "merge_fi cfg fi s = None"
proof (rule ccontr)
  assume "\<not> ?thesis"
  then obtain s1 s' where loops: "for_range 0 (merge_own_bound fi s) (merge_own_step cfg fi) s = Some s1"
    "for_range 0 (frame_len fi) (merge_others_step cfg fi) s1 = Some s'"
    by (auto simp: merge_fi_def bind_eq_Some_conv)
  have s1: "length (tags s1) = length (tags s)"
    using for_range_inv [OF loops(1), of "\<lambda>u. length (tags u) = length (tags s)"]
      merge_own_step_length by metis
  have "\<exists>t t'. length (tags t) = length (tags s) \<and>
      merge_others_step cfg fi (int (length (tags s))) (t :: 'a tdma_scheme) = Some t'"
    by (rule for_range_visits [OF loops(2), where P = "\<lambda>u. length (tags u) = length (tags s)"])
      (use s1 assms in \<open>auto simp: merge_others_step_length\<close>)
  then show False by (auto simp: merge_others_step_def tag_at_def array_get_def bind_eq_Some_conv)
qed

theorem merge_fi_long_frame_overrun_witness:
  "merge_fi example_cfg (example_fi 2 (replicate 512 new_slot_tag)) (example_node 1 []) = None"
  by (rule merge_fi_long_frame_overrun) (simp add: example_tags_def)

end
