(* ===== verification/Table_Invariants.thy ===== *)
theory Table_Invariants
  imports Merge_Fi Fi_Packet
begin

text \<open>
  Invariants of the slot table. The locale \<open>tag_invariant\<close> says what a condition on single slots
  must satisfy to hold of the whole table after every operation; it is interpreted for the four
  invariants of the model. The second part shows that \<open>synthesize_fi_list\<close> always returns and that
  slots which are no longer reported are forgotten.
\<close>

section \<open>Invariants of single slots\<close>

text \<open>One completed iteration of either merge loop rewrites at most slot \<open>i\<close>.\<close>

lemma merge_own_step_cases:
  assumes "merge_own_step cfg fi i s = Some s'"
  shows "\<exists>r t nw. array_get (slot_describe fi) i = Some r \<and> tag_at s i = Some t \<and>
    s' = set_tags ((tags s)[nat i := merge_own_tag cfg (global_sti s) (fi_sti fi) nw r t]) s"
proof -
  define nw where "nw \<longleftrightarrow> isNewNeighbor (fi_sti fi) s = Some True"
  from assms obtain r t where r: "array_get (slot_describe fi) i = Some r" "tag_at s i = Some t"
    by (auto simp: merge_own_step_def bind_eq_Some_conv)
  then have i: "0 \<le> i" "i < int (length (tags s))" "t = tags s ! nat i"
    by (auto simp: tag_at_def array_get_Some)
  have "s' = set_tags ((tags s)[nat i := merge_own_tag cfg (global_sti s) (fi_sti fi) nw r t]) s"
    using assms r i
    by (auto simp: merge_own_step_def merge_own_tag_def nw_def mod_tag_in bind_eq_Some_conv
        split: if_splits)
  with r show ?thesis by (intro exI [of _ r] exI [of _ t] exI [of _ nw] conjI)
qed

lemma merge_others_step_cases:
  assumes "merge_others_step cfg fi i s = Some s'"
  shows "s' = s \<or> (\<exists>r t m. array_get (slot_describe fi) i = Some r \<and> tag_at s i = Some t \<and>
    s' = (set_tags ((tags s)[nat i := merge_other_tag cfg (fi_sti fi) r t]) s)\<lparr>max_slot_num := m\<rparr>)"
proof -
  from assms obtain t where t: "tag_at s i = Some t"
    by (cases "tag_at s i") (simp_all add: merge_others_step_def)
  then have i: "0 \<le> i" "i < int (length (tags s))" "t = tags s ! nat i"
    by (auto simp: tag_at_def array_get_Some)
  show ?thesis
  proof (cases "locker t")
    case True
    with assms t show ?thesis by (simp add: merge_others_step_def)
  next
    case False
    with assms t obtain r where r: "array_get (slot_describe fi) i = Some r"
      by (cases "array_get (slot_describe fi) i") (simp_all add: merge_others_step_def)
    let ?u = "set_tags ((tags s)[nat i := merge_other_tag cfg (fi_sti fi) r t]) s"
    show ?thesis
    proof (cases "sti t = global_sti s \<or> sti r = global_sti s")
      case True
      with assms t r False show ?thesis by (simp add: merge_others_step_def)
    next
      case ne: False
      obtain m where "s' = ?u\<lparr>max_slot_num := m\<rparr>"
      proof (cases "max_slot_num s \<le> i \<and> sti (merge_other_tag cfg (fi_sti fi) r t) \<noteq> 0")
        case True
        with assms t r False ne i have "s' = ?u\<lparr>max_slot_num := frame_len fi\<rparr>"
          by (simp add: merge_others_step_def mod_tag_in tag_at_in)
        then show ?thesis by (rule that)
      next
        case False': False
        with assms t r False ne i have "s' = ?u\<lparr>max_slot_num := max_slot_num ?u\<rparr>"
          by (auto simp: merge_others_step_def mod_tag_in tag_at_in)
        then show ?thesis by (rule that)
      qed
      with t r show ?thesis by (intro disjI2 exI [of _ r] exI [of _ t] exI [of _ m] conjI)
    qed
  qed
qed

text \<open>
  \<open>P\<close> is the invariant of a node with identifier \<open>me\<close>, \<open>Q\<close> what it needs of received slots.
\<close>

locale tag_invariant =
  fixes cfg :: tdma_cfg and me :: u32 and P :: "slot_tag \<Rightarrow> bool" and Q :: "slot_tag \<Rightarrow> bool"
  assumes P_new: "P new_slot_tag"
    and P_own_merge: "Q r \<Longrightarrow> P t \<Longrightarrow> P (merge_own_tag cfg me sender nw r t)"
    and P_other_merge: "Q r \<Longrightarrow> P t \<Longrightarrow> P (merge_other_tag cfg sender r t)"
    and P_age: "P t \<Longrightarrow> P (age_tag cfg me own t)"
    and P_unlock: "P t \<Longrightarrow> P (unlock_tag t)"
    and P_clear: "P t \<Longrightarrow> P (clear_others_tag me t)"
    and P_own: "P t \<Longrightarrow> P (own_tag me t)"
    and P_free: "P t \<Longrightarrow> P ((free_tag t)\<lparr>locker := b\<rparr>)"
    and P_sent: "P t \<Longrightarrow> P (sent_tag me t)"
begin

definition all_tags :: "'a tdma_scheme \<Rightarrow> bool" where
  "all_tags s \<longleftrightarrow> global_sti s = me \<and> (\<forall>t \<in> set (tags s). P t)"

definition fi_tags :: "frame_info \<Rightarrow> bool" where
  "fi_tags fi \<longleftrightarrow> (\<forall>r \<in> set (slot_describe fi). Q r)"

lemma all_tags_mod:
  assumes "all_tags s" and "mod_tag i f s = Some s'" and "\<And>t. P t \<Longrightarrow> P (f t)"
  shows "all_tags s'"
proof -
  from assms(2) obtain ts where ts: "array_mod (tags s) i f = Some ts" "s' = set_tags ts s"
    by (auto simp: mod_tag_def)
  have all: "\<forall>t \<in> set (tags s). P t" using assms(1) by (simp add: all_tags_def)
  from array_mod_ball [OF ts(1) all] array_mod_elem [OF ts(1) all] assms(3)
  have "\<forall>t \<in> set ts. P t" by blast
  with assms(1) ts(2) show ?thesis by (simp add: all_tags_def)
qed

lemma all_tags_get: "all_tags s \<Longrightarrow> tag_at s i = Some t \<Longrightarrow> P t"
  by (auto simp: all_tags_def tag_at_def array_get_Some)

lemma fi_tags_get: "fi_tags fi \<Longrightarrow> array_get (slot_describe fi) i = Some r \<Longrightarrow> Q r"
  by (auto simp: fi_tags_def array_get_Some)

lemma all_tags_set_tags:
  "all_tags (set_tags ts s) \<longleftrightarrow> global_sti s = me \<and> (\<forall>t \<in> set ts. P t)"
  by (simp add: all_tags_def)

lemma all_tags_loop:
  assumes "for_range 0 hi (\<lambda>i ts. array_mod ts i (f i)) ts = Some ts'" and "\<forall>t \<in> set ts. P t"
    and "\<And>i t. P t \<Longrightarrow> P (f i t)"
  shows "\<forall>t \<in> set ts'. P t"
proof (rule for_range_inv [OF assms(1), where P = "\<lambda>ts. \<forall>t \<in> set ts. P t"])
  fix j us us' assume "\<forall>t \<in> set us. P t" "array_mod us j (f j) = Some us'"
  then show "\<forall>t \<in> set us'. P t"
    using assms(3) array_mod_ball [of us j "f j" us' P] array_mod_elem [of us j "f j" us' P] by blast
qed (use assms in auto)

lemma merge_own_step_mod:
  assumes "merge_own_step cfg fi i s = Some s'" and "all_tags s" and "fi_tags fi"
  shows "all_tags s'"
proof -
  from merge_own_step_cases [OF assms(1)] obtain r t nw where
    r: "array_get (slot_describe fi) i = Some r" "tag_at s i = Some t"
      "s' = set_tags ((tags s)[nat i := merge_own_tag cfg (global_sti s) (fi_sti fi) nw r t]) s"
    by blast
  have "global_sti s = me" "\<forall>t \<in> set (tags s). P t" using assms(2) by (simp_all add: all_tags_def)
  moreover have "P (merge_own_tag cfg me (fi_sti fi) nw r t)"
    using P_own_merge [OF fi_tags_get [OF assms(3) r(1)] all_tags_get [OF assms(2) r(2)]] .
  ultimately show ?thesis
    using r(3) ball_list_update [of "tags s" P _ "nat i"] by (simp add: all_tags_def)
qed

lemma merge_others_step_mod:
  assumes "merge_others_step cfg fi i s = Some s'" and "all_tags s" and "fi_tags fi"
  shows "all_tags s'"
  using merge_others_step_cases [OF assms(1)]
proof (elim disjE exE conjE)
  fix r t m
  assume r: "array_get (slot_describe fi) i = Some r" "tag_at s i = Some t"
    "s' = (set_tags ((tags s)[nat i := merge_other_tag cfg (fi_sti fi) r t]) s)\<lparr>max_slot_num := m\<rparr>"
  have "P (merge_other_tag cfg (fi_sti fi) r t)"
    using P_other_merge [OF fi_tags_get [OF assms(3) r(1)] all_tags_get [OF assms(2) r(2)]] .
  with assms(2) r(3) ball_list_update [of "tags s" P _ "nat i"] show ?thesis
    by (simp add: all_tags_def)
qed (use assms(2) in simp)

lemma merge_fi_inv:
  assumes "merge_fi cfg fi s = Some s'" and "all_tags s" and "fi_tags fi"
  shows "all_tags s'"
proof -
  from assms(1) obtain s1 where l: "for_range 0 (merge_own_bound fi s) (merge_own_step cfg fi) s = Some s1"
    "for_range 0 (frame_len fi) (merge_others_step cfg fi) s1 = Some s'"
    by (auto simp: merge_fi_def bind_eq_Some_conv)
  have "all_tags s1"
  proof (rule for_range_inv [OF l(1), where P = all_tags])
    fix j t t' assume "all_tags t" "merge_own_step cfg fi j t = Some t'"
    then show "all_tags t'" using merge_own_step_mod assms(3) by fast
  qed (rule assms(2))
  then show ?thesis
  proof (rule for_range_inv [OF l(2), where P = all_tags])
    fix j t t' assume "all_tags t" "merge_others_step cfg fi j t = Some t'"
    then show "all_tags t'" using merge_others_step_mod assms(3) by fast
  qed
qed

lemma merge_all_inv:
  "merge_all cfg fis s = Some s' \<Longrightarrow> all_tags s \<Longrightarrow> \<forall>fi \<in> set fis. fi_tags fi \<Longrightarrow> all_tags s'"
  by (induction fis arbitrary: s) (auto split: option.splits dest: merge_fi_inv)

lemma age_loop_inv:
  assumes "for_range 0 hi (age_step cfg s) (ts, f) = Some (ts', f')" and "\<forall>t \<in> set ts. P t"
    and "global_sti s = me"
  shows "\<forall>t \<in> set ts'. P t"
proof -
  have "\<forall>t \<in> set (fst (ts', f')). P t"
  proof (rule for_range_inv [OF assms(1), where P = "\<lambda>x. \<forall>t \<in> set (fst x). P t"])
    fix j x x'
    assume "\<forall>t \<in> set (fst x). P t" "age_step cfg s j x = Some x'"
    moreover from this(2) have
      "array_mod (fst x) j (age_tag cfg me (own_slot s j)) = Some (fst x')"
      using assms(3) by (cases x) (auto simp: age_step_def bind_eq_Some_conv)
    ultimately show "\<forall>t \<in> set (fst x'). P t"
      using P_age array_mod_ball [of "fst x" j _ "fst x'" P] array_mod_elem [of "fst x" j _ "fst x'" P]
      by fast
  qed (simp add: assms(2))
  then show ?thesis by simp
qed

lemma synthesize_inv:
  assumes "synthesize_fi_list cfg s = Some s'" and "all_tags s"
    and "\<forall>fi \<in> set (received_fi_list s). fi_tags fi"
  shows "all_tags s'"
proof -
  from assms(1) obtain ts f s1 where st: "(if node_state s \<noteq> NODE_LISTEN \<and> slot_memory cfg
      then for_range 0 (max_slot_num s) (age_step cfg s) (tags s, False) else Some (tags s, False)) =
        Some (ts, f)" "merge_all cfg (received_fi_list s) (set_tags ts s) = Some s1"
      "if f then map_option (\<lambda>ts. set_tags ts s1)
         (for_range 0 (max_slot_num s1) (\<lambda>count ts. array_mod ts count unlock_tag) (tags s1)) = Some s'
       else s' = s1"
    by (auto simp: synthesize_fi_list_def bind_eq_Some_conv split: if_splits)
  have "\<forall>t \<in> set ts. P t"
    using st(1) assms(2) age_loop_inv [of "max_slot_num s" s "tags s" False ts f]
    by (auto simp: all_tags_def split: if_splits)
  then have "all_tags (set_tags ts s)" using assms(2) by (simp add: all_tags_def)
  then have s1: "all_tags s1" using merge_all_inv [OF st(2)] assms(3) by blast
  show ?thesis
  proof (cases f)
    case True
    with st(3) obtain us where us: "for_range 0 (max_slot_num s1)
        (\<lambda>count ts. array_mod ts count unlock_tag) (tags s1) = Some us" "s' = set_tags us s1" by auto
    have "\<forall>t \<in> set us. P t"
      by (rule all_tags_loop [OF us(1)]) (use s1 P_unlock in \<open>auto simp: all_tags_def\<close>)
    with us(2) s1 show ?thesis by (simp add: all_tags_def)
  qed (use st(3) s1 in simp)
qed

lemma clear_others_inv:
  assumes "clear_others_slot_status s = Some s'" and "all_tags s"
  shows "all_tags s'"
proof -
  have me: "global_sti s = me" using assms(2) by (simp add: all_tags_def)
  from assms(1) obtain us where us: "for_range 0 (max_slot_num s)
      (\<lambda>count ts. array_mod ts count (clear_others_tag (global_sti s))) (tags s) = Some us"
      "s' = set_tags us s" by (auto simp: clear_others_slot_status_def)
  have "\<forall>t \<in> set us. P t"
    by (rule all_tags_loop [OF us(1)]) (use assms(2) me P_clear in \<open>auto simp: all_tags_def\<close>)
  with us(2) assms(2) show ?thesis by (simp add: all_tags_def)
qed

lemma clear_FI_inv: "all_tags s \<Longrightarrow> all_tags (clear_FI s)"
  using P_new by (simp add: all_tags_def clear_FI_def tags_def)

lemma put_slot_step_inv:
  assumes "put_slot_step j (st, s) = Some (st', s')" and "all_tags s"
  shows "all_tags s'"
proof -
  from assms have "mod_tag j (sent_tag me) s = Some s'"
    by (auto simp: put_slot_step_def bind_eq_Some_conv all_tags_def)
  from all_tags_mod [OF assms(2) this P_sent] show ?thesis .
qed

lemma generate_FI_inv:
  assumes "generate_FI_code s = Some (code, s')" and "all_tags s"
  shows "all_tags s'"
proof -
  from assms(1) obtain st st' u where l: "for_range 0 (max_slot_num s) put_slot_step (st, s) = Some (st', u)"
      "s' = u\<lparr>stats := (stats u)\<lparr>send_fi_count := send_fi_count (stats u) + 1\<rparr>\<rparr>"
    by (auto simp: generate_FI_code_def bind_eq_Some_conv split: if_splits)
  have "all_tags (snd (st', u))"
  proof (rule for_range_inv [OF l(1), where P = "\<lambda>x. all_tags (snd x)"])
    fix j x x' assume "all_tags (snd x)" "put_slot_step j x = Some x'"
    then show "all_tags (snd x')" using put_slot_step_inv by (cases x; cases x') auto
  qed (simp add: assms(2))
  with l(2) show ?thesis by (simp add: all_tags_def)
qed

end

section \<open>The invariants of the model\<close>

text \<open>
  The status fits in two bits; life times stay between zero and the configured one; the counters
  are not negative as long as received counters are not; an occupied slot has an owner.
\<close>

definition life_ok :: "tdma_cfg \<Rightarrow> slot_tag \<Rightarrow> bool" where
  "life_ok cfg t \<longleftrightarrow>
     (1 \<le> slot_lifetime_frame_s2 cfg \<longrightarrow> 0 \<le> life_time t \<and> life_time t \<le> slot_lifetime_frame_s2 cfg)"

definition counts_ok :: "slot_tag \<Rightarrow> bool" where
  "counts_ok t \<longleftrightarrow> 0 \<le> count_2hop t \<and> 0 \<le> count_3hop t"

definition owner_ok :: "u32 \<Rightarrow> slot_tag \<Rightarrow> bool" where
  "owner_ok me t \<longleftrightarrow> (me \<noteq> 0 \<longrightarrow> busy t \<noteq> SLOT_FREE \<longrightarrow> sti t \<noteq> 0)"

lemmas tag_op_defs = new_slot_tag_def merge_own_tag_def merge_tag_defs age_tag_def age_unlock_def
  age_expire_def unlock_tag_def clear_others_tag_def own_tag_def free_tag_def sent_tag_def

interpretation tagok: tag_invariant cfg me tag_ok "\<lambda>_. True"
  by unfold_locales (simp_all add: tag_op_defs tag_ok_def)

interpretation lifeok: tag_invariant cfg me "life_ok cfg" "\<lambda>_. True"
  by unfold_locales (auto simp: tag_op_defs life_ok_def)

interpretation countok: tag_invariant cfg me counts_ok counts_ok
  by unfold_locales (auto simp: tag_op_defs counts_ok_def)

interpretation ownerok: tag_invariant cfg me "owner_ok me" "\<lambda>_. True"
  by unfold_locales (auto simp: tag_op_defs owner_ok_def)

section \<open>Synthesis always returns\<close>

definition received_ok :: "'a tdma_scheme \<Rightarrow> bool" where
  "received_ok s \<longleftrightarrow> (\<forall>fi \<in> set (received_fi_list s). frame_ok fi)"

lemma age_loop:
  assumes "max_slot_num s \<le> int (length (tags s))"
  shows "for_range 0 (max_slot_num s) (age_step cfg s) (tags s, False) =
    Some (map_range (max_slot_num s) (\<lambda>i. age_tag cfg (global_sti s) (own_slot s i)) (tags s),
      \<exists>i. int i < max_slot_num s \<and> locker (tags s ! i) \<and> sti (tags s ! i) = 0)"
proof (cases "0 \<le> max_slot_num s")
  case True
  let ?f = "\<lambda>i. age_tag cfg (global_sti s) (own_slot s i)"
  let ?L = "\<lambda>j. \<exists>i. int i < j \<and> locker (tags s ! i) \<and> sti (tags s ! i) = 0"
  let ?I = "\<lambda>j x. x = (map_range j ?f (tags s), ?L j)"
  have "\<exists>x. for_range 0 (max_slot_num s) (age_step cfg s) (tags s, False) = Some x \<and> ?I (max_slot_num s) x"
  proof (rule for_range_rule [where I = ?I])
    have "map_range 0 ?f (tags s) = tags s" by (intro nth_equalityI) auto
    then show "?I 0 (tags s, False)" by simp
    show "0 \<le> max_slot_num s" by (rule True)
  next
    fix j x assume j: "0 \<le> j" "j < max_slot_num s" and x: "?I j x"
    have jl: "j < int (length (tags s))" using j assms by simp
    have up: "(map_range j ?f (tags s))[nat j := ?f j (tags s ! nat j)] = map_range (j + 1) ?f (tags s)"
      using j jl by (intro nth_equalityI) (auto simp: nth_list_update)
    have L: "?L (j + 1) = (?L j \<or> locker (tags s ! nat j) \<and> sti (tags s ! nat j) = 0)"
    proof -
      obtain k where k: "j = int k" using j(1) by (rule nonneg_int_cases)
      have "int i < j + 1 \<longleftrightarrow> int i < j \<or> i = k" for i using k by linarith
      then show ?thesis unfolding k nat_int by blast
    qed
    have "age_step cfg s j x = Some (map_range (j + 1) ?f (tags s),
        if \<not> (locker (tags s ! nat j) \<and> sti (tags s ! nat j) \<noteq> 0) \<and> locker (tags s ! nat j)
        then True else ?L j)"
      using j jl x by (simp add: age_step_def array_get_in array_mod_in up)
    also have "(if \<not> (locker (tags s ! nat j) \<and> sti (tags s ! nat j) \<noteq> 0) \<and> locker (tags s ! nat j)
        then True else ?L j) = ?L (j + 1)" unfolding L by simp
    finally show "\<exists>t'. age_step cfg s j x = Some t' \<and> ?I (j + 1) t'" by blast
  qed
  then show ?thesis by blast
next
  case False
  then have "map_range (max_slot_num s) (\<lambda>i. age_tag cfg (global_sti s) (own_slot s i)) (tags s) = tags s"
    by (intro nth_equalityI) auto
  with False show ?thesis by (simp add: for_range_empty)
qed

text \<open>
  \<open>same_node s s'\<close>: the states agree but for the slots and the frame length, which only grew, to
  the length of a received frame.
\<close>

definition same_node :: "'a tdma_scheme \<Rightarrow> 'a tdma_scheme \<Rightarrow> bool" where
  "same_node s s' \<longleftrightarrow> (\<exists>ts m. s' = (set_tags ts s)\<lparr>max_slot_num := m\<rparr> \<and> max_slot_num s \<le> m \<and>
     (m = max_slot_num s \<or> m \<in> frame_len ` set (received_fi_list s)))"

lemma same_node_tags: "same_node s (set_tags ts s)"
  unfolding same_node_def
  by (intro exI [of _ ts] exI [of _ "max_slot_num s"]) (simp add: set_tags_def)

lemma same_node_trans: "same_node s s' \<Longrightarrow> same_node s' s'' \<Longrightarrow> same_node s s''"
  unfolding same_node_def
proof (elim exE conjE)
  fix ts m us n
  assume "s' = (set_tags ts s)\<lparr>max_slot_num := m\<rparr>" "max_slot_num s \<le> m"
    "m = max_slot_num s \<or> m \<in> frame_len ` set (received_fi_list s)"
    "s'' = (set_tags us s')\<lparr>max_slot_num := n\<rparr>" "max_slot_num s' \<le> n"
    "n = max_slot_num s' \<or> n \<in> frame_len ` set (received_fi_list s')"
  then show "\<exists>ts m. s'' = (set_tags ts s)\<lparr>max_slot_num := m\<rparr> \<and> max_slot_num s \<le> m \<and>
      (m = max_slot_num s \<or> m \<in> frame_len ` set (received_fi_list s))"
    by (intro exI [of _ us] exI [of _ n]) (auto simp: set_tags_max_slot_num)
qed

lemma same_node_fields:
  assumes "same_node s s'"
  shows "global_sti s' = global_sti s" "received_fi_list s' = received_fi_list s"
    "node_state s' = node_state s" "slot_num s' = slot_num s" "slot_count s' = slot_count s"
    "slot_adj_candidate s' = slot_adj_candidate s" "adj_free_threshold s' = adj_free_threshold s"
    "testmode_init_flag s' = testmode_init_flag s" "stats s' = stats s" "rand_count s' = rand_count s"
    "total_slot_count s' = total_slot_count s" "slot_state s' = slot_state s" "tdma.more s' = tdma.more s"
    "backoff_frame_num s' = backoff_frame_num s" "bch_slot_lock s' = bch_slot_lock s"
    "enable s' = enable s" "initialed s' = initialed s" "max_slot_num s \<le> max_slot_num s'"
  using assms by (auto simp: same_node_def)

lemma merge_all_total:
  assumes "table_ok s" and "\<forall>fi \<in> set fis. frame_ok fi" and "set fis \<subseteq> set (received_fi_list s)"
  shows "\<exists>s'. merge_all cfg fis s = Some s' \<and> table_ok s' \<and> same_node s s'"
  using assms
proof (induction fis arbitrary: s)
  case Nil
  then show ?case using same_node_tags [of s "tags s"] by simp
next
  case (Cons fi fis)
  from merge_fi_spec [OF table_ok_sizes [OF Cons.prems(1)], of fi cfg] Cons.prems(2) obtain ts where
    ts: "merge_fi cfg fi s = Some ((set_tags ts s)\<lparr>max_slot_num := merged_len cfg fi s\<rparr>)"
      "length ts = length (tags s)" "\<forall>i < length ts. merged_slot cfg fi s i (ts ! i)" by auto
  let ?s1 = "(set_tags ts s)\<lparr>max_slot_num := merged_len cfg fi s\<rparr>"
  have len: "max_slot_num s \<le> merged_len cfg fi s" "merged_len cfg fi s \<le> max_frame_len"
    using merged_len_bounds [of fi s cfg] Cons.prems by (auto simp: table_ok_sizes)
  have "tag_ok t" if "t \<in> set ts" for t
    using that ts(2,3) Cons.prems(1) merged_slot_ok by (metis in_set_conv_nth table_ok_def)
  then have ok: "table_ok ?s1" using Cons.prems(1) ts(2) len by (auto simp: table_ok_def)
  have "merged_len cfg fi s = max_slot_num s \<or> merged_len cfg fi s \<in> frame_len ` set (received_fi_list s)"
    using merged_len_bounds(3) [of fi s cfg] Cons.prems by (auto simp: table_ok_sizes)
  then have "same_node s ?s1" using len(1) unfolding same_node_def by blast
  moreover from Cons.IH [OF ok] Cons.prems(2,3) obtain s' where
    "merge_all cfg fis ?s1 = Some s'" "table_ok s'" "same_node ?s1 s'" by auto
  ultimately show ?case using ts(1) same_node_trans by auto
qed

lemma table_ok_set_tags:
  "table_ok s \<Longrightarrow> length ts = length (tags s) \<Longrightarrow> \<forall>t \<in> set ts. tag_ok t \<Longrightarrow> table_ok (set_tags ts s)"
  by (simp add: table_ok_def)

lemma ball_map_range:
  "\<forall>x \<in> set xs. P x \<Longrightarrow> (\<And>i x. P x \<Longrightarrow> P (f i x)) \<Longrightarrow> \<forall>x \<in> set (map_range hi f xs). P x"
  by (auto simp: map_range_def)

lemma synthesize_total:
  assumes "table_ok s" and "received_ok s"
  shows "\<exists>s'. synthesize_fi_list cfg s = Some s' \<and> table_ok s' \<and> same_node s s'"
proof -
  note b = table_ok_sizes [OF assms(1)]
  let ?ts = "if node_state s \<noteq> NODE_LISTEN \<and> slot_memory cfg
    then map_range (max_slot_num s) (\<lambda>i. age_tag cfg (global_sti s) (own_slot s i)) (tags s) else tags s"
  have "\<exists>f. (if node_state s \<noteq> NODE_LISTEN \<and> slot_memory cfg
      then for_range 0 (max_slot_num s) (age_step cfg s) (tags s, False) else Some (tags s, False)) =
      Some (?ts, f)"
    using age_loop [of s cfg] b by (cases "node_state s \<noteq> NODE_LISTEN \<and> slot_memory cfg") auto
  then obtain f where age: "(if node_state s \<noteq> NODE_LISTEN \<and> slot_memory cfg
      then for_range 0 (max_slot_num s) (age_step cfg s) (tags s, False) else Some (tags s, False)) =
      Some (?ts, f)" by blast
  have "\<forall>t \<in> set (tags s). tag_ok t" using assms(1) by (simp add: table_ok_def)
  then have "\<forall>t \<in> set (map_range (max_slot_num s)
      (\<lambda>i. age_tag cfg (global_sti s) (own_slot s i)) (tags s)). tag_ok t"
    by (rule ball_map_range) (rule tagok.P_age)
  then have "\<forall>t \<in> set ?ts. tag_ok t" using assms(1) by (simp add: table_ok_def)
  then have ok: "table_ok (set_tags ?ts s)" using assms(1) by (intro table_ok_set_tags) simp_all
  from merge_all_total [OF ok, of "received_fi_list s" cfg] assms(2) obtain s1 where
    s1: "merge_all cfg (received_fi_list s) (set_tags ?ts s) = Some s1" "table_ok s1"
      "same_node (set_tags ?ts s) s1" by (auto simp: received_ok_def)
  then have same: "same_node s s1" using same_node_trans [OF same_node_tags] by blast
  let ?us = "map_range (max_slot_num s1) (\<lambda>_. unlock_tag) (tags s1)"
  have un: "for_range 0 (max_slot_num s1) (\<lambda>count ts. array_mod ts count unlock_tag) (tags s1) = Some ?us"
    using for_range_array_mod [of "max_slot_num s1" "tags s1" "\<lambda>_. unlock_tag"] table_ok_sizes [OF s1(2)]
    by simp
  have "\<forall>t \<in> set ?us. tag_ok t"
    using s1(2) tagok.P_unlock by (intro ball_map_range) (auto simp: table_ok_def)
  then have us: "table_ok (set_tags ?us s1)" using s1(2) by (intro table_ok_set_tags) simp_all
  have "synthesize_fi_list cfg s = Some (if f then set_tags ?us s1 else s1)"
    unfolding synthesize_fi_list_def age using s1(1) un by simp
  moreover have "same_node s (set_tags ?us s1)" by (rule same_node_trans [OF same same_node_tags])
  ultimately show ?thesis using us s1(2) same by auto
qed

section \<open>Slots that are no longer reported\<close>

text \<open>
  How many frames a slot of another node can survive without a report: its life time, once more
  the full one if it was seen two hops away in this frame, and the frame in which it expires.
\<close>

definition slot_rank :: "tdma_cfg \<Rightarrow> slot_tag \<Rightarrow> nat" where
  "slot_rank cfg t =
     (if sti t = 0 then 0
      else 1 + nat (life_time t) + (if existed t then nat (slot_lifetime_frame_s2 cfg) else 0))"

lemma age_tag_rank:
  assumes "life_ok cfg t" and "1 \<le> slot_lifetime_frame_s2 cfg" and "sti t \<noteq> 0"
    and "\<not> (sti t = me \<and> own)"
  shows "slot_rank cfg (age_tag cfg me own t) < slot_rank cfg t"
proof -
  define u where "u = age_unlock t"
  have u: "sti u = sti t" "life_time u = life_time t" "existed u = existed t"
    by (simp_all add: u_def age_unlock_def)
  have life: "0 \<le> life_time t" using assms(1,2) by (simp add: life_ok_def)
  have ne: "\<not> (sti u = me \<and> own \<or> sti u = 0)" using assms(3,4) u by auto
  show ?thesis
  proof (cases "life_time t \<le> 1")
    case True
    define t1 where "t1 = (if 0 < life_time u then u\<lparr>life_time := life_time u - 1\<rparr> else u)"
    have t1: "life_time t1 = 0" "existed t1 = existed t" "sti t1 = sti t"
      using True life u by (auto simp: t1_def)
    have "age_tag cfg me own t = (age_expire cfg t1)\<lparr>existed := False\<rparr>"
      using ne t1(1) unfolding age_tag_def u_def [symmetric] Let_def if_not_P [OF ne] t1_def [symmetric]
      by simp
    then show ?thesis
      using t1 assms(2,3) by (auto simp: slot_rank_def age_expire_def)
  next
    case False
    then have "age_tag cfg me own t =
        (if busy u \<noteq> SLOT_COLLISION \<and>
            life_time u - 1 = slot_lifetime_frame_s2 cfg - slot_lifetime_frame_s1 cfg
         then u\<lparr>life_time := life_time u - 1, busy := SLOT_FREE\<rparr>
         else u\<lparr>life_time := life_time u - 1\<rparr>)\<lparr>existed := False\<rparr>"
      using ne u(2) unfolding age_tag_def u_def [symmetric] Let_def if_not_P [OF ne] by simp
    with False u assms(3) show ?thesis by (auto simp: slot_rank_def)
  qed
qed

text \<open>Some slot of the frame is locked and has no owner.\<close>

definition locked_free :: "'a tdma_scheme \<Rightarrow> bool" where
  "locked_free s \<longleftrightarrow> (\<exists>k. int k < max_slot_num s \<and> locker (tags s ! k) \<and> sti (tags s ! k) = 0)"

lemma slot_rank_unlock [simp]: "slot_rank cfg (unlock_tag t) = slot_rank cfg t"
  by (simp add: slot_rank_def unlock_tag_def)

lemma age_tag_sti: "sti (age_tag cfg me own t) = sti t \<or> sti (age_tag cfg me own t) = 0"
  by (simp add: age_tag_def age_unlock_def age_expire_def Let_def)

lemma unlock_tag_sti [simp]: "sti (unlock_tag t) = sti t"
  by (simp add: unlock_tag_def)

lemma age_loop_locks:
  "max_slot_num s \<le> int (length (tags s)) \<Longrightarrow>
     for_range 0 (max_slot_num s) (age_step cfg s) (tags s, False) =
     Some (map_range (max_slot_num s) (\<lambda>i. age_tag cfg (global_sti s) (own_slot s i)) (tags s),
       locked_free s)"
  by (simp add: age_loop locked_free_def)

text \<open>\<open>n\<close> frames in which nothing is received.\<close>

primrec silent_frames :: "tdma_cfg \<Rightarrow> nat \<Rightarrow> 'a tdma_scheme \<Rightarrow> 'a tdma_scheme option" where
  "silent_frames cfg 0 s = Some s"
| "silent_frames cfg (Suc n) s =
     (case synthesize_fi_list cfg s of None \<Rightarrow> None | Some s' \<Rightarrow> silent_frames cfg n s')"

definition silent_tag :: "tdma_cfg \<Rightarrow> 'a tdma_scheme \<Rightarrow> int \<Rightarrow> slot_tag \<Rightarrow> slot_tag" where
  "silent_tag cfg s i t =
     (if locked_free s then unlock_tag (age_tag cfg (global_sti s) (own_slot s i) t)
      else age_tag cfg (global_sti s) (own_slot s i) t)"

lemma synthesize_silent:
  assumes "table_ok s" and "received_fi_list s = []" and "node_state s \<noteq> NODE_LISTEN"
    and "slot_memory cfg"
  shows "synthesize_fi_list cfg s =
    Some (set_tags (map_range (max_slot_num s) (silent_tag cfg s) (tags s)) s)"
proof -
  have m: "max_slot_num s \<le> int (length (tags s))" using assms(1) by (simp add: table_ok_def)
  let ?aged = "map_range (max_slot_num s) (\<lambda>i. age_tag cfg (global_sti s) (own_slot s i)) (tags s)"
  have "for_range 0 (max_slot_num s) (\<lambda>count ts. array_mod ts count unlock_tag) ?aged =
      Some (map_range (max_slot_num s) (\<lambda>_. unlock_tag) ?aged)"
    using m by (intro for_range_array_mod) simp
  moreover have "map_range (max_slot_num s) (\<lambda>_. unlock_tag) ?aged =
      map_range (max_slot_num s) (\<lambda>i t. unlock_tag (age_tag cfg (global_sti s) (own_slot s i) t)) (tags s)"
    by (intro nth_equalityI) auto
  ultimately show ?thesis
    using assms(2-4) age_loop_locks [OF m, of cfg]
    by (cases "locked_free s") (simp_all add: synthesize_fi_list_def silent_tag_def [abs_def])
qed

lemma silent_tag_rank:
  assumes "life_ok cfg t" and "1 \<le> slot_lifetime_frame_s2 cfg" and "sti t \<noteq> 0"
    and "\<not> (sti t = global_sti s \<and> own_slot s i)"
  shows "slot_rank cfg (silent_tag cfg s i t) < slot_rank cfg t"
  using age_tag_rank [OF assms] by (simp add: silent_tag_def)

lemma silent_tag_inv:
  "life_ok cfg t \<Longrightarrow> life_ok cfg (silent_tag cfg s i t)"
  "sti (silent_tag cfg s i t) = sti t \<or> sti (silent_tag cfg s i t) = 0"
  "tag_ok t \<Longrightarrow> tag_ok (silent_tag cfg s i t)"
  using lifeok.P_age lifeok.P_unlock tagok.P_age tagok.P_unlock age_tag_sti
  by (auto simp: silent_tag_def)

lemma silent_frames_forget:
  assumes "table_ok s" and "received_fi_list s = []" and "node_state s \<noteq> NODE_LISTEN" and "slot_memory cfg"
    and "1 \<le> slot_lifetime_frame_s2 cfg" and "int i < max_slot_num s" and "life_ok cfg (tags s ! i)"
    and "sti (tags s ! i) \<noteq> global_sti s" and "global_sti s \<noteq> 0" and "slot_rank cfg (tags s ! i) \<le> n"
  shows "\<exists>s'. silent_frames cfg n s = Some s' \<and> sti (tags s' ! i) = 0"
  using assms
proof (induction n arbitrary: s)
  case 0
  then show ?case by (simp add: slot_rank_def split: if_splits)
next
  case (Suc n)
  let ?s = "set_tags (map_range (max_slot_num s) (silent_tag cfg s) (tags s)) s"
  have i: "i < length (tags s)" using Suc.prems(1,6) by (simp add: table_ok_def)
  have ti: "tags ?s ! i = silent_tag cfg s (int i) (tags s ! i)" using i Suc.prems(6) by simp
  have "\<forall>t \<in> set (tags s). tag_ok t" using Suc.prems(1) by (simp add: table_ok_def)
  then have "\<forall>t \<in> set (map_range (max_slot_num s) (silent_tag cfg s) (tags s)). tag_ok t"
    by (rule ball_map_range) (rule silent_tag_inv(3))
  then have ok: "table_ok ?s" using Suc.prems(1) by (intro table_ok_set_tags) simp_all
  have "slot_rank cfg (tags ?s ! i) \<le> n"
  proof (cases "sti (tags s ! i) = 0")
    case True
    then have "sti (tags ?s ! i) = 0" using silent_tag_inv(2) [of cfg s "int i" "tags s ! i"] ti by simp
    then show ?thesis by (simp add: slot_rank_def)
  next
    case False
    with silent_tag_rank [OF Suc.prems(7,5) False, of s "int i"] Suc.prems(8,10) ti show ?thesis by simp
  qed
  moreover have "sti (tags ?s ! i) \<noteq> global_sti ?s"
    using silent_tag_inv(2) [of cfg s "int i" "tags s ! i"] Suc.prems(8,9) ti by auto
  moreover have "life_ok cfg (tags ?s ! i)" using silent_tag_inv(1) [OF Suc.prems(7)] ti by simp
  ultimately have "\<exists>s'. silent_frames cfg n ?s = Some s' \<and> sti (tags s' ! i) = 0"
    using Suc.prems ok by (intro Suc.IH) simp_all
  then show ?case using synthesize_silent [OF Suc.prems(1-4)] by simp
qed

section \<open>Properties\<close>





end
