(* ===== verification/Bch_Select.thy ===== *)
theory Bch_Select
  imports Merge_Fi
begin

text \<open>
  How a node chooses its broadcast slot (BCH) and its frame length: \<open>determine_BCH\<close>,
  \<open>adjust_is_needed\<close> and \<open>adjFrameLen\<close> of \<open>src/ns2/mac/mac-tdma.cc\<close>.
\<close>

section \<open>Model\<close>

text \<open>The candidate arrays \<open>s2c[256]\<close>, \<open>s0c[256]\<close> and \<open>s0_1c[128]\<close>, with their capacities.\<close>

definition push_slot :: "nat \<Rightarrow> int list \<Rightarrow> int \<Rightarrow> int list option" where
  "push_slot cap xs i = (if length xs < cap then Some (xs @ [i]) else None)"

definition bch_candidate :: "bool \<Rightarrow> u32 \<Rightarrow> slot_tag \<Rightarrow> bool" where
  "bch_candidate strict me t \<longleftrightarrow>
     (busy t = SLOT_FREE \<or> \<not> strict \<and> sti t = me) \<and> \<not> locker t"

type_synonym candidates = "int list \<times> int list \<times> int list"

definition scan_step ::
    "tdma_cfg \<Rightarrow> bool \<Rightarrow> 'a tdma_scheme \<Rightarrow> int \<Rightarrow> candidates \<Rightarrow> candidates option" where
  "scan_step cfg strict s i c = (case c of (s2c, s0c, s0_1c) \<Rightarrow> do {
     t \<leftarrow> tag_at s i;
     if bch_candidate strict (global_sti s) t then
       if adj_ena cfg then do {
         s2c' \<leftarrow> push_slot 256 s2c i;
         if count_3hop t = 0 then do {
           s0c' \<leftarrow> push_slot 256 s0c i;
           s0_1c' \<leftarrow> (if i < max_slot_num s div 2 then push_slot 128 s0_1c i else Some s0_1c);
           Some (s2c', s0c', s0_1c')
         } else Some (s2c', s0c, s0_1c)
       } else do {
         s0c' \<leftarrow> push_slot 256 s0c i;
         Some (s2c, s0c', s0_1c)
       }
     else Some (s2c, s0c, s0_1c)
   })"

text \<open>\<open>free_count_ths\<close> and \<open>free_count_ehs\<close>.\<close>

definition count_step :: "'a tdma_scheme \<Rightarrow> int \<Rightarrow> int \<times> int \<Rightarrow> (int \<times> int) option" where
  "count_step s i c = (case c of (ths, ehs) \<Rightarrow> do {
     t \<leftarrow> tag_at s i;
     Some (if busy t = SLOT_FREE then ths + 1 else ths,
           if busy t = SLOT_FREE \<and> count_3hop t = 0 then ehs + 1 else ehs)
   })"

text \<open>The utilisation test that allows the frame to be halved.\<close>

definition cut_allowed :: "tdma_cfg \<Rightarrow> 'a tdma_scheme \<Rightarrow> int \<Rightarrow> int \<Rightarrow> bool" where
  "cut_allowed cfg s ths ehs \<longleftrightarrow>
     adj_frame_lower_bound cfg < max_slot_num s \<and>
     f32_div (max_slot_num s - ehs) (max_slot_num s) \<le> frameadj_cut_ratio_ehs cfg \<and>
     f32_div (max_slot_num s - ths) (max_slot_num s) \<le> frameadj_cut_ratio_ths cfg"

text \<open>\<open>chosen_slot = Random::random() % n; return c[chosen_slot];\<close>, a division by zero if \<open>n = 0\<close>.\<close>

definition pick_random :: "rng \<Rightarrow> int list \<Rightarrow> 'a tdma_scheme \<Rightarrow> (int \<times> 'a tdma_scheme) option" where
  "pick_random rnd c s =
     (if c = [] then None
      else case random_mod rnd (int (length c)) s of (k, s') \<Rightarrow> Some (c ! nat k, s'))"

definition pick_slot ::
    "tdma_cfg \<Rightarrow> rng \<Rightarrow> int list \<Rightarrow> 'a tdma_scheme \<Rightarrow> (int \<times> 'a tdma_scheme) option" where
  "pick_slot cfg rnd c s =
     (if choose_bch_random_switch cfg \<noteq> 0 then pick_random rnd c s
      else if c = [] then None else Some (c ! 0, s))"

definition testmode_slot :: "u32 \<Rightarrow> int" where
  "testmode_slot me =
     (if me = 1 then 0 else if me = 2 then 1 else if me = 3 then 2 else if me = 4 then 0
      else sint (me - 1))"

definition determine_BCH ::
    "tdma_cfg \<Rightarrow> rng \<Rightarrow> bool \<Rightarrow> 'a tdma_scheme \<Rightarrow> (int \<times> 'a tdma_scheme) option" where
  "determine_BCH cfg rnd strict s = do {
     (s2c, s0c, s0_1c) \<leftarrow> for_range 0 (max_slot_num s) (scan_step cfg strict s) ([], [], []);
     (ths, ehs) \<leftarrow> for_range 0 (if adj_frame_ena cfg then max_slot_num s else 0) (count_step s) (0, 0);
     if adj_frame_ena cfg \<and> cut_allowed cfg s ths ehs \<and> s0_1c \<noteq> [] then pick_random rnd s0_1c s
     else if testmode_init_flag s \<and> choose_bch_random_switch cfg = 2 then
       Some (testmode_slot (global_sti s), s\<lparr>testmode_init_flag := False\<rparr>)
     else if \<not> adj_ena cfg then
       if s0c \<noteq> [] then pick_random rnd s0c s else Some (- 1, s)
     else if adj_free_threshold s \<le> int (length s0c) then pick_slot cfg rnd s0c s
     else if s2c \<noteq> [] then pick_slot cfg rnd s2c s
     else Some (- 1, s)
   }"

definition adjust_step :: "'a tdma_scheme \<Rightarrow> int \<Rightarrow> int \<times> int \<times> int \<Rightarrow> (int \<times> int \<times> int) option" where
  "adjust_step s i c = (case c of (ths, ehs, s0_1c_num) \<Rightarrow> do {
     t \<leftarrow> tag_at s i;
     Some (if busy t = SLOT_FREE then ths + 1 else ths,
           if busy t = SLOT_FREE \<and> count_3hop t = 0 then ehs + 1 else ehs,
           if busy t = SLOT_FREE \<and> count_3hop t = 0 \<and> i < max_slot_num s div 2
           then s0_1c_num + 1 else s0_1c_num)
   })"

definition adjust_is_needed :: "tdma_cfg \<Rightarrow> int \<Rightarrow> 'a tdma_scheme \<Rightarrow> bool option" where
  "adjust_is_needed cfg slot s = do {
     (ths, ehs, s0_1c_num) \<leftarrow> for_range 0 (max_slot_num s) (adjust_step s) (0, 0, 0);
     crowded \<leftarrow> (if adj_ena cfg
        then map_option (\<lambda>t. c3hop_threshold_s1 cfg \<le> count_3hop t) (tag_at s slot) else Some False);
     Some (adj_ena cfg \<and> crowded \<and> adj_free_threshold s \<le> ehs \<or>
           adj_frame_ena cfg \<and> max_slot_num s div 2 \<le> slot \<and> cut_allowed cfg s ths ehs \<and>
           s0_1c_num \<noteq> 0)
   }"

definition util_step ::
    "'a tdma_scheme \<Rightarrow> int \<Rightarrow> bool \<times> int \<times> int \<Rightarrow> (bool \<times> int \<times> int) option" where
  "util_step s i c = (case c of (cutflag, ths, ehs) \<Rightarrow> do {
     t \<leftarrow> tag_at s i;
     Some (if busy t \<noteq> SLOT_FREE \<and> max_slot_num s div 2 \<le> i then False else cutflag,
           if busy t = SLOT_FREE then ths + 1 else ths,
           if busy t = SLOT_FREE \<and> count_3hop t = 0 then ehs + 1 else ehs)
   })"

definition adjFrameLen :: "tdma_cfg \<Rightarrow> 'a tdma_scheme \<Rightarrow> 'a tdma_scheme option" where
  "adjFrameLen cfg s =
     (if \<not> adj_frame_ena cfg then Some s
      else do {
        (cutflag, ths, ehs) \<leftarrow> for_range 0 (max_slot_num s) (util_step s) (True, 0, 0);
        let utilrate_ths = (if ths \<le> adj_free_threshold s then 1
                            else f32_div (max_slot_num s - ths) (max_slot_num s));
        let utilrate_ehs = (if ehs \<le> adj_free_threshold s then 1
                            else f32_div (max_slot_num s - ehs) (max_slot_num s));
        let m = (if frameadj_exp_ratio cfg \<le> utilrate_ehs \<and>
                     max_slot_num s < adj_frame_upper_bound cfg then max_slot_num s * 2
                 else if cutflag \<and> utilrate_ths \<le> frameadj_cut_ratio_ths cfg \<and>
                     utilrate_ehs \<le> frameadj_cut_ratio_ehs cfg \<and>
                     adj_frame_lower_bound cfg < max_slot_num s then max_slot_num s div 2
                 else max_slot_num s);
        Some (s\<lparr>max_slot_num := m, adj_free_threshold := 5\<rparr>)
      })"

section \<open>What the loops compute\<close>

lemma upto_snoc: "lo \<le> j \<Longrightarrow> [lo..j] = [lo..j - 1] @ [j :: int]"
  by (rule upto_rec2)

text \<open>Slots in use, as the loops enumerate them, that satisfy a condition.\<close>

definition slots_where :: "'a tdma_scheme \<Rightarrow> (slot_tag \<Rightarrow> bool) \<Rightarrow> int \<Rightarrow> int list" where
  "slots_where s P hi = filter (\<lambda>i. P (tags s ! nat i)) [0..hi - 1]"

lemma slots_where_0 [simp]: "slots_where s P 0 = []"
  by (simp add: slots_where_def)

lemma slots_where_Suc:
  "0 \<le> j \<Longrightarrow> slots_where s P (j + 1) =
     slots_where s P j @ (if P (tags s ! nat j) then [j] else [])"
  by (simp add: slots_where_def upto_snoc)

lemma slots_where_min:
  "slots_where s P (min (j + 1) h) =
     (if j < h then slots_where s P (j + 1) else slots_where s P (min j h))"
  by (simp add: min_def)

lemma length_slots_where: "length (slots_where s P hi) \<le> nat hi"
  unfolding slots_where_def by (rule order.trans [OF length_filter_le]) simp

lemma in_slots_where:
  "i \<in> set (slots_where s P hi) \<longleftrightarrow> 0 \<le> i \<and> i < hi \<and> P (tags s ! nat i)"
  by (auto simp: slots_where_def)

abbreviation tag_free :: "slot_tag \<Rightarrow> bool" where
  "tag_free t \<equiv> busy t = SLOT_FREE"

abbreviation tag_free_ehs :: "slot_tag \<Rightarrow> bool" where
  "tag_free_ehs t \<equiv> busy t = SLOT_FREE \<and> count_3hop t = 0"

definition free_slots :: "'a tdma_scheme \<Rightarrow> int" where
  "free_slots s = int (length (slots_where s tag_free (max_slot_num s)))"

definition free_slots_ehs :: "'a tdma_scheme \<Rightarrow> int" where
  "free_slots_ehs s = int (length (slots_where s tag_free_ehs (max_slot_num s)))"

lemma push_slot_in: "length xs < cap \<Longrightarrow> push_slot cap xs i = Some (xs @ [i])"
  by (simp add: push_slot_def)

lemma scan_loop:
  assumes "max_slot_num s \<le> int (length (tags s))" and "0 \<le> max_slot_num s"
    and "max_slot_num s \<le> max_frame_len"
  shows "for_range 0 (max_slot_num s) (scan_step cfg strict s) ([], [], []) = Some
    (let cand = bch_candidate strict (global_sti s);
         cand0 = (\<lambda>t. cand t \<and> count_3hop t = 0)
     in if adj_ena cfg
        then (slots_where s cand (max_slot_num s), slots_where s cand0 (max_slot_num s),
              slots_where s cand0 (max_slot_num s div 2))
        else ([], slots_where s cand (max_slot_num s), []))"
proof -
  let ?cand = "bch_candidate strict (global_sti s)"
  let ?ehs = "\<lambda>t. ?cand t \<and> count_3hop t = 0"
  let ?half = "max_slot_num s div 2"
  let ?I = "\<lambda>j c. c = (if adj_ena cfg
    then (slots_where s ?cand j, slots_where s ?ehs j, slots_where s ?ehs (min j ?half))
    else ([], slots_where s ?cand j, []))"
  have "\<exists>c. for_range 0 (max_slot_num s) (scan_step cfg strict s) ([], [], []) = Some c \<and>
      ?I (max_slot_num s) c"
  proof (rule for_range_rule [where I = ?I])
    show "?I 0 ([], [], [])" using assms(2) by simp
    show "0 \<le> max_slot_num s" by fact
  next
    fix j c
    assume j: "0 \<le> j" "j < max_slot_num s" and c: "?I j c"
    have len: "length (slots_where s P j) < 256" for P
      using length_slots_where [of s P j] j assms(3) by linarith
    have lenh: "length (slots_where s ?ehs (min j ?half)) < 128" if "j < ?half"
      using length_slots_where [of s ?ehs "min j ?half"] j that assms(3) by linarith
    have "scan_step cfg strict s j c = Some (if adj_ena cfg
        then (slots_where s ?cand (j + 1), slots_where s ?ehs (j + 1),
              slots_where s ?ehs (min (j + 1) ?half))
        else ([], slots_where s ?cand (j + 1), []))"
      using j assms(1) c lenh
      by (simp add: scan_step_def tag_at_in push_slot_in len slots_where_min slots_where_Suc)
    then show "\<exists>t'. scan_step cfg strict s j c = Some t' \<and> ?I (j + 1) t'" by blast
  qed
  then obtain c where c: "for_range 0 (max_slot_num s) (scan_step cfg strict s) ([], [], []) = Some c"
    "?I (max_slot_num s) c" by blast
  have "min (max_slot_num s) ?half = ?half" using assms(2) by simp
  then show ?thesis unfolding c by (simp add: Let_def)
qed

lemma count_loop:
  assumes "hi \<le> int (length (tags s))" and "0 \<le> hi"
  shows "for_range 0 hi (count_step s) (0, 0) =
    Some (int (length (slots_where s tag_free hi)), int (length (slots_where s tag_free_ehs hi)))"
proof -
  let ?I = "\<lambda>j c. c = (int (length (slots_where s tag_free j)),
    int (length (slots_where s tag_free_ehs j)))"
  have "\<exists>c. for_range 0 hi (count_step s) (0, 0) = Some c \<and> ?I hi c"
    by (rule for_range_rule [where I = ?I])
      (use assms in \<open>auto simp: count_step_def tag_at_in slots_where_Suc\<close>)
  then show ?thesis by simp
qed

lemma adjust_loop:
  assumes "max_slot_num s \<le> int (length (tags s))" and "0 \<le> max_slot_num s"
  shows "for_range 0 (max_slot_num s) (adjust_step s) (0, 0, 0) =
    Some (free_slots s, free_slots_ehs s,
      int (length (slots_where s tag_free_ehs (max_slot_num s div 2))))"
proof -
  let ?h = "max_slot_num s div 2"
  let ?I = "\<lambda>j c. c = (int (length (slots_where s tag_free j)),
    int (length (slots_where s tag_free_ehs j)), int (length (slots_where s tag_free_ehs (min j ?h))))"
  have "\<exists>c. for_range 0 (max_slot_num s) (adjust_step s) (0, 0, 0) = Some c \<and> ?I (max_slot_num s) c"
    by (rule for_range_rule [where I = ?I])
      (use assms in \<open>auto simp: adjust_step_def tag_at_in slots_where_min slots_where_Suc\<close>)
  moreover have "min (max_slot_num s) ?h = ?h" using assms(2) by simp
  ultimately show ?thesis by (simp add: free_slots_def free_slots_ehs_def)
qed

lemma util_loop:
  assumes "max_slot_num s \<le> int (length (tags s))" and "0 \<le> max_slot_num s"
  shows "for_range 0 (max_slot_num s) (util_step s) (True, 0, 0) =
    Some (\<forall>i. max_slot_num s div 2 \<le> int i \<longrightarrow> int i < max_slot_num s \<longrightarrow> busy (tags s ! i) = SLOT_FREE,
      free_slots s, free_slots_ehs s)"
proof -
  let ?h = "max_slot_num s div 2"
  let ?I = "\<lambda>j c. c = (\<forall>i. ?h \<le> int i \<longrightarrow> int i < j \<longrightarrow> busy (tags s ! i) = SLOT_FREE,
    int (length (slots_where s tag_free j)), int (length (slots_where s tag_free_ehs j)))"
  have "\<exists>c. for_range 0 (max_slot_num s) (util_step s) (True, 0, 0) = Some c \<and> ?I (max_slot_num s) c"
  proof (rule for_range_rule [where I = ?I])
    fix j c
    assume j: "0 \<le> j" "j < max_slot_num s" and c: "?I j c"
    have "(\<forall>i. ?h \<le> int i \<longrightarrow> int i < j + 1 \<longrightarrow> busy (tags s ! i) = SLOT_FREE) =
        ((\<forall>i. ?h \<le> int i \<longrightarrow> int i < j \<longrightarrow> busy (tags s ! i) = SLOT_FREE) \<and>
         \<not> (busy (tags s ! nat j) \<noteq> SLOT_FREE \<and> ?h \<le> j))"
    proof -
      obtain k where k: "j = int k" using j(1) by (rule nonneg_int_cases)
      have "int i < j + 1 \<longleftrightarrow> int i < j \<or> i = k" for i using k by linarith
      then show ?thesis unfolding k nat_int by blast
    qed
    then show "\<exists>t'. util_step s j c = Some t' \<and> ?I (j + 1) t'"
      using j c assms by (simp add: util_step_def tag_at_in slots_where_Suc)
  qed (use assms in auto)
  then show ?thesis by (simp add: free_slots_def free_slots_ehs_def)
qed

section \<open>The chosen slot\<close>

text \<open>The states that differ from \<open>s\<close> in the random generator and the test-mode flag only.\<close>

definition choice_state :: "'a tdma_scheme \<Rightarrow> 'a tdma_scheme \<Rightarrow> bool" where
  "choice_state s s' \<longleftrightarrow> (\<exists>n f. s' = s\<lparr>rand_count := n, testmode_init_flag := f\<rparr>)"

lemma choice_state_refl [simp, intro]: "choice_state s s"
  unfolding choice_state_def by (intro exI [of _ "rand_count s"] exI [of _ "testmode_init_flag s"]) simp

lemma choice_state_rand [simp, intro]: "choice_state s (s\<lparr>rand_count := n\<rparr>)"
  unfolding choice_state_def by (intro exI [of _ n] exI [of _ "testmode_init_flag s"]) simp

lemma choice_state_test [simp, intro]: "choice_state s (s\<lparr>testmode_init_flag := f\<rparr>)"
  unfolding choice_state_def by (intro exI [of _ "rand_count s"] exI [of _ f]) simp

lemma pick_random_in:
  assumes "c \<noteq> []"
  shows "\<exists>k s'. pick_random rnd c s = Some (k, s') \<and> k \<in> set c \<and> choice_state s s'"
proof -
  let ?k = "int (rnd (rand_count s)) mod int (length c)"
  have "nat ?k < length c" using assms by (simp add: nat_less_iff)
  then have "c ! nat ?k \<in> set c" by (rule nth_mem)
  then show ?thesis using assms by (auto simp: pick_random_def random_mod_def)
qed

lemma pick_slot_in:
  assumes "c \<noteq> []"
  shows "\<exists>k s'. pick_slot cfg rnd c s = Some (k, s') \<and> k \<in> set c \<and> choice_state s s'"
  using assms pick_random_in [OF assms] by (auto simp: pick_slot_def)

text \<open>
  Outside the test mode the chosen slot is in use, free (or the node's own, unless \<open>strict\<close>) and
  not locked; \<open>-1\<close> is returned only when there is no such slot.
\<close>

definition bch_choice :: "bool \<Rightarrow> 'a tdma_scheme \<Rightarrow> int \<Rightarrow> bool" where
  "bch_choice strict s k \<longleftrightarrow>
     (if k = - 1 then \<forall>i. int i < max_slot_num s \<longrightarrow> \<not> bch_candidate strict (global_sti s) (tags s ! i)
      else 0 \<le> k \<and> k < max_slot_num s \<and> bch_candidate strict (global_sti s) (tags s ! nat k))"

definition test_mode :: "tdma_cfg \<Rightarrow> 'a tdma_scheme \<Rightarrow> bool" where
  "test_mode cfg s \<longleftrightarrow> testmode_init_flag s \<and> choose_bch_random_switch cfg = 2"

lemma bch_choice_none:
  assumes "slots_where s (bch_candidate strict (global_sti s)) (max_slot_num s) = []"
  shows "bch_choice strict s (- 1)"
proof -
  have "\<not> bch_candidate strict (global_sti s) (tags s ! i)" if "int i < max_slot_num s" for i
    using in_slots_where [of "int i" s "bch_candidate strict (global_sti s)" "max_slot_num s"]
      that assms by auto
  then show ?thesis by (simp add: bch_choice_def)
qed

text \<open>The candidate arrays after the scan.\<close>

definition cand_slots :: "bool \<Rightarrow> 'a tdma_scheme \<Rightarrow> int list" where
  "cand_slots strict s = slots_where s (bch_candidate strict (global_sti s)) (max_slot_num s)"

definition quiet_slots :: "bool \<Rightarrow> 'a tdma_scheme \<Rightarrow> int list" where
  "quiet_slots strict s =
     slots_where s (\<lambda>t. bch_candidate strict (global_sti s) t \<and> count_3hop t = 0) (max_slot_num s)"

definition lower_quiet_slots :: "bool \<Rightarrow> 'a tdma_scheme \<Rightarrow> int list" where
  "lower_quiet_slots strict s =
     slots_where s (\<lambda>t. bch_candidate strict (global_sti s) t \<and> count_3hop t = 0)
       (max_slot_num s div 2)"

lemma table_ok_bounds:
  assumes "table_ok s"
  shows "max_slot_num s \<le> int (length (tags s))" "0 \<le> max_slot_num s"
    "max_slot_num s \<le> max_frame_len" "max_slot_num s div 2 \<le> max_slot_num s"
  using assms by (auto simp: table_ok_def)

lemma lower_quiet_in: "k \<in> set (lower_quiet_slots strict s) \<Longrightarrow> table_ok s \<Longrightarrow> k \<in> set (quiet_slots strict s)"
  using table_ok_bounds(4) [of s] by (auto simp: lower_quiet_slots_def quiet_slots_def in_slots_where)

lemma quiet_in: "k \<in> set (quiet_slots strict s) \<Longrightarrow> k \<in> set (cand_slots strict s)"
  by (auto simp: cand_slots_def quiet_slots_def in_slots_where)

lemma cand_in: "k \<in> set (cand_slots strict s) \<Longrightarrow> bch_choice strict s k"
  by (auto simp: bch_choice_def cand_slots_def in_slots_where)

lemma cand_none: "cand_slots strict s = [] \<Longrightarrow> bch_choice strict s (- 1)"
  unfolding cand_slots_def by (rule bch_choice_none)

lemma determine_BCH_eq:
  assumes "table_ok s"
  shows "determine_BCH cfg rnd strict s =
    (if adj_frame_ena cfg \<and> adj_ena cfg \<and> cut_allowed cfg s (free_slots s) (free_slots_ehs s) \<and>
        lower_quiet_slots strict s \<noteq> [] then pick_random rnd (lower_quiet_slots strict s) s
     else if test_mode cfg s then
       Some (testmode_slot (global_sti s), s\<lparr>testmode_init_flag := False\<rparr>)
     else if \<not> adj_ena cfg then
       if cand_slots strict s \<noteq> [] then pick_random rnd (cand_slots strict s) s else Some (- 1, s)
     else if adj_free_threshold s \<le> int (length (quiet_slots strict s)) then
       pick_slot cfg rnd (quiet_slots strict s) s
     else if cand_slots strict s \<noteq> [] then pick_slot cfg rnd (cand_slots strict s) s
     else Some (- 1, s))"
proof -
  note b = table_ok_bounds [OF assms]
  have scan: "for_range 0 (max_slot_num s) (scan_step cfg strict s) ([], [], []) = Some
    (if adj_ena cfg then (cand_slots strict s, quiet_slots strict s, lower_quiet_slots strict s)
     else ([], cand_slots strict s, []))"
    unfolding scan_loop [OF b(1-3)]
    by (simp add: Let_def cand_slots_def quiet_slots_def lower_quiet_slots_def)
  show ?thesis
  proof (cases "adj_frame_ena cfg")
    case True
    then show ?thesis
      unfolding determine_BCH_def scan if_P [OF True] count_loop [OF b(1,2)] free_slots_def
        free_slots_ehs_def test_mode_def by simp
  next
    case False
    then show ?thesis
      unfolding determine_BCH_def scan if_not_P [OF False] count_loop [of 0 s, simplified]
        test_mode_def by simp
  qed
qed

text \<open>\<open>chosen P x\<close>: the call returns a slot that satisfies \<open>P\<close> and leaves the table alone.\<close>

definition chosen ::
    "'a tdma_scheme \<Rightarrow> (int \<Rightarrow> bool) \<Rightarrow> (int \<times> 'a tdma_scheme) option \<Rightarrow> bool" where
  "chosen s P x \<longleftrightarrow> (\<exists>k s'. x = Some (k, s') \<and> choice_state s s' \<and> P k)"

lemma chosen_Some [simp]: "chosen s P (Some (k, s')) \<longleftrightarrow> choice_state s s' \<and> P k"
  by (simp add: chosen_def)

lemma chosen_pick_random: "c \<noteq> [] \<Longrightarrow> \<forall>k \<in> set c. P k \<Longrightarrow> chosen s P (pick_random rnd c s)"
  using pick_random_in [of c rnd s] unfolding chosen_def by blast

lemma chosen_pick_slot: "c \<noteq> [] \<Longrightarrow> \<forall>k \<in> set c. P k \<Longrightarrow> chosen s P (pick_slot cfg rnd c s)"
  using pick_slot_in [of c cfg rnd s] unfolding chosen_def by blast

lemmas chosen_rules = chosen_pick_random chosen_pick_slot lower_quiet_in quiet_in cand_in cand_none

lemma quiet_nonempty:
  "0 < adj_free_threshold s \<Longrightarrow> adj_free_threshold s \<le> int (length (quiet_slots strict s)) \<Longrightarrow>
     quiet_slots strict s \<noteq> []"
  by auto

lemma determine_BCH_chosen:
  assumes "table_ok s" and "0 < adj_free_threshold s" and "\<not> test_mode cfg s"
  shows "chosen s (bch_choice strict s) (determine_BCH cfg rnd strict s)"
  unfolding determine_BCH_eq [OF assms(1)] using assms
  by (auto intro: chosen_rules dest: quiet_nonempty)

section \<open>The frame length\<close>

definition upper_half_free :: "'a tdma_scheme \<Rightarrow> bool" where
  "upper_half_free s \<longleftrightarrow>
     (\<forall>i. max_slot_num s div 2 \<le> int i \<longrightarrow> int i < max_slot_num s \<longrightarrow> busy (tags s ! i) = SLOT_FREE)"

text \<open>Powers of two between the two configured bounds.\<close>

definition frame_bounds_ok :: "tdma_cfg \<Rightarrow> bool" where
  "frame_bounds_ok cfg \<longleftrightarrow>
     (\<exists>a b. adj_frame_lower_bound cfg = 2 ^ a \<and> adj_frame_upper_bound cfg = 2 ^ b) \<and>
     adj_frame_upper_bound cfg \<le> max_frame_len"

definition frame_len_ok :: "tdma_cfg \<Rightarrow> int \<Rightarrow> bool" where
  "frame_len_ok cfg m \<longleftrightarrow>
     (\<exists>k. m = 2 ^ k) \<and> adj_frame_lower_bound cfg \<le> m \<and> m \<le> adj_frame_upper_bound cfg"

lemma frame_len_double:
  assumes "frame_bounds_ok cfg" and "frame_len_ok cfg m" and "m < adj_frame_upper_bound cfg"
  shows "frame_len_ok cfg (m * 2)"
proof -
  obtain b k where b: "adj_frame_upper_bound cfg = 2 ^ b" and k: "m = 2 ^ k"
    using assms by (auto simp: frame_bounds_ok_def frame_len_ok_def)
  with assms(3) have "(2::int) ^ Suc k \<le> 2 ^ b" by (intro power_increasing) simp_all
  moreover have "m * 2 = 2 ^ Suc k" "m \<le> m * 2" by (simp_all add: k)
  ultimately show ?thesis
    using assms(2) k b unfolding frame_len_ok_def by (intro conjI exI [of _ "Suc k"]) linarith+
qed

lemma frame_len_halve:
  assumes "frame_bounds_ok cfg" and "frame_len_ok cfg m" and "adj_frame_lower_bound cfg < m"
  shows "frame_len_ok cfg (m div 2)" and "0 < m div 2"
proof -
  obtain a k where a: "adj_frame_lower_bound cfg = 2 ^ a" and k: "m = 2 ^ k"
    using assms by (auto simp: frame_bounds_ok_def frame_len_ok_def)
  with assms(3) have "a < k" by simp
  then obtain j where j: "k = Suc j" by (cases k) auto
  with \<open>a < k\<close> have le: "(2::int) ^ a \<le> 2 ^ j" by (intro power_increasing) simp_all
  have m: "m div 2 = 2 ^ j" by (simp add: k j)
  then show "0 < m div 2" by simp
  have "0 \<le> m" by (simp add: k)
  then have "m div 2 \<le> m" by linarith
  with assms(2) le m a show "frame_len_ok cfg (m div 2)"
    unfolding frame_len_ok_def by (intro conjI exI [of _ j]) auto
qed

lemma adjFrameLen_cases:
  assumes "table_ok s" and "adj_frame_ena cfg"
  shows "\<exists>m. adjFrameLen cfg s = Some (s\<lparr>max_slot_num := m, adj_free_threshold := 5\<rparr>) \<and>
    (m = max_slot_num s \<or>
     m = max_slot_num s * 2 \<and> max_slot_num s < adj_frame_upper_bound cfg \<or>
     m = max_slot_num s div 2 \<and> adj_frame_lower_bound cfg < max_slot_num s \<and> upper_half_free s)"
proof -
  have "max_slot_num s \<le> int (length (tags s))" "0 \<le> max_slot_num s"
    using assms(1) by (auto simp: table_ok_def)
  note loop = util_loop [OF this, folded upper_half_free_def]
  let ?m = "\<lambda>m. s\<lparr>max_slot_num := m, adj_free_threshold := 5\<rparr>"
  let ?P = "\<lambda>m. m = max_slot_num s \<or>
     m = max_slot_num s * 2 \<and> max_slot_num s < adj_frame_upper_bound cfg \<or>
     m = max_slot_num s div 2 \<and> adj_frame_lower_bound cfg < max_slot_num s \<and> upper_half_free s"
  obtain m where "adjFrameLen cfg s = Some (?m m)" "?P m"
    using assms(2) by (simp add: adjFrameLen_def loop Let_def split: if_splits)
  then show ?thesis by (intro exI [of _ m] conjI)
qed

lemma adjFrameLen_disabled: "\<not> adj_frame_ena cfg \<Longrightarrow> adjFrameLen cfg s = Some s"
  by (simp add: adjFrameLen_def)

lemma example_frame_ok [simp]:
  "frame_bounds_ok example_cfg" "frame_len_ok example_cfg 32"
proof -
  show "frame_bounds_ok example_cfg"
    unfolding frame_bounds_ok_def
    by (intro conjI exI [of _ 4] exI [of _ 8]) (simp_all add: example_cfg_def)
  show "frame_len_ok example_cfg 32"
    unfolding frame_len_ok_def by (intro conjI exI [of _ 5]) (simp_all add: example_cfg_def)
qed

section \<open>Properties\<close>

text \<open>
  C15: outside the test mode \<open>determine_BCH\<close> always returns, changes nothing of the table, and
  answers with a slot of the frame that is free (or already the node's, unless \<open>strict\<close>) and not
  locked; it answers \<open>-1\<close> only when no slot of the frame qualifies.
\<close>

theorem determine_BCH_sound:
  assumes "table_ok s" and "0 < adj_free_threshold s" and "\<not> test_mode cfg s"
  shows "\<exists>k s'. determine_BCH cfg rnd strict s = Some (k, s') \<and> choice_state s s' \<and>
    bch_choice strict s k"
  using determine_BCH_chosen [OF assms] by (simp add: chosen_def)

theorem determine_BCH_sound_witness:
  "\<exists>k s'. determine_BCH example_cfg (\<lambda>_. 7) True (example_node 1 []) = Some (k, s') \<and>
     choice_state (example_node 1 []) s' \<and> bch_choice True (example_node 1 []) k"
  by (rule determine_BCH_sound) (simp_all add: test_mode_def example_cfg_def)

text \<open>
  With the slot adjustment on and at least \<open>adj_free_threshold\<close> candidates that no three-hop
  neighbour uses, \<open>determine_BCH\<close> answers with one of those.
\<close>

lemma determine_BCH_prefers_quiet:
  assumes "table_ok s" and "0 < adj_free_threshold s" and "\<not> test_mode cfg s" and "adj_ena cfg"
    and "adj_free_threshold s \<le> int (length (quiet_slots strict s))"
  shows "\<exists>k s'. determine_BCH cfg rnd strict s = Some (k, s') \<and> 0 \<le> k \<and> k < max_slot_num s \<and>
    bch_candidate strict (global_sti s) (tags s ! nat k) \<and> count_3hop (tags s ! nat k) = 0"
proof -
  have "chosen s (\<lambda>k. k \<in> set (quiet_slots strict s)) (determine_BCH cfg rnd strict s)"
    unfolding determine_BCH_eq [OF assms(1)] using assms
    by (auto intro: chosen_rules dest: quiet_nonempty)
  then show ?thesis by (auto simp: chosen_def quiet_slots_def in_slots_where)
qed

text \<open>
  When the utilisation allows the frame to be halved and the lower half has an unlocked free
  slot that no three-hop neighbour uses, \<open>determine_BCH\<close> moves the node to the lower half.
\<close>

lemma determine_BCH_lower_half:
  assumes "table_ok s" and "adj_ena cfg" and "adj_frame_ena cfg"
    and "cut_allowed cfg s (free_slots s) (free_slots_ehs s)"
    and "0 \<le> i" and "i < max_slot_num s div 2" and "tag_free_ehs (tags s ! nat i)"
    and "\<not> locker (tags s ! nat i)"
  shows "\<exists>k s'. determine_BCH cfg rnd strict s = Some (k, s') \<and> 0 \<le> k \<and>
    k < max_slot_num s div 2 \<and> bch_choice strict s k"
proof -
  have "i \<in> set (lower_quiet_slots strict s)"
    using assms by (simp add: lower_quiet_slots_def in_slots_where bch_candidate_def)
  then have "chosen s (\<lambda>k. k \<in> set (lower_quiet_slots strict s)) (determine_BCH cfg rnd strict s)"
    unfolding determine_BCH_eq [OF assms(1)] using assms
    by (auto intro!: chosen_pick_random)
  then show ?thesis
    using assms(1) by (fastforce simp: chosen_def lower_quiet_slots_def in_slots_where
        intro!: cand_in quiet_in lower_quiet_in)
qed

text \<open>
  C29: \<open>adjFrameLen\<close> keeps the table well-formed and the frame length a power of two between the
  configured bounds, and it halves the frame only when no slot of the upper half is occupied.
\<close>

theorem adjFrameLen_keeps_frame:
  assumes "table_ok s" and "frame_bounds_ok cfg" and "frame_len_ok cfg (max_slot_num s)"
  shows "\<exists>s'. adjFrameLen cfg s = Some s' \<and> table_ok s' \<and> frame_len_ok cfg (max_slot_num s') \<and>
    tags s' = tags s \<and>
    (max_slot_num s' < max_slot_num s \<longrightarrow> max_slot_num s' = max_slot_num s div 2 \<and> upper_half_free s)"
proof (cases "adj_frame_ena cfg")
  case True
  from adjFrameLen_cases [OF assms(1) True] obtain m where
    m: "adjFrameLen cfg s = Some (s\<lparr>max_slot_num := m, adj_free_threshold := 5\<rparr>)"
      "m = max_slot_num s \<or> m = max_slot_num s * 2 \<and> max_slot_num s < adj_frame_upper_bound cfg \<or>
       m = max_slot_num s div 2 \<and> adj_frame_lower_bound cfg < max_slot_num s \<and> upper_half_free s"
    by blast
  have "frame_len_ok cfg m" "0 < m"
    using m(2) assms frame_len_double [OF assms(2,3)] frame_len_halve [OF assms(2,3)]
    by (auto simp: table_ok_def)
  moreover from this have "m \<le> max_frame_len" using assms(2) by (simp add: frame_len_ok_def frame_bounds_ok_def)
  moreover have "m < max_slot_num s \<Longrightarrow> m = max_slot_num s div 2 \<and> upper_half_free s"
    using m(2) assms(1) by (auto simp: table_ok_def)
  ultimately show ?thesis using m(1) assms(1) by (simp add: table_ok_def)
qed (use assms in \<open>simp add: adjFrameLen_disabled\<close>)

theorem adjFrameLen_keeps_frame_witness:
  "\<exists>s'. adjFrameLen example_cfg (example_node 1 []) = Some s' \<and> table_ok s' \<and>
     frame_len_ok example_cfg (max_slot_num s') \<and> tags s' = tags (example_node 1 []) \<and>
     (max_slot_num s' < max_slot_num (example_node 1 []) \<longrightarrow>
        max_slot_num s' = max_slot_num (example_node 1 []) div 2 \<and> upper_half_free (example_node 1 []))"
  by (rule adjFrameLen_keeps_frame) simp_all

text \<open>
  When not more than \<open>adj_free_threshold\<close> slots are free among all hops the node knows of, and
  the frame is below its upper bound, \<open>adjFrameLen\<close> doubles the frame, whatever the utilisation
  thresholds (up to full utilisation) are.
\<close>

lemma adjFrameLen_doubles_when_full:
  assumes "table_ok s" and "adj_frame_ena cfg" and "frameadj_exp_ratio cfg \<le> 1"
    and "free_slots_ehs s \<le> adj_free_threshold s" and "max_slot_num s < adj_frame_upper_bound cfg"
  shows "adjFrameLen cfg s =
    Some (s\<lparr>max_slot_num := max_slot_num s * 2, adj_free_threshold := 5\<rparr>)"
  using assms util_loop [OF table_ok_bounds(1,2) [OF assms(1)]] by (simp add: adjFrameLen_def Let_def)

end
