(* ===== verification/Slot_Handler.thy ===== *)
theory Slot_Handler
  imports Mac_Example Table_Invariants Bch_Select
begin

text \<open>
  \<open>MacTdma::slotHandler\<close> (\<open>src/ns2/mac/mac-tdma.cc\<close>): what a node does at the start of every slot.
  The node acts in the slot \<open>slot_num_\<close> it has chosen, by the state of the protocol machine; a
  transmission is prepared by building the FI packet and starting the backoff timer.

  The height \<open>z\<close> that \<open>getPosition\<close> returns is an argument of the handler. Lines written to the trace
  file are the effect \<open>Trace\<close>; their text is not modelled.
\<close>

section \<open>Parts of the handler\<close>

text \<open>The test for a usable slot, which the handler repeats in every state.\<close>

definition bch_usable :: "u32 \<Rightarrow> slot_tag \<Rightarrow> bool" where
  "bch_usable me t \<longleftrightarrow> sti t = me \<and> busy t = SLOT_1HOP \<or> sti t = 0"

definition release_tag :: "u32 \<Rightarrow> slot_tag \<Rightarrow> slot_tag" where
  "release_tag me t = (if sti t = me then (free_tag t)\<lparr>locker := True\<rparr> else t)"

definition get_channel_utilization :: "'a tdma_scheme \<Rightarrow> rat option" where
  "get_channel_utilization s =
     map_option (\<lambda>count. of_int count / of_int (max_slot_num s))
       (for_range 0 (max_slot_num s)
          (\<lambda>i count. map_option (\<lambda>t. if busy t \<noteq> SLOT_FREE then count + 1 else count) (tag_at s i))
          (0 :: int))"

text \<open>\<open>pktFI_ = generate_FI_packet(); mhBackoff_.start(0, 1, SIFSTime)\<close>.\<close>

definition prepare_FI :: "env \<Rightarrow> 'a mac_scheme \<Rightarrow> 'a mac_scheme option" where
  "prepare_FI e s = do {
     (p, s1) \<leftarrow> generate_FI_packet (mx e) (ph e) (index s) s;
     start_backoff 0 True (SIFSTime (ph e)) (s1\<lparr>pktFI := Some p\<rparr>)
   }"

text \<open>The tables of the other nodes are merged into the node's own.\<close>

definition update_table :: "env \<Rightarrow> 'a mac_scheme \<Rightarrow> 'a mac_scheme option" where
  "update_table e s = do {
     s1 \<leftarrow> (if \<not> slot_memory (cfg e) then clear_others_slot_status s else Some s);
     synthesize_fi_list (cfg e) (clear_2hop_slot_status s1)
   }"

text \<open>After a lost slot: choose another one, or listen again after a random number of frames.\<close>

definition choose_again :: "env \<Rightarrow> 'a mac_scheme \<Rightarrow> 'a mac_scheme option" where
  "choose_again e s = do {
     (k, s1) \<leftarrow> determine_BCH (cfg e) (rnd e) False s;
     if k < 0 \<or> k = slot_count s1 then
       let (b, s2) = random_mod (rnd e) 20 s1 in
       Some (mod_stats (\<lambda>x. x\<lparr>no_avalible_count := no_avalible_count x + 1\<rparr>)
         (s2\<lparr>slot_num := slot_count s2, node_state := NODE_LISTEN, backoff_frame_num := b\<rparr>))
     else Some (s1\<lparr>slot_num := k, node_state := NODE_WAIT_REQUEST\<rparr>)
   }"

section \<open>The start of a slot\<close>

definition slot_begin :: "rat \<Rightarrow> 'a mac_scheme \<Rightarrow> 'a mac_scheme option" where
  "slot_begin z s =
     (if max_slot_num s = 0 then None
      else do {
        let s1 = s\<lparr>total_slot_count := total_slot_count s + 1,
          slot_count := c_rem (total_slot_count s + 1) (max_slot_num s)\<rparr>;
        s2 \<leftarrow> start_slot_timer (slot_time s1) s1;
        let s3 = (fade_received_fi_list 1 (s2\<lparr>initialed := True\<rparr>))\<lparr>slot_state := BEGINING\<rparr>;
        Some (if \<not> enable s3 then
                if z = 0 then s3\<lparr>enable := True,
                  slot_num := c_rem (slot_count s3 + 1) (max_slot_num s3)\<rparr> else s3
              else if 0 < z then s3\<lparr>enable := False\<rparr> else s3)
      })"

definition slot_log :: "'a mac_scheme \<Rightarrow> 'a mac_scheme option" where
  "slot_log s =
     (if 1 \<le> clock s - last_log_time s
      then map_option (\<lambda>_. emit [Trace] (s\<lparr>last_log_time := clock s\<rparr>)) (get_channel_utilization s)
      else Some s)"

section \<open>One case per state\<close>

definition slot_init :: "'a mac_scheme \<Rightarrow> 'a mac_scheme" where
  "slot_init s = mod_stats (\<lambda>x. x\<lparr>waiting_frame_count := 0, request_fail_times := 0,
       collision_count := 0, continuous_work_fi := 0, continuous_work_fi_max := 0,
       adj_count_success := 0, adj_count_total := 0, no_avalible_count := 0\<rparr>)
     (s\<lparr>node_state := NODE_LISTEN, last_log_time := clock s, backoff_frame_num := 0\<rparr>)"

text \<open>The choice of a first slot; the node sends at once if it is the current one.\<close>

definition listen_choose :: "env \<Rightarrow> 'a mac_scheme \<Rightarrow> 'a mac_scheme option" where
  "listen_choose e s1 = do {
     (k, s2) \<leftarrow> determine_BCH (cfg e) (rnd e) False s1;
     if k < 0 then
       let (b, s3) = random_mod (rnd e) 20 s2 in
       Some (mod_stats (\<lambda>x. x\<lparr>no_avalible_count := no_avalible_count x + 1\<rparr>)
         (s3\<lparr>node_state := NODE_LISTEN, slot_num := slot_count s3, backoff_frame_num := b\<rparr>))
     else if k = slot_count s2 then do {
       s3 \<leftarrow> mod_tag (slot_count s2) (own_tag (global_sti s2)) (s2\<lparr>slot_num := k\<rparr>);
       s4 \<leftarrow> prepare_FI e s3;
       Some (s4\<lparr>node_state := NODE_REQUEST\<rparr>)
     } else Some (s2\<lparr>slot_num := k, node_state := NODE_WAIT_REQUEST\<rparr>)
   }"

definition slot_listen :: "env \<Rightarrow> 'a mac_scheme \<Rightarrow> 'a mac_scheme option" where
  "slot_listen e s0 = do {
     let s = mod_stats (\<lambda>x. x\<lparr>waiting_frame_count := waiting_frame_count x + 1\<rparr>) s0;
     if backoff_frame_num s \<noteq> 0 then Some (s\<lparr>backoff_frame_num := backoff_frame_num s - 1\<rparr>)
     else do {
       s1 \<leftarrow> synthesize_fi_list (cfg e) (clear_FI s);
       listen_choose e s1
     }
   }"

definition slot_wait_request :: "env \<Rightarrow> 'a mac_scheme \<Rightarrow> 'a mac_scheme option" where
  "slot_wait_request e s0 = do {
     s \<leftarrow> update_table e (mod_stats (\<lambda>x. x\<lparr>waiting_frame_count := waiting_frame_count x + 1\<rparr>) s0);
     t \<leftarrow> tag_at s (slot_count s);
     if bch_usable (global_sti s) t then do {
       s1 \<leftarrow> mod_tag (slot_count s) (own_tag (global_sti s)) s;
       s2 \<leftarrow> prepare_FI e s1;
       Some (s2\<lparr>node_state := NODE_REQUEST\<rparr>)
     } else do {
       s1 \<leftarrow> mod_tag (slot_count s) (release_tag (global_sti s)) s;
       choose_again e (emit [Trace]
         (mod_stats (\<lambda>x. x\<lparr>request_fail_times := request_fail_times x + 1\<rparr>) s1))
     }
   }"

definition slot_request :: "env \<Rightarrow> 'a mac_scheme \<Rightarrow> 'a mac_scheme option" where
  "slot_request e s0 = do {
     s \<leftarrow> update_table e s0;
     t \<leftarrow> tag_at s (slot_count s);
     if bch_usable (global_sti s) t then prepare_FI e (s\<lparr>node_state := NODE_WORK_FI\<rparr>)
     else do {
       s1 \<leftarrow> mod_tag (slot_count s) (release_tag (global_sti s)) s;
       choose_again e (emit [Trace] (mod_stats (\<lambda>x. x\<lparr>waiting_frame_count := waiting_frame_count x + 1,
         request_fail_times := request_fail_times x + 1\<rparr>) s1))
     }
   }"

text \<open>A candidate for a better slot was found: move there, or hold both slots for a frame.\<close>

definition take_candidate :: "env \<Rightarrow> int \<Rightarrow> 'a mac_scheme \<Rightarrow> 'a mac_scheme option" where
  "take_candidate e k s =
     (if adj_single_slot_ena (cfg e) then do {
        s1 \<leftarrow> mod_tag (slot_count s) (\<lambda>t. (free_tag t)\<lparr>locker := False\<rparr>)
          (mod_stats (\<lambda>x. x\<lparr>adj_count_success := adj_count_success x + 1\<rparr>)
            (s\<lparr>node_state := NODE_WORK_FI, slot_num := k\<rparr>));
        mod_tag k (own_tag (global_sti s1)) s1
      } else
        mod_tag k (own_tag (global_sti s))
          (mod_stats (\<lambda>x. x\<lparr>adj_count_total := adj_count_total x + 1\<rparr>)
            (s\<lparr>node_state := NODE_WORK_ADJ\<rparr>)))"

text \<open>A working node looks for a better slot, or adapts the length of the frame.\<close>

definition work_adjust :: "env \<Rightarrow> 'a mac_scheme \<Rightarrow> 'a mac_scheme option" where
  "work_adjust e s = do {
     needed \<leftarrow> adjust_is_needed (cfg e) (slot_num s) s;
     if needed then do {
       (k, s1) \<leftarrow> determine_BCH (cfg e) (rnd e) True s;
       let s2 = s1\<lparr>slot_adj_candidate := k\<rparr>;
       if 0 \<le> k then take_candidate e k s2 else Some s2
     } else adjFrameLen (cfg e) s
   }"

text \<open>A node that is alone moves to another slot every six frames.\<close>

definition work_single :: "env \<Rightarrow> 'a mac_scheme \<Rightarrow> 'a mac_scheme option" where
  "work_single e s = do {
     single \<leftarrow> (if random_bch_if_single_switch (cfg e) then isSingle s else Some False);
     if single then do {
       let s1 = s\<lparr>bch_slot_lock := bch_slot_lock s - 1\<rparr>;
       if bch_slot_lock s = 0 then do {
         (k, s2) \<leftarrow> determine_BCH (cfg e) (rnd e) False s1;
         s3 \<leftarrow> mod_tag (slot_count s2) (\<lambda>t. (free_tag t)\<lparr>locker := True\<rparr>) (s2\<lparr>slot_num := k\<rparr>);
         s4 \<leftarrow> mod_tag k (own_tag (global_sti s3)) s3;
         Some (s4\<lparr>bch_slot_lock := 5\<rparr>)
       } else Some s1
     } else Some (s\<lparr>bch_slot_lock := 5\<rparr>)
   }"

definition slot_work_fi :: "env \<Rightarrow> 'a mac_scheme \<Rightarrow> 'a mac_scheme option" where
  "slot_work_fi e s0 = do {
     s \<leftarrow> update_table e s0;
     t \<leftarrow> tag_at s (slot_count s);
     if bch_usable (global_sti s) t then do {
       s1 \<leftarrow> work_adjust e (mod_stats (\<lambda>x. x\<lparr>continuous_work_fi := continuous_work_fi x + 1,
         continuous_work_fi_max := max (continuous_work_fi_max x) (continuous_work_fi x + 1)\<rparr>) s);
       s2 \<leftarrow> prepare_FI e s1;
       work_single e s2
     } else do {
       s1 \<leftarrow> mod_tag (slot_count s) (release_tag (global_sti s)) s;
       choose_again e (emit [Trace] (mod_stats (\<lambda>x. x\<lparr>continuous_work_fi := 0,
         collision_count := collision_count x + 1\<rparr>) s1))
     }
   }"

definition slot_work_adj :: "env \<Rightarrow> 'a mac_scheme \<Rightarrow> 'a mac_scheme option" where
  "slot_work_adj e s0 = do {
     s \<leftarrow> update_table e s0;
     let me = global_sti s;
     let adj = slot_adj_candidate s;
     t \<leftarrow> tag_at s (slot_count s);
     if bch_usable me t then do {
       a \<leftarrow> tag_at s adj;
       s1 \<leftarrow> (if count_3hop a \<le> count_3hop t \<and> bch_usable me a
             then mod_tag (slot_num s) (\<lambda>x. (free_tag x)\<lparr>locker := True\<rparr>)
               (mod_stats (\<lambda>x. x\<lparr>adj_count_success := adj_count_success x + 1\<rparr>)
                 (s\<lparr>node_state := NODE_WORK_FI, slot_num := adj\<rparr>))
             else mod_tag adj (\<lambda>x. (free_tag x)\<lparr>locker := True\<rparr>) (s\<lparr>node_state := NODE_WORK_FI\<rparr>));
       prepare_FI e s1
     } else do {
       a \<leftarrow> tag_at s adj;
       if bch_usable me a
       then Some (mod_stats (\<lambda>x. x\<lparr>adj_count_success := adj_count_success x + 1\<rparr>)
         (s\<lparr>node_state := NODE_WORK_FI, slot_num := adj\<rparr>))
       else do {
         s1 \<leftarrow> mod_tag adj (release_tag me)
           (emit [Trace] (mod_stats (\<lambda>x. x\<lparr>collision_count := collision_count x + 1\<rparr>) s));
         choose_again e s1
       }
     }
   }"

section \<open>The handler\<close>

definition slot_action :: "env \<Rightarrow> 'a mac_scheme \<Rightarrow> 'a mac_scheme option" where
  "slot_action e s =
     (case node_state s of
        NODE_INIT \<Rightarrow> Some (slot_init s)
      | NODE_LISTEN \<Rightarrow> slot_listen e s
      | NODE_WAIT_REQUEST \<Rightarrow> slot_wait_request e s
      | NODE_REQUEST \<Rightarrow> slot_request e s
      | NODE_WORK_FI \<Rightarrow> slot_work_fi e s
      | NODE_WORK_ADJ \<Rightarrow> slot_work_adj e s)"

definition slotHandler :: "env \<Rightarrow> rat \<Rightarrow> 'a mac_scheme \<Rightarrow> 'a mac_scheme option" where
  "slotHandler e z s0 = do {
     s1 \<leftarrow> slot_begin z s0;
     if \<not> enable s1 then Some s1
     else do {
       s \<leftarrow> slot_log s1;
       if max_slot_num s < slot_num s then None
       else if slot_count s = slot_num s
       then slot_action e (mod_stats (\<lambda>x. x\<lparr>frame_count := frame_count x + 1\<rparr>) s)
       else Some s
     }
   }"

text \<open>\<open>SlotTdmaTimer::handle\<close>.\<close>

definition SlotTdmaTimer_handle :: "env \<Rightarrow> rat \<Rightarrow> 'a mac_scheme \<Rightarrow> 'a mac_scheme option" where
  "SlotTdmaTimer_handle e z s = slotHandler e z (s\<lparr>mhSlot := timer_handle (mhSlot s)\<rparr>)"

section \<open>The invariant of a node\<close>

text \<open>
  With frame adaptation on, frame lengths are powers of two between the configured bounds, the
  node's own and those it received. Otherwise all are \<open>frame_len_\<close>.
\<close>

definition frame_inv :: "env \<Rightarrow> 'a tdma_scheme \<Rightarrow> bool" where
  "frame_inv e s \<longleftrightarrow>
     (if adj_frame_ena (cfg e)
      then frame_bounds_ok (cfg e) \<and> frame_len_ok (cfg e) (max_slot_num s) \<and>
        (\<forall>fi \<in> set (received_fi_list s). frame_len_ok (cfg e) (frame_len fi))
      else max_slot_num s = frame_len0 e \<and> (\<forall>fi \<in> set (received_fi_list s). frame_len fi = frame_len0 e))"

definition core :: "env \<Rightarrow> 'a tdma_scheme \<Rightarrow> bool" where
  "core e s \<longleftrightarrow> table_ok s \<and> received_ok s \<and> 0 < adj_free_threshold s \<and> frame_inv e s"

text \<open>What \<open>slotHandler\<close> leaves alone: the link, and, once the slot has begun, the slot counters.\<close>

definition link_same :: "'a mac_scheme \<Rightarrow> 'a mac_scheme \<Rightarrow> bool" where
  "link_same s s' \<longleftrightarrow> index s' = index s \<and> clock s' = clock s \<and> slot_time s' = slot_time s \<and>
     start_time s' = start_time s \<and> mhDelayInit s' = mhDelayInit s \<and> mhTxPkt s' = mhTxPkt s \<and>
     mhRxPkt s' = mhRxPkt s \<and> rx_state s' = rx_state s \<and> tx_state s' = tx_state s \<and> pktRx s' = pktRx s \<and>
     safety_packet_queue s' = safety_packet_queue s"

definition kept :: "'a mac_scheme \<Rightarrow> 'a mac_scheme \<Rightarrow> bool" where
  "kept s s' \<longleftrightarrow> global_sti s' = global_sti s \<and> received_fi_list s' = received_fi_list s \<and>
     slot_count s' = slot_count s \<and> total_slot_count s' = total_slot_count s \<and>
     slot_state s' = slot_state s \<and> enable s' = enable s \<and> initialed s' = initialed s \<and>
     mhSlot s' = mhSlot s \<and> link_same s s'"

lemma kept_refl [simp, intro]: "kept s s"
  by (simp add: kept_def link_same_def)

lemma keptD: "kept s s' \<Longrightarrow> slot_count s' = slot_count s" "kept s s' \<Longrightarrow> global_sti s' = global_sti s"
  by (simp_all add: kept_def)

lemma kept_trans: "kept s s' \<Longrightarrow> kept s' s'' \<Longrightarrow> kept s s''"
  by (simp add: kept_def link_same_def)

lemma set_tags_mac_fields [simp]:
  "index (set_tags ts s) = index s" "clock (set_tags ts s) = clock s"
  "slot_time (set_tags ts s) = slot_time s" "mhSlot (set_tags ts s) = mhSlot s"
  "mhTxPkt (set_tags ts s) = mhTxPkt s" "mhRxPkt (set_tags ts s) = mhRxPkt s"
  "mhBackoff (set_tags ts s) = mhBackoff s" "rx_state (set_tags ts s) = rx_state s"
  "tx_state (set_tags ts s) = tx_state s" "pktRx (set_tags ts s) = pktRx s"
  "pktFI (set_tags ts s) = pktFI s" "safety_packet_queue (set_tags ts s) = safety_packet_queue s"
  "out (set_tags ts s) = out s" "start_time (set_tags ts s) = start_time s"
  "mhDelayInit (set_tags ts s) = mhDelayInit s"
  by (simp_all add: set_tags_def)

lemma tags_mac_update [simp]:
  "tags (s\<lparr>mhSlot := a\<rparr>) = tags s" "tags (s\<lparr>mhBackoff := b\<rparr>) = tags s"
  "tags (s\<lparr>pktFI := c\<rparr>) = tags s" "tags (s\<lparr>out := d\<rparr>) = tags s"
  "tags (s\<lparr>last_log_time := f\<rparr>) = tags s"
  by (simp_all add: tags_def)

lemma tags_mod_stats [simp]: "tags (mod_stats f s) = tags s"
  by (simp add: mod_stats_def)

lemma tags_emit [simp]: "tags (emit es s) = tags s"
  by (simp add: emit_def)

lemma core_update [simp]:
  "core e (s\<lparr>node_state := a\<rparr>) = core e s" "core e (s\<lparr>slot_num := b\<rparr>) = core e s"
  "core e (s\<lparr>slot_adj_candidate := b\<rparr>) = core e s" "core e (s\<lparr>stats := f\<rparr>) = core e s"
  "core e (s\<lparr>rand_count := g\<rparr>) = core e s" "core e (s\<lparr>testmode_init_flag := h\<rparr>) = core e s"
  "core e (s\<lparr>backoff_frame_num := b\<rparr>) = core e s" "core e (s\<lparr>bch_slot_lock := b\<rparr>) = core e s"
  "core e (s\<lparr>total_slot_count := b\<rparr>) = core e s" "core e (s\<lparr>slot_count := b\<rparr>) = core e s"
  "core e (s\<lparr>initialed := h\<rparr>) = core e s" "core e (s\<lparr>enable := h\<rparr>) = core e s"
  "core e (s\<lparr>slot_state := i\<rparr>) = core e s"
  by (simp_all add: core_def frame_inv_def received_ok_def table_ok_def)

lemma core_mac_update [simp]:
  fixes s :: "'a mac_scheme"
  shows "core e (s\<lparr>mhSlot := a\<rparr>) = core e s" "core e (s\<lparr>mhBackoff := b\<rparr>) = core e s"
    "core e (s\<lparr>pktFI := c\<rparr>) = core e s" "core e (s\<lparr>out := d\<rparr>) = core e s"
    "core e (s\<lparr>last_log_time := f\<rparr>) = core e s"
  by (simp_all add: core_def frame_inv_def received_ok_def table_ok_def)

lemma core_mod_stats [simp]: "core e (mod_stats f s) = core e s"
  by (simp add: mod_stats_def)

lemma core_emit [simp]: "core e (emit es s) = core e s"
  by (simp add: emit_def)

lemma mod_stats_fields [simp]:
  "global_sti (mod_stats f s) = global_sti s" "received_fi_list (mod_stats f s) = received_fi_list s"
  "node_state (mod_stats f s) = node_state s" "max_slot_num (mod_stats f s) = max_slot_num s"
  "slot_num (mod_stats f s) = slot_num s" "slot_adj_candidate (mod_stats f s) = slot_adj_candidate s"
  "slot_count (mod_stats f s) = slot_count s" "bch_slot_lock (mod_stats f s) = bch_slot_lock s"
  "backoff_frame_num (mod_stats f s) = backoff_frame_num s" "stats (mod_stats f s) = f (stats s)"
  "enable (mod_stats f s) = enable s" "total_slot_count (mod_stats f s) = total_slot_count s"
  by (simp_all add: mod_stats_def)

lemma mod_stats_mac_fields [simp]:
  fixes s :: "'a mac_scheme"
  shows "mhBackoff (mod_stats f s) = mhBackoff s" "pktFI (mod_stats f s) = pktFI s"
    "mhSlot (mod_stats f s) = mhSlot s" "clock (mod_stats f s) = clock s" "out (mod_stats f s) = out s"
    "index (mod_stats f s) = index s" "slot_time (mod_stats f s) = slot_time s"
  by (simp_all add: mod_stats_def)

lemma emit_fields [simp]:
  "global_sti (emit es s) = global_sti s" "node_state (emit es s) = node_state s"
  "max_slot_num (emit es s) = max_slot_num s" "slot_num (emit es s) = slot_num s"
  "slot_adj_candidate (emit es s) = slot_adj_candidate s" "slot_count (emit es s) = slot_count s"
  "bch_slot_lock (emit es s) = bch_slot_lock s" "mhBackoff (emit es s) = mhBackoff s"
  "pktFI (emit es s) = pktFI s" "stats (emit es s) = stats s" "enable (emit es s) = enable s"
  "mhSlot (emit es s) = mhSlot s" "out (emit es s) = out s @ es" "clock (emit es s) = clock s"
  "total_slot_count (emit es s) = total_slot_count s"
  by (simp_all add: emit_def)

lemma kept_update [simp]:
  "kept s (t\<lparr>node_state := a\<rparr>) = kept s t" "kept s (t\<lparr>slot_num := b\<rparr>) = kept s t"
  "kept s (t\<lparr>slot_adj_candidate := b\<rparr>) = kept s t" "kept s (t\<lparr>stats := f\<rparr>) = kept s t"
  "kept s (t\<lparr>rand_count := g\<rparr>) = kept s t" "kept s (t\<lparr>testmode_init_flag := h\<rparr>) = kept s t"
  "kept s (t\<lparr>backoff_frame_num := b\<rparr>) = kept s t" "kept s (t\<lparr>bch_slot_lock := b\<rparr>) = kept s t"
  "kept s (t\<lparr>max_slot_num := b\<rparr>) = kept s t" "kept s (t\<lparr>adj_free_threshold := b\<rparr>) = kept s t"
  "kept s (t\<lparr>mhBackoff := i\<rparr>) = kept s t" "kept s (t\<lparr>pktFI := j\<rparr>) = kept s t"
  "kept s (t\<lparr>out := k\<rparr>) = kept s t" "kept s (t\<lparr>last_log_time := l\<rparr>) = kept s t"
  "kept s (set_tags ts t) = kept s t" "kept s (mod_stats m t) = kept s t" "kept s (emit es t) = kept s t"
  by (simp_all add: kept_def link_same_def mod_stats_def emit_def)

lemma kept_from_update [simp]:
  "kept (s\<lparr>node_state := a\<rparr>) t = kept s t" "kept (s\<lparr>slot_num := b\<rparr>) t = kept s t"
  "kept (s\<lparr>slot_adj_candidate := b\<rparr>) t = kept s t" "kept (s\<lparr>pktFI := j\<rparr>) t = kept s t"
  "kept (s\<lparr>bch_slot_lock := b\<rparr>) t = kept s t" "kept (mod_stats m s) t = kept s t"
  "kept (emit es s) t = kept s t" "kept (set_tags ts s) t = kept s t"
  by (simp_all add: kept_def link_same_def mod_stats_def emit_def)

text \<open>\<open>table_only s s'\<close>: only the slot table and the frame length changed.\<close>

definition table_only :: "'a mac_scheme \<Rightarrow> 'a mac_scheme \<Rightarrow> bool" where
  "table_only s s' \<longleftrightarrow> kept s s' \<and> node_state s' = node_state s \<and> slot_num s' = slot_num s \<and>
     slot_adj_candidate s' = slot_adj_candidate s \<and> bch_slot_lock s' = bch_slot_lock s \<and>
     stats s' = stats s \<and> mhBackoff s' = mhBackoff s \<and> pktFI s' = pktFI s \<and> out s' = out s \<and>
     max_slot_num s \<le> max_slot_num s'"

lemma table_only_set_tags [simp]: "table_only s (set_tags ts s)"
  by (simp add: table_only_def)

lemma table_only_trans: "table_only s s' \<Longrightarrow> table_only s' s'' \<Longrightarrow> table_only s s''"
  using kept_trans by (auto simp: table_only_def)

lemma same_node_table_only: "same_node s s' \<Longrightarrow> table_only s s'"
  by (auto simp: same_node_def table_only_def)

lemma same_node_core:
  assumes "core e s" and "table_ok s'" and "same_node s s'"
  shows "core e s'"
  using assms by (auto simp: core_def same_node_def received_ok_def frame_inv_def)

section \<open>What the parts do\<close>

lemma core_set_tags:
  "core e s \<Longrightarrow> length ts = length (tags s) \<Longrightarrow> \<forall>t \<in> set ts. tag_ok t \<Longrightarrow> core e (set_tags ts s)"
  by (simp add: core_def table_ok_set_tags received_ok_def frame_inv_def)

lemma core_slot:
  assumes "core e s" and "0 \<le> i" and "i < max_slot_num s \<or> i < max_frame_len"
  shows "nat i < length (tags s)" "tag_at s i = Some (tags s ! nat i)" "tag_ok (tags s ! nat i)"
proof -
  show l: "nat i < length (tags s)" using assms by (auto simp: core_def table_ok_def)
  then show "tag_at s i = Some (tags s ! nat i)"
    using array_get_in [of "nat i" "tags s"] assms(2) by (simp add: tag_at_def)
  show "tag_ok (tags s ! nat i)" using assms(1) l by (simp add: core_def table_ok_def)
qed

lemma core_len: "core e s \<Longrightarrow> max_slot_num s \<le> max_frame_len"
  by (simp add: core_def table_ok_def)

lemma mod_tag_spec:
  assumes "core e s" and "0 \<le> i" and "i < max_slot_num s \<or> i < max_frame_len"
    and "\<And>t. tag_ok t \<Longrightarrow> tag_ok (f t)"
  shows "mod_tag i f s = Some (set_tags ((tags s)[nat i := f (tags s ! nat i)]) s)"
    and "core e (set_tags ((tags s)[nat i := f (tags s ! nat i)]) s)"
proof -
  note c = core_slot [OF assms(1-3)]
  show "mod_tag i f s = Some (set_tags ((tags s)[nat i := f (tags s ! nat i)]) s)"
    using array_mod_in [of "nat i" "tags s" f] c(1) assms(2) by (simp add: mod_tag_def)
  show "core e (set_tags ((tags s)[nat i := f (tags s ! nat i)]) s)"
    using assms c by (intro core_set_tags ball_list_update) (auto simp: core_def table_ok_def)
qed

lemma synthesize_spec:
  assumes "core e s"
  shows "succeeds (synthesize_fi_list (cfg e) s) (\<lambda>s'. core e s' \<and> table_only s s')"
  using synthesize_total [of s "cfg e"] assms same_node_core [OF assms] same_node_table_only
  by (fastforce simp: succeeds_iff core_def)

lemma clear_others_spec:
  assumes "core e s"
  shows "succeeds (clear_others_slot_status s) (\<lambda>s'. core e s' \<and> table_only s s')"
proof -
  let ?ts = "map_range (max_slot_num s) (\<lambda>_. clear_others_tag (global_sti s)) (tags s)"
  have "clear_others_slot_status s = Some (set_tags ?ts s)"
    using for_range_array_mod [of "max_slot_num s" "tags s" "\<lambda>_. clear_others_tag (global_sti s)"] assms
    by (simp add: clear_others_slot_status_def core_def table_ok_def)
  moreover have "\<forall>t \<in> set ?ts. tag_ok t"
    using assms tagok.P_clear by (intro ball_map_range) (auto simp: core_def table_ok_def)
  ultimately show ?thesis using assms by (simp add: core_set_tags)
qed

lemma update_table_spec:
  assumes "core e s"
  shows "succeeds (update_table e s) (\<lambda>s'. core e s' \<and> table_only s s')"
proof -
  have "succeeds (if \<not> slot_memory (cfg e) then clear_others_slot_status s else Some s)
      (\<lambda>s'. core e s' \<and> table_only s s')"
    using clear_others_spec [OF assms] assms table_only_set_tags [of s "tags s"] by simp
  then show ?thesis
    unfolding update_table_def succeeds_simps clear_2hop_slot_status_def
    by (rule succeeds_mono) (use synthesize_spec table_only_trans in \<open>blast intro: succeeds_mono\<close>)
qed

lemma clear_FI_spec: "core e s \<Longrightarrow> core e (clear_FI s) \<and> table_only s (clear_FI s)"
  by (simp add: core_def clear_FI_def table_ok_def tags_def received_ok_def frame_inv_def tag_ok_def
      new_slot_tag_def table_only_def kept_def link_same_def)

text \<open>\<open>env_ok\<close>: the test mode, which bypasses the choice of a slot, is off.\<close>

definition env_ok :: "env \<Rightarrow> bool" where
  "env_ok e \<longleftrightarrow> choose_bch_random_switch (cfg e) \<noteq> 2 \<and> 0 \<le> SIFSTime (ph e)"

lemma determine_spec:
  assumes "core e s" and "env_ok e"
  shows "succeeds (determine_BCH (cfg e) (rnd e) strict s)
    (\<lambda>(k, s'). core e s' \<and> table_only s s' \<and> tags s' = tags s \<and> max_slot_num s' = max_slot_num s \<and>
       bch_choice strict s k)"
proof -
  have "chosen s (bch_choice strict s) (determine_BCH (cfg e) (rnd e) strict s)"
    using assms by (intro determine_BCH_chosen) (simp_all add: core_def env_ok_def test_mode_def)
  then show ?thesis
    using assms by (auto simp: chosen_def choice_state_def succeeds_iff table_only_def)
qed

text \<open>The slot \<open>i\<close> belongs to this node or to nobody, by the node's own table.\<close>

definition slot_ours :: "'a tdma_scheme \<Rightarrow> int \<Rightarrow> bool" where
  "slot_ours s i \<longleftrightarrow> sti (tags s ! nat i) = global_sti s \<or> sti (tags s ! nat i) = 0"

lemma slot_ours_update [simp]:
  "slot_ours (s\<lparr>node_state := a\<rparr>) i = slot_ours s i" "slot_ours (s\<lparr>slot_num := b\<rparr>) i = slot_ours s i"
  "slot_ours (s\<lparr>slot_adj_candidate := b\<rparr>) i = slot_ours s i"
  "slot_ours (s\<lparr>bch_slot_lock := b\<rparr>) i = slot_ours s i" "slot_ours (mod_stats f s) i = slot_ours s i"
  by (simp_all add: slot_ours_def)

lemma slot_ours_mod:
  assumes "slot_ours s i" and "sti (f (tags s ! nat k)) = global_sti s \<or> sti (f (tags s ! nat k)) = 0"
    and "nat i < length (tags s)"
  shows "slot_ours (set_tags ((tags s)[nat k := f (tags s ! nat k)]) s) i"
  using assms by (cases "nat k = nat i") (auto simp: slot_ours_def)

lemma tag_ok_ops [simp, intro]:
  "tag_ok (own_tag me t)" "tag_ok (free_tag t)" "tag_ok (t\<lparr>locker := b\<rparr>) = tag_ok t"
  "tag_ok t \<Longrightarrow> tag_ok (release_tag me t)"
  by (simp_all add: tag_ok_def own_tag_def free_tag_def release_tag_def)

lemma sti_ops [simp]: "sti (own_tag me t) = me" "sti (free_tag t) = 0" "sti (sent_tag me t) = sti t"
  by (simp_all add: own_tag_def free_tag_def sent_tag_def)

text \<open>An FI packet is waiting for the end of the interframe space.\<close>

definition FI_ready :: "env \<Rightarrow> 'a mac_scheme \<Rightarrow> bool" where
  "FI_ready e s \<longleftrightarrow> (\<exists>p. pktFI s = Some p \<and>
       txtime (cmn p) = DATA_Time (ph e) (fi_size (max_slot_num s) + PHY_TDMA_Overhead (ph e))) \<and>
     \<not> t_paused (mhBackoff s) \<and>
     stime (mhBackoff s) + rtime (mhBackoff s) + difs_wait (mhBackoff s) = clock s + SIFSTime (ph e)"

lemma FI_ready_update [simp]:
  "FI_ready e (s\<lparr>node_state := a\<rparr>) = FI_ready e s" "FI_ready e (s\<lparr>bch_slot_lock := b\<rparr>) = FI_ready e s"
  by (simp_all add: FI_ready_def)

lemma prepare_FI_spec:
  assumes "core e s" and "env_ok e" and "\<not> t_busy (mhBackoff s)"
  shows "succeeds (prepare_FI e s) (\<lambda>s'. core e s' \<and> kept s s' \<and> node_state s' = node_state s \<and>
    slot_num s' = slot_num s \<and> slot_adj_candidate s' = slot_adj_candidate s \<and>
    bch_slot_lock s' = bch_slot_lock s \<and> max_slot_num s' = max_slot_num s \<and>
    FI_ready e s' \<and> t_busy (mhBackoff s') \<and> (\<forall>i. nat i < length (tags s) \<longrightarrow> slot_ours s i \<longrightarrow> slot_ours s' i))"
proof -
  have t: "table_ok s" using assms(1) by (simp add: core_def)
  let ?ts = "map_range (max_slot_num s) (\<lambda>_. sent_tag (global_sti s)) (tags s)"
  from generate_FI_code_spec [OF t] obtain code where
    code: "generate_FI_code s = Some (code, (set_tags ?ts s)
      \<lparr>stats := (stats s)\<lparr>send_fi_count := send_fi_count (stats s) + 1\<rparr>\<rparr>)"
    by (auto simp: sent_state_def)
  have "\<forall>t \<in> set ?ts. tag_ok t"
    using t by (intro ball_map_range) (auto simp: table_ok_def tag_ok_def sent_tag_def)
  then have c: "core e (set_tags ?ts s)" using assms(1) by (simp add: core_set_tags)
  have own: "slot_ours (set_tags ?ts s) i" if "nat i < length (tags s)" "slot_ours s i" for i
    using that by (simp add: slot_ours_def)
  show ?thesis
    using assms(2,3) c own
    by (simp add: prepare_FI_def generate_FI_packet_def code start_backoff_def backoff_start_def env_ok_def
        Let_def slot_ours_def FI_ready_def mgmt_cmn_def)
qed

lemma choose_again_spec:
  assumes "core e s" and "env_ok e"
  shows "succeeds (choose_again e s) (\<lambda>s'. core e s' \<and> kept s s' \<and> tags s' = tags s \<and>
    mhBackoff s' = mhBackoff s \<and> pktFI s' = pktFI s \<and> out s' = out s \<and> max_slot_num s' = max_slot_num s \<and>
    (node_state s' = NODE_LISTEN \<and> slot_num s' = slot_count s \<or>
     node_state s' = NODE_WAIT_REQUEST \<and> bch_choice False s (slot_num s') \<and> 0 \<le> slot_num s' \<and>
     slot_num s' \<noteq> slot_count s))"
  unfolding choose_again_def succeeds_simps
proof (rule succeeds_mono [OF determine_spec [OF assms]], clarify)
  fix k s1
  assume "core e s1" "table_only s s1" "tags s1 = tags s" "max_slot_num s1 = max_slot_num s"
    "bch_choice False s k"
  then show "succeeds (if k < 0 \<or> k = slot_count s1 then
       let (b, s2) = random_mod (rnd e) 20 s1 in
       Some (mod_stats (\<lambda>x. x\<lparr>no_avalible_count := no_avalible_count x + 1\<rparr>)
         (s2\<lparr>slot_num := slot_count s2, node_state := NODE_LISTEN, backoff_frame_num := b\<rparr>))
     else Some (s1\<lparr>slot_num := k, node_state := NODE_WAIT_REQUEST\<rparr>))
     (\<lambda>s'. core e s' \<and> kept s s' \<and> tags s' = tags s \<and>
    mhBackoff s' = mhBackoff s \<and> pktFI s' = pktFI s \<and> out s' = out s \<and> max_slot_num s' = max_slot_num s \<and>
    (node_state s' = NODE_LISTEN \<and> slot_num s' = slot_count s \<or>
     node_state s' = NODE_WAIT_REQUEST \<and> bch_choice False s (slot_num s') \<and> 0 \<le> slot_num s' \<and>
     slot_num s' \<noteq> slot_count s))"
    by (intro succeeds_if) (auto simp: random_mod_def table_only_def keptD)
qed

section \<open>The protocol machine\<close>

inductive node_step :: "node_state \<Rightarrow> node_state \<Rightarrow> bool" where
  start: "node_step NODE_INIT NODE_LISTEN"
| listen: "node_step NODE_LISTEN NODE_LISTEN"
| claim: "node_step NODE_LISTEN NODE_REQUEST"
| plan: "node_step NODE_LISTEN NODE_WAIT_REQUEST"
| request: "node_step NODE_WAIT_REQUEST NODE_REQUEST"
| confirm: "node_step NODE_REQUEST NODE_WORK_FI"
| work: "node_step NODE_WORK_FI NODE_WORK_FI"
| adjust: "node_step NODE_WORK_FI NODE_WORK_ADJ"
| adjusted: "node_step NODE_WORK_ADJ NODE_WORK_FI"
| lost: "a \<in> {NODE_WAIT_REQUEST, NODE_REQUEST, NODE_WORK_FI, NODE_WORK_ADJ} \<Longrightarrow> node_step a NODE_LISTEN"
| rechoose: "a \<in> {NODE_WAIT_REQUEST, NODE_REQUEST, NODE_WORK_FI, NODE_WORK_ADJ} \<Longrightarrow>
    node_step a NODE_WAIT_REQUEST"

inductive_simps node_step_simps [simp]:
  "node_step NODE_INIT b" "node_step NODE_LISTEN b" "node_step NODE_WAIT_REQUEST b"
  "node_step NODE_REQUEST b" "node_step NODE_WORK_FI b" "node_step NODE_WORK_ADJ b"

definition adj_ok :: "'a tdma_scheme \<Rightarrow> bool" where
  "adj_ok s \<longleftrightarrow>
     (node_state s = NODE_WORK_ADJ \<longrightarrow> 0 \<le> slot_adj_candidate s \<and> slot_adj_candidate s < max_frame_len)"

text \<open>With a fixed frame length the slots the node holds are slots of the frame.\<close>

definition nums_ok :: "tdma_cfg \<Rightarrow> 'a tdma_scheme \<Rightarrow> bool" where
  "nums_ok c s \<longleftrightarrow> adj_frame_ena c \<or> slot_num s < max_slot_num s \<and>
     (node_state s = NODE_WORK_ADJ \<longrightarrow> slot_adj_candidate s < max_slot_num s)"

definition sending_ok :: "env \<Rightarrow> 'a mac_scheme \<Rightarrow> bool" where
  "sending_ok e s \<longleftrightarrow> (t_busy (mhBackoff s) \<longrightarrow> FI_ready e s \<and>
     node_state s \<in> {NODE_REQUEST, NODE_WORK_FI, NODE_WORK_ADJ} \<and> slot_ours s (slot_count s))"

definition action_pre :: "env \<Rightarrow> 'a mac_scheme \<Rightarrow> bool" where
  "action_pre e s \<longleftrightarrow> core e s \<and> env_ok e \<and> \<not> t_busy (mhBackoff s) \<and> 0 \<le> slot_count s \<and>
     slot_count s < max_slot_num s \<and> slot_count s = slot_num s \<and> adj_ok s \<and> nums_ok (cfg e) s"

definition action_post :: "env \<Rightarrow> node_state \<Rightarrow> 'a mac_scheme \<Rightarrow> 'a mac_scheme \<Rightarrow> bool" where
  "action_post e a s s' \<longleftrightarrow> core e s' \<and> kept s s' \<and> adj_ok s' \<and> nums_ok (cfg e) s' \<and>
     node_step a (node_state s') \<and> sending_ok e s'"

lemma nums_ok_update [simp]:
  "nums_ok c (mod_stats f s) = nums_ok c s" "nums_ok c (set_tags ts s) = nums_ok c s"
  "nums_ok c (s\<lparr>bch_slot_lock := b\<rparr>) = nums_ok c s"
  by (simp_all add: nums_ok_def)

lemma table_only_nums: "table_only s s' \<Longrightarrow> nums_ok c s \<Longrightarrow> nums_ok c s'"
  by (auto simp: table_only_def nums_ok_def)

text \<open>A slot is announced: the FI packet is built and the backoff timer runs.\<close>

lemma announce_post:
  assumes "core e s" and "env_ok e" and "\<not> t_busy (mhBackoff s)" and "slot_ours s (slot_count s)"
    and "0 \<le> slot_count s" and "slot_count s < max_frame_len"
    and "node_state s \<in> {NODE_REQUEST, NODE_WORK_FI, NODE_WORK_ADJ}" and "adj_ok s"
    and "nums_ok (cfg e) s"
  shows "succeeds (prepare_FI e s) (\<lambda>s'. core e s' \<and> kept s s' \<and> node_state s' = node_state s \<and> adj_ok s' \<and>
    nums_ok (cfg e) s' \<and> sending_ok e s' \<and> bch_slot_lock s' = bch_slot_lock s)"
  using core_slot(1) [OF assms(1,5)] assms
  by (intro succeeds_mono [OF prepare_FI_spec [OF assms(1-3)]]) (auto simp: adj_ok_def sending_ok_def nums_ok_def keptD)

lemma again_post:
  assumes "core e s" and "env_ok e" and "\<not> t_busy (mhBackoff s)"
    and "slot_count s < max_slot_num s"
    and "a \<in> {NODE_WAIT_REQUEST, NODE_REQUEST, NODE_WORK_FI, NODE_WORK_ADJ}"
  shows "succeeds (choose_again e s) (action_post e a s)"
  using assms
  by (intro succeeds_mono [OF choose_again_spec [OF assms(1,2)]])
    (auto simp: action_post_def adj_ok_def sending_ok_def nums_ok_def bch_choice_def intro: node_step.intros)

lemma action_post_kept: "action_post e a t s' \<Longrightarrow> kept s t \<Longrightarrow> action_post e a s s'"
  using kept_trans by (auto simp: action_post_def)

lemma succeeds_kept: "succeeds x (action_post e a t) \<Longrightarrow> kept s t \<Longrightarrow> succeeds x (action_post e a s)"
  by (erule succeeds_mono) (rule action_post_kept)

lemma slot_init_post: "action_pre e s \<Longrightarrow> action_post e NODE_INIT s (slot_init s)"
  by (simp add: action_pre_def action_post_def slot_init_def adj_ok_def sending_ok_def nums_ok_def)

lemma adj_ok_other [simp]: "node_state s \<noteq> NODE_WORK_ADJ \<Longrightarrow> adj_ok s"
  by (simp add: adj_ok_def)

text \<open>Marking the current slot as the node's own and announcing it.\<close>

lemma own_announce_post:
  assumes "core e s" and "env_ok e" and "\<not> t_busy (mhBackoff s)" and "0 \<le> slot_count s"
    and "slot_count s < max_frame_len" and "node_step a NODE_REQUEST"
    and "adj_frame_ena (cfg e) \<or> slot_num s < max_slot_num s"
  shows "succeeds (Option.bind (mod_tag (slot_count s) (own_tag (global_sti s)) s) (\<lambda>s1.
      Option.bind (prepare_FI e s1) (\<lambda>s2. Some (s2\<lparr>node_state := NODE_REQUEST\<rparr>)))) (action_post e a s)"
proof -
  let ?s1 = "set_tags ((tags s)[nat (slot_count s) := own_tag (global_sti s) (tags s ! nat (slot_count s))]) s"
  have m: "mod_tag (slot_count s) (own_tag (global_sti s)) s = Some ?s1" and c: "core e ?s1"
    using mod_tag_spec [OF assms(1,4)] assms(5) by auto
  have l: "nat (slot_count s) < length (tags s)" using core_slot(1) [OF assms(1,4)] assms(5) by blast
  then have o: "slot_ours ?s1 (slot_count s)" by (simp add: slot_ours_def)
  have "succeeds (prepare_FI e ?s1) (\<lambda>s2. action_post e a s (s2\<lparr>node_state := NODE_REQUEST\<rparr>))"
    using c assms(2,3,6,7) o l
    by (intro succeeds_mono [OF prepare_FI_spec [OF c]])
      (auto simp: action_post_def sending_ok_def nums_ok_def keptD)
  then show ?thesis by (simp add: m)
qed

lemma listen_choose_post:
  assumes "core e s" and "env_ok e" and "\<not> t_busy (mhBackoff s)" and "0 \<le> slot_count s"
    and "slot_count s < max_slot_num s"
  shows "succeeds (listen_choose e s) (action_post e NODE_LISTEN s)"
  unfolding listen_choose_def succeeds_simps
proof (rule succeeds_mono [OF determine_spec [OF assms(1,2)]], clarsimp split del: if_split)
  fix k s2
  assume c: "core e s2" and t: "table_only s s2" and ch: "bch_choice False s k"
  have len: "slot_count s < max_frame_len" using core_len [OF assms(1)] assms(5) by simp
  have kl: "k < max_slot_num s" using ch assms(4,5) by (auto simp: bch_choice_def split: if_splits)
  note k = t [unfolded table_only_def]
  have sc: "slot_count s2 = slot_count s" using k by (blast dest: keptD)
  have "action_post e NODE_LISTEN s (mod_stats f (s2\<lparr>rand_count := n, node_state := NODE_LISTEN,
      slot_num := slot_count s2, backoff_frame_num := b\<rparr>))" for f n b
    using c k sc assms(3,5) by (simp add: action_post_def sending_ok_def nums_ok_def)
  moreover have "action_post e NODE_LISTEN s (s2\<lparr>slot_num := k, node_state := NODE_WAIT_REQUEST\<rparr>)"
    using c k kl assms(3) by (simp add: action_post_def sending_ok_def nums_ok_def)
  moreover have "succeeds (Option.bind (mod_tag (slot_count s2) (own_tag (global_sti s2)) (s2\<lparr>slot_num := k\<rparr>))
      (\<lambda>s3. Option.bind (prepare_FI e s3) (\<lambda>s4. Some (s4\<lparr>node_state := NODE_REQUEST\<rparr>))))
      (action_post e NODE_LISTEN s)"
    using own_announce_post [of e "s2\<lparr>slot_num := k\<rparr>" NODE_LISTEN, THEN succeeds_kept, of s] c k assms kl len
    by (simp add: sc del: succeeds_simps)
  ultimately show "succeeds (if k < 0 then let (b, s3) = random_mod (rnd e) 20 s2 in
       Some (mod_stats (\<lambda>x. x\<lparr>no_avalible_count := no_avalible_count x + 1\<rparr>)
         (s3\<lparr>node_state := NODE_LISTEN, slot_num := slot_count s3, backoff_frame_num := b\<rparr>))
     else if k = slot_count s2 then Option.bind (mod_tag (slot_count s2) (own_tag (global_sti s2)) (s2\<lparr>slot_num := k\<rparr>))
      (\<lambda>s3. Option.bind (prepare_FI e s3) (\<lambda>s4. Some (s4\<lparr>node_state := NODE_REQUEST\<rparr>)))
     else Some (s2\<lparr>slot_num := k, node_state := NODE_WAIT_REQUEST\<rparr>)) (action_post e NODE_LISTEN s)"
    by (intro succeeds_if) (simp_all add: random_mod_def del: succeeds_simps(3))
qed

text \<open>The shape of the three states that hold a slot: update the table, then act on the own slot.\<close>

lemma after_update:
  assumes "core e s" and "0 \<le> slot_count s" and "slot_count s < max_slot_num s"
    and "\<And>s' t. core e s' \<Longrightarrow> table_only s s' \<Longrightarrow> slot_count s' = slot_count s \<Longrightarrow>
      slot_count s < max_slot_num s' \<Longrightarrow> tag_at s' (slot_count s') = Some t \<Longrightarrow>
      t = tags s' ! nat (slot_count s) \<Longrightarrow> succeeds (f s' t) P"
  shows "succeeds (Option.bind (update_table e s) (\<lambda>s'. Option.bind (tag_at s' (slot_count s')) (f s'))) P"
  unfolding succeeds_simps
proof (rule succeeds_mono [OF update_table_spec [OF assms(1)]], elim conjE)
  fix s' assume c: "core e s'" and t: "table_only s s'"
  have sc: "slot_count s' = slot_count s" using t by (auto simp: table_only_def dest: keptD)
  have m: "slot_count s < max_slot_num s'" using t assms(3) by (simp add: table_only_def)
  have "tag_at s' (slot_count s') = Some (tags s' ! nat (slot_count s))"
    using core_slot(2) [OF c, of "slot_count s"] m assms(2) sc by simp
  then show "succeeds (tag_at s' (slot_count s')) (\<lambda>v. succeeds (f s' v) P)"
    using assms(4) [OF c t sc m] by simp
qed

lemma release_again_post:
  assumes "core e s" and "env_ok e" and "\<not> t_busy (mhBackoff s)" and "0 \<le> i" and "i < max_frame_len"
    and "slot_count s < max_slot_num s" and "a \<in> {NODE_WAIT_REQUEST, NODE_REQUEST, NODE_WORK_FI, NODE_WORK_ADJ}"
  shows "succeeds (Option.bind (mod_tag i (release_tag me) s)
      (\<lambda>s1. choose_again e (emit es (mod_stats f s1)))) (action_post e a s)"
proof -
  let ?s1 = "set_tags ((tags s)[nat i := release_tag me (tags s ! nat i)]) s"
  have "mod_tag i (release_tag me) s = Some ?s1" "core e ?s1"
    using mod_tag_spec [OF assms(1,4), of "release_tag me"] assms(5) by auto
  then show ?thesis
    using again_post [of e "emit es (mod_stats f ?s1)" a, THEN succeeds_kept, of s] assms by simp
qed

lemma slot_listen_post:
  assumes "action_pre e s" and "node_state s = NODE_LISTEN"
  shows "succeeds (slot_listen e s) (action_post e NODE_LISTEN s)"
proof (cases "backoff_frame_num s = 0")
  case True
  let ?s = "mod_stats (\<lambda>x. x\<lparr>waiting_frame_count := waiting_frame_count x + 1\<rparr>) s"
  have pre: "core e ?s" "env_ok e" "\<not> t_busy (mhBackoff ?s)" "0 \<le> slot_count ?s" "slot_count ?s < max_slot_num ?s"
    using assms by (auto simp: action_pre_def)
  have "succeeds (synthesize_fi_list (cfg e) (clear_FI ?s)) (\<lambda>s'. core e s' \<and> table_only ?s s')"
    using clear_FI_spec [OF pre(1)]
    by (intro succeeds_mono [OF synthesize_spec]) (auto intro: table_only_trans)
  then have "succeeds (synthesize_fi_list (cfg e) (clear_FI ?s))
      (\<lambda>s1. succeeds (listen_choose e s1) (action_post e NODE_LISTEN s))"
  proof (rule succeeds_mono, elim conjE)
    fix s1 assume "core e s1" "table_only ?s s1"
    moreover from this(2) have "slot_count s1 = slot_count s" by (auto simp: table_only_def dest: keptD)
    ultimately show "succeeds (listen_choose e s1) (action_post e NODE_LISTEN s)"
      using listen_choose_post [of e s1, THEN succeeds_kept, of s] pre by (simp add: table_only_def)
  qed
  then show ?thesis using True by (simp add: slot_listen_def)
next
  case False
  then show ?thesis using assms
    by (simp add: slot_listen_def action_pre_def action_post_def sending_ok_def nums_ok_def)
qed

lemma slot_wait_request_post:
  assumes "action_pre e s"
  shows "succeeds (slot_wait_request e s) (action_post e NODE_WAIT_REQUEST s)"
proof -
  let ?s = "mod_stats (\<lambda>x. x\<lparr>waiting_frame_count := waiting_frame_count x + 1\<rparr>) s"
  have pre: "core e ?s" "0 \<le> slot_count ?s" "slot_count ?s < max_slot_num ?s"
    using assms by (auto simp: action_pre_def)
  show ?thesis
    unfolding slot_wait_request_def
  proof (rule after_update [OF pre])
    fix s' t
    assume c: "core e s'" and t: "table_only ?s s'" and sc: "slot_count s' = slot_count ?s"
      and m: "slot_count ?s < max_slot_num s'"
    have k: "kept s s'" and b: "env_ok e" "\<not> t_busy (mhBackoff s')" "0 \<le> slot_count s'" "slot_count s' < max_frame_len"
      using t assms sc m core_len [OF c] by (auto simp: table_only_def action_pre_def)
    have n: "adj_frame_ena (cfg e) \<or> slot_num s' < max_slot_num s'" "slot_count s' < max_slot_num s'"
      using t assms sc m by (auto simp: table_only_def action_pre_def nums_ok_def)
    note own = own_announce_post [OF c b _ n(1), of NODE_WAIT_REQUEST, THEN succeeds_kept, OF _ k]
    note rel = release_again_post [OF c b n(2), of NODE_WAIT_REQUEST, THEN succeeds_kept, OF _ k]
    show "succeeds (if bch_usable (global_sti s') t then
         Option.bind (mod_tag (slot_count s') (own_tag (global_sti s')) s') (\<lambda>s1.
           Option.bind (prepare_FI e s1) (\<lambda>s2. Some (s2\<lparr>node_state := NODE_REQUEST\<rparr>)))
       else Option.bind (mod_tag (slot_count s') (release_tag (global_sti s')) s') (\<lambda>s1.
         choose_again e (emit [Trace]
           (mod_stats (\<lambda>x. x\<lparr>request_fail_times := request_fail_times x + 1\<rparr>) s1))))
       (action_post e NODE_WAIT_REQUEST s)"
      by (rule succeeds_if) (rule own rel; simp)+
  qed
qed

lemma slot_request_post:
  assumes "action_pre e s"
  shows "succeeds (slot_request e s) (action_post e NODE_REQUEST s)"
proof -
  have pre: "core e s" "0 \<le> slot_count s" "slot_count s < max_slot_num s"
    using assms by (auto simp: action_pre_def)
  show ?thesis
    unfolding slot_request_def
  proof (rule after_update [OF pre])
    fix s' t
    assume c: "core e s'" and t: "table_only s s'" and sc: "slot_count s' = slot_count s"
      and m: "slot_count s < max_slot_num s'" and at: "t = tags s' ! nat (slot_count s)"
    have k: "kept s s'" and b: "env_ok e" "\<not> t_busy (mhBackoff s')" "0 \<le> slot_count s'" "slot_count s' < max_frame_len"
      using t assms sc m core_len [OF c] by (auto simp: table_only_def action_pre_def)
    have ann: "succeeds (prepare_FI e (s'\<lparr>node_state := NODE_WORK_FI\<rparr>)) (action_post e NODE_REQUEST s)"
      if "bch_usable (global_sti s') t"
    proof (rule succeeds_mono [OF announce_post])
      show "slot_ours (s'\<lparr>node_state := NODE_WORK_FI\<rparr>) (slot_count (s'\<lparr>node_state := NODE_WORK_FI\<rparr>))"
        using that at sc by (auto simp: slot_ours_def bch_usable_def)
      show "nums_ok (cfg e) (s'\<lparr>node_state := NODE_WORK_FI\<rparr>)"
        using t assms m sc by (auto simp: nums_ok_def table_only_def action_pre_def)
    qed (use b c k kept_trans in \<open>auto simp: action_post_def\<close>)
    note rel = release_again_post [OF c b m [folded sc], of NODE_REQUEST, THEN succeeds_kept, OF _ k]
    show "succeeds (if bch_usable (global_sti s') t then prepare_FI e (s'\<lparr>node_state := NODE_WORK_FI\<rparr>)
       else Option.bind (mod_tag (slot_count s') (release_tag (global_sti s')) s') (\<lambda>s1.
         choose_again e (emit [Trace] (mod_stats (\<lambda>x. x\<lparr>waiting_frame_count := waiting_frame_count x + 1,
           request_fail_times := request_fail_times x + 1\<rparr>) s1))))
       (action_post e NODE_REQUEST s)"
      by (rule succeeds_if) (rule ann rel; simp)+
  qed
qed

lemma adjFrameLen_spec:
  assumes "core e s"
  shows "\<exists>m n. adjFrameLen (cfg e) s = Some (s\<lparr>max_slot_num := m, adj_free_threshold := n\<rparr>) \<and>
    core e (s\<lparr>max_slot_num := m, adj_free_threshold := n\<rparr>) \<and> (adj_frame_ena (cfg e) \<or> m = max_slot_num s)"
proof (cases "adj_frame_ena (cfg e)")
  case True
  from assms True have t: "table_ok s" "frame_bounds_ok (cfg e)" "frame_len_ok (cfg e) (max_slot_num s)"
    by (auto simp: core_def frame_inv_def)
  from adjFrameLen_cases [OF t(1) True] obtain m where
    m: "adjFrameLen (cfg e) s = Some (s\<lparr>max_slot_num := m, adj_free_threshold := 5\<rparr>)"
      "m = max_slot_num s \<or> m = max_slot_num s * 2 \<and> max_slot_num s < adj_frame_upper_bound (cfg e) \<or>
       m = max_slot_num s div 2 \<and> adj_frame_lower_bound (cfg e) < max_slot_num s \<and> upper_half_free s" by blast
  have f: "frame_len_ok (cfg e) m"
    using m(2) t(3) frame_len_double [OF t(2,3)] frame_len_halve [OF t(2,3)] by auto
  then have "0 < m" by (auto simp: frame_len_ok_def)
  moreover have "m \<le> max_frame_len" using f t(2) by (auto simp: frame_len_ok_def frame_bounds_ok_def)
  ultimately have "core e (s\<lparr>max_slot_num := m, adj_free_threshold := 5\<rparr>)"
    using assms f True by (auto simp: core_def table_ok_def frame_inv_def received_ok_def)
  with m(1) True show ?thesis by blast
next
  case False
  then show ?thesis using assms by (intro exI [of _ "max_slot_num s"] exI [of _ "adj_free_threshold s"])
    (simp add: adjFrameLen_disabled)
qed

lemma adjust_is_needed_total:
  assumes "core e s" and "0 \<le> i" and "i < max_slot_num s"
  shows "\<exists>b. adjust_is_needed (cfg e) i s = Some b"
  using adjust_loop [of s] core_slot(2) [OF assms(1,2)] assms table_ok_bounds [of s]
  by (simp add: adjust_is_needed_def core_def)

text \<open>What a working node does before it announces its slot.\<close>

definition work_post :: "env \<Rightarrow> 'a mac_scheme \<Rightarrow> 'a mac_scheme \<Rightarrow> bool" where
  "work_post e s s' \<longleftrightarrow> core e s' \<and> kept s s' \<and> mhBackoff s' = mhBackoff s \<and>
     bch_slot_lock s' = bch_slot_lock s \<and> node_state s' \<in> {NODE_WORK_FI, NODE_WORK_ADJ} \<and> adj_ok s' \<and>
     nums_ok (cfg e) s' \<and> slot_ours s' (slot_count s)"

lemma take_candidate_post:
  assumes "core e s" and "0 \<le> slot_count s" and "slot_count s < max_slot_num s" and "0 \<le> k"
    and "k < max_slot_num s" and "slot_adj_candidate s = k" and "slot_ours s (slot_count s)" and "adj_frame_ena (cfg e) \<or> slot_num s < max_slot_num s"
  shows "succeeds (take_candidate e k s) (work_post e s)"
proof (cases "adj_single_slot_ena (cfg e)")
  case True
  let ?s1 = "mod_stats (\<lambda>x. x\<lparr>adj_count_success := adj_count_success x + 1\<rparr>)
    (s\<lparr>node_state := NODE_WORK_FI, slot_num := k\<rparr>)"
  let ?f = "\<lambda>t. (free_tag t)\<lparr>locker := False\<rparr>"
  let ?s2 = "set_tags ((tags s)[nat (slot_count s) := ?f (tags s ! nat (slot_count s))]) ?s1"
  let ?s3 = "set_tags ((tags ?s2)[nat k := own_tag (global_sti s) (tags ?s2 ! nat k)]) ?s2"
  have c1: "core e ?s1" using assms(1) by simp
  have m1: "mod_tag (slot_count s) ?f ?s1 = Some ?s2" and c2: "core e ?s2"
    using mod_tag_spec [OF c1 assms(2), of ?f] assms(3) by simp_all
  have m2: "mod_tag k (own_tag (global_sti ?s2)) ?s2 = Some ?s3" and c3: "core e ?s3"
    using mod_tag_spec [OF c2 assms(4), of "own_tag (global_sti s)"] assms(5) by simp_all
  have l: "nat (slot_count s) < length (tags ?s2)" using core_slot(1) [OF assms(1,2)] assms(3) by simp
  have "slot_ours ?s2 (slot_count s)"
    using l by (simp add: slot_ours_def)
  then have "slot_ours ?s3 (slot_count s)"
    using slot_ours_mod [of ?s2 "slot_count s" "own_tag (global_sti s)" k] l by simp
  then show ?thesis
    using True m1 m2 c3 assms(5) by (simp add: take_candidate_def work_post_def nums_ok_def del: set_tags_set_tags)
next
  case False
  let ?s1 = "mod_stats (\<lambda>x. x\<lparr>adj_count_total := adj_count_total x + 1\<rparr>) (s\<lparr>node_state := NODE_WORK_ADJ\<rparr>)"
  let ?s2 = "set_tags ((tags ?s1)[nat k := own_tag (global_sti s) (tags ?s1 ! nat k)]) ?s1"
  have c1: "core e ?s1" using assms(1) by simp
  have m: "mod_tag k (own_tag (global_sti s)) ?s1 = Some ?s2" and c2: "core e ?s2"
    using mod_tag_spec [OF c1 assms(4), of "own_tag (global_sti s)"] assms(5) by simp_all
  have "slot_ours ?s2 (slot_count s)"
    using slot_ours_mod [of ?s1 "slot_count s" "own_tag (global_sti s)" k] assms(7)
      core_slot(1) [OF assms(1,2)] assms(3) by simp
  then show ?thesis
    using False m c2 assms(4-6,8) core_len [OF assms(1)]
    by (simp add: take_candidate_def work_post_def adj_ok_def nums_ok_def)
qed

lemma work_adjust_post:
  assumes "core e s" and "env_ok e" and "0 \<le> slot_count s" and "slot_count s < max_slot_num s"
    and "slot_num s = slot_count s" and "node_state s = NODE_WORK_FI" and "slot_ours s (slot_count s)"
  shows "succeeds (work_adjust e s) (work_post e s)"
proof -
  from adjust_is_needed_total [OF assms(1,3,4)] obtain b where
    b: "adjust_is_needed (cfg e) (slot_num s) s = Some b" using assms(5) by auto
  show ?thesis
  proof (cases b)
    case False
    then show ?thesis using adjFrameLen_spec [OF assms(1)] b assms
      by (auto simp: work_adjust_def work_post_def slot_ours_def nums_ok_def)
  next
    case True
    have "succeeds (determine_BCH (cfg e) (rnd e) True s) (\<lambda>(k, s1).
        succeeds (if 0 \<le> k then take_candidate e k (s1\<lparr>slot_adj_candidate := k\<rparr>)
          else Some (s1\<lparr>slot_adj_candidate := k\<rparr>)) (work_post e s))"
    proof (rule succeeds_mono [OF determine_spec [OF assms(1,2)]], clarify)
      fix k s1
      assume d: "core e s1" "table_only s s1" "tags s1 = tags s" "max_slot_num s1 = max_slot_num s" "bch_choice True s k"
      then have sc: "slot_count s1 = slot_count s" "global_sti s1 = global_sti s" by (auto simp: table_only_def dest: keptD)
      have o: "slot_ours s1 (slot_count s)" using assms(7) d(3) sc by (simp add: slot_ours_def)
      have "succeeds (take_candidate e k (s1\<lparr>slot_adj_candidate := k\<rparr>)) (work_post e s)" if "0 \<le> k"
        using take_candidate_post [of e "s1\<lparr>slot_adj_candidate := k\<rparr>" k] that d o sc assms
        by (auto simp: bch_choice_def table_only_def work_post_def elim!: succeeds_mono dest: kept_trans)
      moreover have "work_post e s (s1\<lparr>slot_adj_candidate := k\<rparr>)"
        using d o assms(4-6) by (simp add: work_post_def table_only_def nums_ok_def)
      ultimately show "succeeds (if 0 \<le> k then take_candidate e k (s1\<lparr>slot_adj_candidate := k\<rparr>)
          else Some (s1\<lparr>slot_adj_candidate := k\<rparr>)) (work_post e s)" by simp
    qed
    then show ?thesis using b True by (simp add: work_adjust_def case_prod_unfold Let_def)
  qed
qed

text \<open>
  The counter \<open>bch_slot_lock_\<close> keeps a single node in its slot; when it is zero, the node moves.
\<close>

lemma work_single_post:
  assumes "core e s" and "0 \<le> slot_count s" and "slot_count s < max_frame_len"
    and "\<not> random_bch_if_single_switch (cfg e) \<or> bch_slot_lock s \<noteq> 0"
  shows "succeeds (work_single e s) (\<lambda>s'. \<exists>b. s' = s\<lparr>bch_slot_lock := b\<rparr>)"
proof -
  have "\<exists>b. isSingle s = Some b"
    using assms(1) array_any_range [of "max_slot_num s" "tags s"]
    by (simp add: isSingle_def core_def table_ok_def)
  then show ?thesis using assms(4) by (auto simp: work_single_def)
qed

lemma work_send_post:
  assumes "core e s" and "env_ok e" and "\<not> t_busy (mhBackoff s)" and "0 \<le> slot_count s"
    and "slot_count s < max_slot_num s" and "slot_num s = slot_count s" and "node_state s = NODE_WORK_FI"
    and "slot_ours s (slot_count s)" and "\<not> random_bch_if_single_switch (cfg e) \<or> bch_slot_lock s \<noteq> 0"
  shows "succeeds (Option.bind (work_adjust e s) (\<lambda>s1. Option.bind (prepare_FI e s1) (work_single e)))
    (action_post e NODE_WORK_FI s)"
  unfolding succeeds_simps
proof (rule succeeds_mono [OF work_adjust_post [OF assms(1,2,4-8)]])
  fix s1 assume "work_post e s s1"
  then have s1: "core e s1" "kept s s1" "\<not> t_busy (mhBackoff s1)" "slot_count s1 = slot_count s"
    "node_state s1 \<in> {NODE_WORK_FI, NODE_WORK_ADJ}" "adj_ok s1" "slot_ours s1 (slot_count s1)"
    "bch_slot_lock s1 = bch_slot_lock s" "nums_ok (cfg e) s1"
    using assms(3) by (auto simp: work_post_def dest: keptD)
  have "succeeds (prepare_FI e s1) (\<lambda>s2. core e s2 \<and> kept s1 s2 \<and> node_state s2 = node_state s1 \<and>
      adj_ok s2 \<and> nums_ok (cfg e) s2 \<and> sending_ok e s2 \<and> bch_slot_lock s2 = bch_slot_lock s1)"
    using announce_post [OF s1(1) assms(2) s1(3,7)] s1 assms(4,5) core_len [OF assms(1)] by auto
  then show "succeeds (prepare_FI e s1) (\<lambda>v. succeeds (work_single e v) (action_post e NODE_WORK_FI s))"
  proof (rule succeeds_mono, elim conjE)
    fix s2
    assume s2: "core e s2" "kept s1 s2" "node_state s2 = node_state s1" "adj_ok s2" "nums_ok (cfg e) s2" "sending_ok e s2"
      "bch_slot_lock s2 = bch_slot_lock s1"
    then have "succeeds (work_single e s2) (\<lambda>s'. \<exists>b. s' = s2\<lparr>bch_slot_lock := b\<rparr>)"
      using work_single_post [OF s2(1)] s1 assms(4,5,9) core_len [OF assms(1)] by (auto dest: keptD)
    then show "succeeds (work_single e s2) (action_post e NODE_WORK_FI s)"
      by (rule succeeds_mono)
        (use s1(2,5) s2 kept_trans in \<open>auto simp: action_post_def adj_ok_def sending_ok_def\<close>)
  qed
qed

lemma slot_work_fi_post:
  assumes "action_pre e s" and "node_state s = NODE_WORK_FI"
    and "\<not> random_bch_if_single_switch (cfg e) \<or> bch_slot_lock s \<noteq> 0"
  shows "succeeds (slot_work_fi e s) (action_post e NODE_WORK_FI s)"
proof -
  have pre: "core e s" "0 \<le> slot_count s" "slot_count s < max_slot_num s"
    using assms(1) by (auto simp: action_pre_def)
  show ?thesis
    unfolding slot_work_fi_def
  proof (rule after_update [OF pre])
    fix s' t
    assume c: "core e s'" and t: "table_only s s'" and sc: "slot_count s' = slot_count s"
      and m: "slot_count s < max_slot_num s'" and at: "t = tags s' ! nat (slot_count s)"
    have k: "kept s s'" and b: "env_ok e" "\<not> t_busy (mhBackoff s')" "0 \<le> slot_count s'" "slot_count s' < max_frame_len"
      using t assms(1) sc m core_len [OF c] by (auto simp: table_only_def action_pre_def)
    let ?s1 = "mod_stats (\<lambda>x. x\<lparr>continuous_work_fi := continuous_work_fi x + 1,
      continuous_work_fi_max := max (continuous_work_fi_max x) (continuous_work_fi x + 1)\<rparr>) s'"
    have st: "node_state s' = NODE_WORK_FI" "slot_num s' = slot_count s'" "bch_slot_lock s' = bch_slot_lock s"
      using t assms sc by (auto simp: table_only_def action_pre_def)
    have work: "succeeds (Option.bind (work_adjust e ?s1) (\<lambda>s1. Option.bind (prepare_FI e s1) (work_single e)))
        (action_post e NODE_WORK_FI s)" if u: "bch_usable (global_sti s') t"
    proof -
      have "slot_ours ?s1 (slot_count ?s1)" using u at sc by (auto simp: slot_ours_def bch_usable_def)
      with work_send_post [of e ?s1, THEN succeeds_kept, of s] c b m sc st assms(3) k show ?thesis
        by (simp del: succeeds_simps)
    qed
    note rel = release_again_post [OF c b m [folded sc], of NODE_WORK_FI, THEN succeeds_kept, OF _ k]
    show "succeeds (if bch_usable (global_sti s') t then
        Option.bind (work_adjust e ?s1) (\<lambda>s1. Option.bind (prepare_FI e s1) (work_single e))
       else Option.bind (mod_tag (slot_count s') (release_tag (global_sti s')) s') (\<lambda>s1.
         choose_again e (emit [Trace] (mod_stats (\<lambda>x. x\<lparr>continuous_work_fi := 0,
         collision_count := collision_count x + 1\<rparr>) s1))))
       (action_post e NODE_WORK_FI s)"
      by (rule succeeds_if) (rule work rel; simp)+
  qed
qed

text \<open>A node that holds two slots keeps one of them.\<close>

lemma free_announce_post:
  assumes "core e s" and "env_ok e" and "\<not> t_busy (mhBackoff s)" and "slot_ours s (slot_count s)"
    and "0 \<le> slot_count s" and "slot_count s < max_frame_len" and "0 \<le> i" and "i < max_frame_len"
    and "node_state s = NODE_WORK_FI" and "adj_frame_ena (cfg e) \<or> slot_num s < max_slot_num s"
  shows "succeeds (Option.bind (mod_tag i (\<lambda>x. (free_tag x)\<lparr>locker := True\<rparr>) s) (prepare_FI e))
    (action_post e NODE_WORK_ADJ s)"
proof -
  let ?f = "\<lambda>x. (free_tag x)\<lparr>locker := True\<rparr>"
  let ?s1 = "set_tags ((tags s)[nat i := ?f (tags s ! nat i)]) s"
  have m: "mod_tag i ?f s = Some ?s1" and c: "core e ?s1"
    using mod_tag_spec [OF assms(1,7), of ?f] assms(8) by simp_all
  have "slot_ours ?s1 (slot_count ?s1)"
    using slot_ours_mod [of s "slot_count s" ?f i] assms(4) core_slot(1) [OF assms(1,5)] assms(6) by simp
  with announce_post [OF c assms(2)] assms(3,5,6,9,10) have
    "succeeds (prepare_FI e ?s1) (\<lambda>s'. core e s' \<and> kept ?s1 s' \<and> node_state s' = node_state ?s1 \<and>
       adj_ok s' \<and> nums_ok (cfg e) s' \<and> sending_ok e s' \<and> bch_slot_lock s' = bch_slot_lock ?s1)" by (simp add: nums_ok_def)
  then have "succeeds (prepare_FI e ?s1) (action_post e NODE_WORK_ADJ s)"
    by (rule succeeds_mono) (use assms(9) in \<open>auto simp: action_post_def\<close>)
  then show ?thesis by (simp add: m)
qed

lemma slot_work_adj_post:
  assumes "action_pre e s" and "node_state s = NODE_WORK_ADJ"
  shows "succeeds (slot_work_adj e s) (action_post e NODE_WORK_ADJ s)"
proof -
  have pre: "core e s" "0 \<le> slot_count s" "slot_count s < max_slot_num s"
    using assms(1) by (auto simp: action_pre_def)
  show ?thesis
    unfolding slot_work_adj_def Let_def
  proof (rule after_update [OF pre])
    fix s' t
    assume c: "core e s'" and t: "table_only s s'" and sc: "slot_count s' = slot_count s"
      and m: "slot_count s < max_slot_num s'" and at: "t = tags s' ! nat (slot_count s)"
    let ?me = "global_sti s'" and ?k = "slot_adj_candidate s'"
    have k: "kept s s'" and b: "env_ok e" "\<not> t_busy (mhBackoff s')" "0 \<le> slot_count s'" "slot_count s' < max_frame_len"
      and a: "0 \<le> ?k" "?k < max_frame_len" "slot_num s' = slot_count s'"
      and n: "adj_frame_ena (cfg e) \<or> slot_num s' < max_slot_num s' \<and> ?k < max_slot_num s'"
      using t assms sc m core_len [OF c] by (auto simp: table_only_def action_pre_def adj_ok_def nums_ok_def)
    have at_k: "tag_at s' ?k = Some (tags s' ! nat ?k)" using core_slot(2) [OF c a(1)] a(2) by blast
    let ?A = "tags s' ! nat ?k"
    let ?w = "mod_stats (\<lambda>x. x\<lparr>adj_count_success := adj_count_success x + 1\<rparr>)
      (s'\<lparr>node_state := NODE_WORK_FI, slot_num := ?k\<rparr>)"
    let ?f = "\<lambda>x. (free_tag x)\<lparr>locker := True\<rparr>"
    have o: "slot_ours s' (slot_count s')" if "bch_usable ?me t"
      using that at sc by (auto simp: slot_ours_def bch_usable_def)
    have move: "succeeds (Option.bind (mod_tag (slot_num s') ?f ?w) (prepare_FI e)) (action_post e NODE_WORK_ADJ s)"
      and stay: "succeeds (Option.bind (mod_tag ?k ?f (s'\<lparr>node_state := NODE_WORK_FI\<rparr>)) (prepare_FI e))
        (action_post e NODE_WORK_ADJ s)" if u: "bch_usable ?me t"
      using free_announce_post [of e ?w "slot_num s'", THEN succeeds_kept, of s]
        free_announce_post [of e "s'\<lparr>node_state := NODE_WORK_FI\<rparr>" ?k, THEN succeeds_kept, of s] o [OF u] c b a n k
      by (auto simp del: succeeds_simps)
    have take_adj: "action_post e NODE_WORK_ADJ s ?w"
      using c k b n by (auto simp: action_post_def sending_ok_def nums_ok_def)
    have lose: "succeeds (Option.bind (mod_tag ?k (release_tag ?me)
        (emit [Trace] (mod_stats (\<lambda>x. x\<lparr>collision_count := collision_count x + 1\<rparr>) s'))) (choose_again e))
        (action_post e NODE_WORK_ADJ s)"
      using release_again_post [of e "emit [Trace] (mod_stats (\<lambda>x. x\<lparr>collision_count := collision_count x + 1\<rparr>) s')"
          ?k NODE_WORK_ADJ ?me "[]" "\<lambda>x. x", THEN succeeds_kept, of s] c b a k m sc
      by (simp add: emit_def mod_stats_def del: succeeds_simps)
    show "succeeds (if bch_usable ?me t then
        Option.bind (tag_at s' ?k) (\<lambda>a. Option.bind
          (if count_3hop a \<le> count_3hop t \<and> bch_usable ?me a then mod_tag (slot_num s') ?f ?w
           else mod_tag ?k ?f (s'\<lparr>node_state := NODE_WORK_FI\<rparr>)) (prepare_FI e))
       else Option.bind (tag_at s' ?k) (\<lambda>a. if bch_usable ?me a then Some ?w
         else Option.bind (mod_tag ?k (release_tag ?me)
           (emit [Trace] (mod_stats (\<lambda>x. x\<lparr>collision_count := collision_count x + 1\<rparr>) s'))) (choose_again e)))
       (action_post e NODE_WORK_ADJ s)"
      using move stay take_adj lose by (simp add: at_k del: succeeds_simps(3))
  qed
qed

lemma slot_action_post:
  assumes "action_pre e s"
    and "\<not> random_bch_if_single_switch (cfg e) \<or> bch_slot_lock s \<noteq> 0"
  shows "succeeds (slot_action e s) (action_post e (node_state s) s)"
  using slot_init_post [OF assms(1)] slot_listen_post [OF assms(1)] slot_wait_request_post [OF assms(1)]
    slot_request_post [OF assms(1)] slot_work_fi_post [OF assms(1) _ assms(2)] slot_work_adj_post [OF assms(1)]
  by (cases "node_state s") (auto simp: slot_action_def)

section \<open>The whole handler\<close>

definition node_inv :: "env \<Rightarrow> 'a mac_scheme \<Rightarrow> bool" where
  "node_inv e s \<longleftrightarrow> core e s \<and> adj_ok s \<and> - 1 \<le> total_slot_count s \<and> 0 \<le> slot_time s \<and>
     (adj_frame_ena (cfg e) \<or> (enable s \<longrightarrow> slot_num s < max_slot_num s) \<and>
       (node_state s = NODE_WORK_ADJ \<longrightarrow> slot_adj_candidate s < max_slot_num s))"

lemma fade_list_frames:
  "fi \<in> set (fade_list t l) \<Longrightarrow> \<exists>fi0 \<in> set l. fi = fi0\<lparr>remain_time := remain_time fi0 - t\<rparr>"
  by (induction t l rule: fade_list.induct) (auto simp: Let_def split: if_splits)

lemma core_fade: "core e s \<Longrightarrow> core e (fade_received_fi_list t s)"
  by (fastforce simp: core_def fade_received_fi_list_def received_ok_def frame_inv_def table_ok_def frame_ok_def
      dest: fade_list_frames)

lemma c_rem_range: "0 \<le> a \<Longrightarrow> 0 < b \<Longrightarrow> 0 \<le> c_rem a b \<and> c_rem a b < b"
  by (simp add: c_rem_def)

text \<open>The state in which the slot's action is chosen.\<close>

definition begun :: "env \<Rightarrow> 'a mac_scheme \<Rightarrow> 'a mac_scheme \<Rightarrow> bool" where
  "begun e s s1 \<longleftrightarrow> core e s1 \<and> 0 \<le> slot_count s1 \<and> slot_count s1 < max_slot_num s1 \<and>
     slot_count s1 = c_rem (total_slot_count s + 1) (max_slot_num s) \<and>
     total_slot_count s1 = total_slot_count s + 1 \<and> max_slot_num s1 = max_slot_num s \<and>
     node_state s1 = node_state s \<and> slot_adj_candidate s1 = slot_adj_candidate s \<and>
     bch_slot_lock s1 = bch_slot_lock s \<and> mhBackoff s1 = mhBackoff s \<and> slot_time s1 = slot_time s \<and>
     t_busy (mhSlot s1) \<and> stime (mhSlot s1) + rtime (mhSlot s1) = clock s + slot_time s \<and> link_same s s1 \<and>
     slot_state s1 = BEGINING \<and> pktFI s1 = pktFI s \<and> global_sti s1 = global_sti s \<and> tags s1 = tags s \<and>
     (enable s \<longrightarrow> slot_num s1 = slot_num s) \<and>
     (\<not> enable s \<longrightarrow> enable s1 \<longrightarrow> slot_num s1 < max_slot_num s)"

lemma slot_begin_begun:
  assumes "node_inv e s" and "\<not> t_busy (mhSlot s)"
  shows "succeeds (slot_begin z s) (begun e s)"
proof -
  have c: "core e s" "0 < max_slot_num s" "0 \<le> total_slot_count s + 1" "0 \<le> slot_time s"
    using assms(1) by (auto simp: node_inv_def core_def table_ok_def)
  define s1 where "s1 = s\<lparr>total_slot_count := total_slot_count s + 1,
    slot_count := c_rem (total_slot_count s + 1) (max_slot_num s)\<rparr>"
  define t where "t = (mhSlot s)\<lparr>t_busy := True, t_paused := False, stime := clock s, rtime := slot_time s\<rparr>"
  define s2 where "s2 = emit [Schedule SlotTimer (slot_time s)] (s1\<lparr>mhSlot := t\<rparr>)"
  have st: "start_slot_timer (slot_time s1) s1 = Some s2"
    using assms(2) c(4) by (simp add: start_slot_timer_def timer_start_def s1_def s2_def t_def)
  define s3 where "s3 = (fade_received_fi_list 1 (s2\<lparr>initialed := True\<rparr>))\<lparr>slot_state := BEGINING\<rparr>"
  have "core e (s2\<lparr>initialed := True\<rparr>)" using c(1) by (simp add: s1_def s2_def)
  from core_fade [OF this] have c3: "core e s3" by (simp add: s3_def)
  have f: "slot_count s3 = c_rem (total_slot_count s + 1) (max_slot_num s)" "max_slot_num s3 = max_slot_num s"
    "total_slot_count s3 = total_slot_count s + 1" "node_state s3 = node_state s"
    "slot_adj_candidate s3 = slot_adj_candidate s" "bch_slot_lock s3 = bch_slot_lock s"
    "mhBackoff s3 = mhBackoff s" "slot_time s3 = slot_time s" "t_busy (mhSlot s3)" "global_sti s3 = global_sti s"
    "tags s3 = tags s" "slot_num s3 = slot_num s" "enable s3 = enable s" "link_same s s3"
    "stime (mhSlot s3) + rtime (mhSlot s3) = clock s + slot_time s" "slot_state s3 = BEGINING" "pktFI s3 = pktFI s"
    by (simp_all add: s3_def s2_def s1_def t_def emit_def fade_received_fi_list_def link_same_def)
  note r = c_rem_range [OF c(3,2)] c_rem_range [of "c_rem (total_slot_count s + 1) (max_slot_num s) + 1", OF _ c(2)]
  have "begun e s (if \<not> enable s3 then if z = 0 then s3\<lparr>enable := True,
        slot_num := c_rem (slot_count s3 + 1) (max_slot_num s3)\<rparr> else s3
      else if 0 < z then s3\<lparr>enable := False\<rparr> else s3)"
    using c3 f r by (auto simp: begun_def link_same_def)
  moreover have "enable (fade_received_fi_list 1 (s2\<lparr>initialed := True\<rparr>)) = enable s3" by (simp add: s3_def)
  ultimately show ?thesis
    using c(2) st by (auto simp: slot_begin_def s1_def [symmetric] s3_def [symmetric] Let_def split: if_splits)
qed

lemma get_channel_utilization_total:
  assumes "core e s"
  shows "\<exists>u. get_channel_utilization s = Some u"
proof -
  have "\<exists>c. for_range 0 (max_slot_num s)
      (\<lambda>i count. map_option (\<lambda>t. if busy t \<noteq> SLOT_FREE then count + 1 else count) (tag_at s i)) (0 :: int) = Some c \<and> True"
    using assms by (intro for_range_rule [where I = "\<lambda>_ _. True"]) (auto simp: core_slot core_def table_ok_def)
  then show ?thesis by (auto simp: get_channel_utilization_def)
qed

lemma slot_log_spec:
  assumes "core e s"
  shows "\<exists>t es. slot_log s = Some (emit es (s\<lparr>last_log_time := t\<rparr>))"
proof (cases "1 \<le> clock s - last_log_time s")
  case True
  then show ?thesis using get_channel_utilization_total [OF assms] by (auto simp: slot_log_def)
next
  case False
  then show ?thesis
    by (intro exI [of _ "last_log_time s"] exI [of _ "[]"]) (simp add: slot_log_def emit_def)
qed

text \<open>The result of a slot: nothing was done, or the action of the node's own slot.\<close>

definition slot_post :: "env \<Rightarrow> 'a mac_scheme \<Rightarrow> 'a mac_scheme \<Rightarrow> bool" where
  "slot_post e s s' \<longleftrightarrow> node_inv e s' \<and> t_busy (mhSlot s') \<and> link_same s s' \<and>
     stime (mhSlot s') + rtime (mhSlot s') = clock s + slot_time s \<and> slot_state s' = BEGINING \<and>
     slot_count s' = c_rem (total_slot_count s + 1) (max_slot_num s) \<and> global_sti s' = global_sti s \<and>
     (node_state s' = node_state s \<or> node_step (node_state s) (node_state s')) \<and>
     (t_busy (mhBackoff s') \<longrightarrow> enable s' \<and> (enable s \<longrightarrow> slot_count s' = slot_num s) \<and> sending_ok e s')"

lemma slotHandler_post:
  assumes "node_inv e s" and "env_ok e" and "\<not> t_busy (mhSlot s)" and "\<not> t_busy (mhBackoff s)"
    and "enable s \<longrightarrow> slot_num s \<le> max_slot_num s"
    and "\<not> random_bch_if_single_switch (cfg e) \<or> bch_slot_lock s \<noteq> 0"
  shows "succeeds (slotHandler e z s) (slot_post e s)"
  unfolding slotHandler_def succeeds_simps
proof (rule succeeds_mono [OF slot_begin_begun [OF assms(1,3)]])
  fix s1 assume b: "begun e s s1"
  have inv: "node_inv e s1"
    using b assms(1) by (auto simp: begun_def node_inv_def adj_ok_def nums_ok_def)
  have idle: "slot_post e s s1"
    using b inv assms(4) by (auto simp: begun_def slot_post_def)
  from slot_log_spec [of e s1] b obtain t es where
    log: "slot_log s1 = Some (emit es (s1\<lparr>last_log_time := t\<rparr>))" by (auto simp: begun_def)
  define s2 where "s2 = emit es (s1\<lparr>last_log_time := t\<rparr>)"
  define s3 where "s3 = mod_stats (\<lambda>x. x\<lparr>frame_count := frame_count x + 1\<rparr>) s2"
  have k: "kept s1 s3" by (simp add: s3_def s2_def)
  have idle2: "slot_post e s s2"
    using b inv assms(4) unfolding slot_post_def s2_def
    by (simp add: node_inv_def adj_ok_def begun_def emit_def link_same_def)
  have act: "succeeds (slot_action e s3) (slot_post e s)" if en: "enable s1" and own: "slot_count s1 = slot_num s1"
  proof -
    have "action_pre e s3"
      using b inv en own assms(2,4)
      by (auto simp: action_pre_def begun_def node_inv_def s3_def s2_def adj_ok_def nums_ok_def emit_def)
    moreover have "\<not> random_bch_if_single_switch (cfg e) \<or> bch_slot_lock s3 \<noteq> 0"
      using b assms(6) by (simp add: begun_def s3_def s2_def)
    ultimately have "succeeds (slot_action e s3) (action_post e (node_state s3) s3)" by (rule slot_action_post)
    then show ?thesis
    proof (rule succeeds_mono)
      fix s' assume p: "action_post e (node_state s3) s3 s'"
      then have "kept s1 s'" using k kept_trans by (auto simp: action_post_def)
      then have f: "slot_count s' = slot_count s1" "global_sti s' = global_sti s1" "mhSlot s' = mhSlot s1"
        "total_slot_count s' = total_slot_count s1" "slot_time s' = slot_time s1" "enable s'" "link_same s1 s'"
        "slot_state s' = slot_state s1"
        using en by (simp_all add: kept_def link_same_def)
      have "node_state s3 = node_state s" using b by (simp add: begun_def s3_def s2_def emit_def)
      then show "slot_post e s s'"
        using p f b inv own by (auto simp: slot_post_def action_post_def node_inv_def begun_def nums_ok_def link_same_def)
    qed
  qed
  have num: "slot_num s1 \<le> max_slot_num s1" if "enable s1"
    using b that assms(5) by (auto simp: begun_def)
  show "succeeds (if \<not> enable s1 then Some s1 else Option.bind (slot_log s1) (\<lambda>s.
      if max_slot_num s < slot_num s then None
      else if slot_count s = slot_num s
      then slot_action e (mod_stats (\<lambda>x. x\<lparr>frame_count := frame_count x + 1\<rparr>) s) else Some s)) (slot_post e s)"
    using idle idle2 act num by (simp add: log s2_def [symmetric] s3_def [symmetric]) (auto simp: s2_def)
qed

section \<open>A lost slot\<close>

lemma release_tag_sti: "me \<noteq> 0 \<Longrightarrow> sti (release_tag me t) \<noteq> me"
  by (simp add: release_tag_def free_tag_def)

lemma release_again_lost:
  assumes "core e s" and "env_ok e" and "0 \<le> slot_count s" and "slot_count s < max_slot_num s"
    and "global_sti s \<noteq> 0"
  shows "succeeds (Option.bind (mod_tag (slot_count s) (release_tag (global_sti s)) s)
      (\<lambda>s1. choose_again e (emit [Trace] (mod_stats f s1))))
    (\<lambda>s'. mhBackoff s' = mhBackoff s \<and> pktFI s' = pktFI s \<and>
       sti (tags s' ! nat (slot_count s)) \<noteq> global_sti s \<and>
       (node_state s' = NODE_LISTEN \<or> node_state s' = NODE_WAIT_REQUEST \<and> slot_num s' \<noteq> slot_count s))"
proof -
  let ?ts = "(tags s)[nat (slot_count s) := release_tag (global_sti s) (tags s ! nat (slot_count s))]"
  have m: "mod_tag (slot_count s) (release_tag (global_sti s)) s = Some (set_tags ?ts s)"
    and c: "core e (emit [Trace] (mod_stats f (set_tags ?ts s)))"
    using mod_tag_spec [OF assms(1,3), of "release_tag (global_sti s)"] assms(4) by auto
  have l: "nat (slot_count s) < length (tags s)" using core_slot(1) [OF assms(1,3)] assms(4) by blast
  have "succeeds (choose_again e (emit [Trace] (mod_stats f (set_tags ?ts s)))) (\<lambda>s'.
       mhBackoff s' = mhBackoff s \<and> pktFI s' = pktFI s \<and>
       sti (tags s' ! nat (slot_count s)) \<noteq> global_sti s \<and>
       (node_state s' = NODE_LISTEN \<or> node_state s' = NODE_WAIT_REQUEST \<and> slot_num s' \<noteq> slot_count s))"
    by (rule succeeds_mono [OF choose_again_spec [OF c assms(2)]])
      (use l release_tag_sti [OF assms(5)] in auto)
  then show ?thesis by (simp add: m)
qed

section \<open>Properties\<close>

text \<open>
  \<open>slotHandler\<close> never aborts: in every state that satisfies the node invariant, with its timers
  expired and the node's slot within the frame, it returns, the invariant holds again, the timer of
  the next slot runs and the slot counter is the number of the slot within the frame.
\<close>

lemma slotHandler_total:
  assumes "node_inv e s" and "env_ok e" and "\<not> t_busy (mhSlot s)" and "\<not> t_busy (mhBackoff s)"
    and "enable s \<longrightarrow> slot_num s \<le> max_slot_num s"
    and "\<not> random_bch_if_single_switch (cfg e) \<or> bch_slot_lock s \<noteq> 0"
  shows "\<exists>s'. slotHandler e z s = Some s' \<and> node_inv e s' \<and> t_busy (mhSlot s') \<and>
    slot_count s' = (total_slot_count s + 1) mod max_slot_num s"
proof -
  have "0 \<le> total_slot_count s + 1" "0 < max_slot_num s"
    using assms(1) by (auto simp: node_inv_def core_def table_ok_def)
  then have "c_rem (total_slot_count s + 1) (max_slot_num s) = (total_slot_count s + 1) mod max_slot_num s"
    by (simp add: c_rem_def)
  then show ?thesis using slotHandler_post [OF assms, of z] by (auto simp: succeeds_iff slot_post_def)
qed

lemma example_node_inv [simp]:
  "length ts \<le> 256 \<Longrightarrow> \<forall>t \<in> set ts. tag_ok t \<Longrightarrow> node_inv example_env (example_mac ((example_node me ts)\<lparr>slot_num := k\<rparr>))"
  "env_ok example_env"
  by (auto simp: node_inv_def core_def received_ok_def frame_inv_def adj_ok_def env_ok_def example_phy_def
      table_ok_def example_tags_def)

text \<open>
  C3: a node transmits only in its own slot, and never in a slot that its table gives to another
  node: if the handler of a slot starts the backoff timer, then the slot is the one the node had
  chosen, an FI packet is ready, the node is in a state that sends, and the table gives the slot to
  the node itself or to nobody.
\<close>

theorem slotHandler_sends_in_own_slot:
  assumes "node_inv e s" and "env_ok e" and "\<not> t_busy (mhSlot s)" and "\<not> t_busy (mhBackoff s)"
    and "slot_num s \<le> max_slot_num s"
    and "\<not> random_bch_if_single_switch (cfg e) \<or> bch_slot_lock s \<noteq> 0"
    and "enable s" and "slotHandler e z s = Some s'" and "t_busy (mhBackoff s')"
  shows "slot_count s' = slot_num s \<and> pktFI s' \<noteq> None \<and>
    node_state s' \<in> {NODE_REQUEST, NODE_WORK_FI, NODE_WORK_ADJ} \<and>
    (sti (tags s' ! nat (slot_num s)) = global_sti s \<or> sti (tags s' ! nat (slot_num s)) = 0)"
  using succeedsD [OF slotHandler_post [OF assms(1-4) _ assms(6), of z] assms(8)] assms(5,7,9)
  by (auto simp: slot_post_def sending_ok_def slot_ours_def FI_ready_def)

theorem slotHandler_sends_in_own_slot_witness:
  "\<exists>s'. slotHandler example_env 0 (example_mac ((example_node 1 [])\<lparr>slot_num := 1\<rparr>)) = Some s' \<and>
     slot_count s' = 1 \<and> pktFI s' \<noteq> None \<and> node_state s' \<in> {NODE_REQUEST, NODE_WORK_FI, NODE_WORK_ADJ} \<and>
     (sti (tags s' ! 1) = 1 \<or> sti (tags s' ! 1) = 0)"
proof -
  have "map_option (\<lambda>s. t_busy (mhBackoff s)) (slotHandler example_env 0
      (example_mac ((example_node 1 [])\<lparr>slot_num := 1\<rparr>))) = Some True" by code_simp
  then obtain s' where s': "slotHandler example_env 0 (example_mac ((example_node 1 [])\<lparr>slot_num := 1\<rparr>)) = Some s'"
    "t_busy (mhBackoff s')" by auto
  with slotHandler_sends_in_own_slot [OF _ _ _ _ _ _ _ s'] show ?thesis by simp
qed

text \<open>
  C12: the protocol machine: one slot moves a node along one edge of \<open>node_step\<close> or not at all. A
  node reaches the working states only by the confirmation of a request.
\<close>

theorem slotHandler_follows_protocol:
  assumes "node_inv e s" and "env_ok e" and "\<not> t_busy (mhSlot s)" and "\<not> t_busy (mhBackoff s)"
    and "enable s \<longrightarrow> slot_num s \<le> max_slot_num s"
    and "\<not> random_bch_if_single_switch (cfg e) \<or> bch_slot_lock s \<noteq> 0"
  shows "\<exists>s'. slotHandler e z s = Some s' \<and>
    (node_state s' = node_state s \<or> node_step (node_state s) (node_state s')) \<and>
    (node_state s' \<in> {NODE_WORK_FI, NODE_WORK_ADJ} \<longrightarrow>
     node_state s \<in> {NODE_REQUEST, NODE_WORK_FI, NODE_WORK_ADJ})"
  using slotHandler_post [OF assms, of z]
  by (cases "node_state s") (auto simp: succeeds_iff slot_post_def)

theorem slotHandler_follows_protocol_witness:
  "\<exists>s'. slotHandler example_env 0 (example_mac ((example_node 1 [])\<lparr>slot_num := 1\<rparr>)) = Some s' \<and>
    (node_state s' = NODE_WORK_FI \<or> node_step NODE_WORK_FI (node_state s')) \<and>
    (node_state s' \<in> {NODE_WORK_FI, NODE_WORK_ADJ} \<longrightarrow>
     NODE_WORK_FI \<in> {NODE_REQUEST, NODE_WORK_FI, NODE_WORK_ADJ})"
  using slotHandler_follows_protocol [of example_env "example_mac ((example_node 1 [])\<lparr>slot_num := 1\<rparr>)" 0]
  by simp


text \<open>Node 1 holds slot 1; node 2 reports that slot as its own with a higher priority.\<close>

definition conflict_node :: tdma where
  "conflict_node = (example_node 1 [new_slot_tag, example_tag 1 2])
     \<lparr>slot_num := 1, slot_count := 1, received_fi_list := [example_fi 2 (new_slot_tag # (example_tag 2 2)\<lparr>psf := 1\<rparr> # replicate 30 new_slot_tag)]\<rparr>"

lemma conflict_node_pre: "action_pre fixed_env (example_mac conflict_node)"
  by (auto simp: conflict_node_def action_pre_def core_def received_ok_def frame_inv_def adj_ok_def nums_ok_def
      table_ok_def example_tags_def frame_ok_def tag_ok_def env_ok_def example_phy_def)


definition parked_node :: mac where
  "parked_node = example_mac ((example_node 1 [])\<lparr>enable := False\<rparr>)"

definition slot_expires :: "'a mac_scheme \<Rightarrow> 'a mac_scheme" where
  "slot_expires s = s\<lparr>mhSlot := timer_handle (mhSlot s)\<rparr>"


end
