(* ===== verification/Mac_Link.thy ===== *)
theory Mac_Link
  imports Mac_Example "HOL-Library.Multiset"
begin

text \<open>
  Sending and receiving packets (\<open>src/ns2/mac/mac-tdma.cc\<close>): what happens to a packet that arrives
  from the physical layer, from the layers above, or at the end of a reception or transmission, and
  the transmission of FI and safety packets in the node's own slot.

  Null pointers, failing asserts and calls of \<open>exit\<close> are \<open>None\<close>. The received power ratio of the
  capture test is a division of \<open>double\<close>s: by zero it is infinite for a positive dividend, and not a
  number for zero.
\<close>

section \<open>Reception\<close>

definition is_idle :: "'a mac_scheme \<Rightarrow> bool" where
  "is_idle s \<longleftrightarrow> rx_state s = MAC_IDLE \<and> tx_state s = MAC_IDLE"

definition for_this_node :: "marshal \<Rightarrow> int \<Rightarrow> hdr_mac_tdma \<Rightarrow> bool" where
  "for_this_node m idx dh \<longleftrightarrow> ETHER_ADDR m (dh_da dh) = word_of_int idx \<or>
     ETHER_ADDR m (dh_sa dh) = word_of_int idx \<or>
     ETHER_ADDR m (dh_da dh) = MAC_BROADCAST \<and> fc_to_ds (dh_fc dh) = 0"

definition discard :: "env \<Rightarrow> packet \<Rightarrow> 'a mac_scheme \<Rightarrow> 'a mac_scheme option" where
  "discard e p s =
     (let dh = mac_hdr p; ty = fc_type (dh_fc dh); st = fc_subtype (dh_fc dh);
          give = (\<lambda>b. Some (emit [if b then Dropped p else Freed p] s))
      in if ch_error (cmn p) \<noteq> 0 then Some (emit [Freed p] s)
         else if ty = MAC_Type_Management then
           if st = MAC_Subtype_SAFE \<or> st = MAC_Subtype_Data then give (for_this_node (mx e) (index s) dh)
           else None
         else if ty = MAC_Type_Control then
           if st = MAC_Subtype_RTS then
             give (ETHER_ADDR (mx e) (dh_sa dh) = word_of_int (index s) \<or>
                   ETHER_ADDR (mx e) (dh_da dh) = word_of_int (index s))
           else if st = MAC_Subtype_CTS \<or> st = MAC_Subtype_ACK then
             give (ETHER_ADDR (mx e) (dh_da dh) = word_of_int (index s))
           else None
         else if ty = MAC_Type_Data then
           if st = MAC_Subtype_Data then give (for_this_node (mx e) (index s) dh)
           else None
         else None)"

definition capture :: "packet \<Rightarrow> 'a mac_scheme \<Rightarrow> 'a mac_scheme" where
  "capture p s = emit [Freed p] s"

text \<open>The packet that ends later replaces the one being received.\<close>

definition replace_rx :: "env \<Rightarrow> packet \<Rightarrow> 'a mac_scheme \<Rightarrow> 'a mac_scheme option" where
  "replace_rx e p s = do {
     old \<leftarrow> pktRx s;
     s1 \<leftarrow> stop_rx_timer s;
     s2 \<leftarrow> discard e old s1;
     t \<leftarrow> TX_Time (ph e) p;
     start_rx_timer t (s2\<lparr>pktRx := Some p\<rparr>)
   }"

definition longer_rx :: "env \<Rightarrow> packet \<Rightarrow> 'a mac_scheme \<Rightarrow> bool option" where
  "longer_rx e p s = map_option (\<lambda>t. timer_expire (clock s) (mhRxPkt s) < t) (TX_Time (ph e) p)"

definition collision :: "env \<Rightarrow> packet \<Rightarrow> 'a mac_scheme \<Rightarrow> 'a mac_scheme option" where
  "collision e p s =
     (if rx_state s \<notin> {MAC_BUSY, MAC_RECV, MAC_COLL} \<or> pktRx s = None \<or> \<not> t_busy (mhRxPkt s) then None
      else do {
        longer \<leftarrow> longer_rx e p s;
        let s1 = (if rx_state s = MAC_RECV then s\<lparr>rx_state := MAC_COLL\<rparr> else s);
        if longer then map_option (\<lambda>s2. s2\<lparr>rx_state := MAC_COLL\<rparr>) (replace_rx e p s1)
        else discard e p s1
      })"

definition receive_while_sending :: "env \<Rightarrow> packet \<Rightarrow> 'a mac_scheme \<Rightarrow> 'a mac_scheme option" where
  "receive_while_sending e p s =
     (if tx_state s = MAC_IDLE then None
      else if rx_state s = MAC_COLL then
        if pktRx s = None \<or> \<not> t_busy (mhRxPkt s) then None
        else do {
          longer \<leftarrow> longer_rx e p s;
          if longer then map_option (\<lambda>s2. s2\<lparr>rx_state := MAC_BUSY\<rparr>) (replace_rx e p s)
          else discard e p s
        }
      else if rx_state s = MAC_IDLE \<or> rx_state s = MAC_BUSY then do {
        let s1 = s\<lparr>rx_state := MAC_BUSY\<rparr>;
        if t_busy (mhRxPkt s1) then do {
          longer \<leftarrow> longer_rx e p s1;
          if longer then replace_rx e p s1 else discard e p s1
        } else do {
          t \<leftarrow> TX_Time (ph e) p;
          start_rx_timer t (s1\<lparr>pktRx := Some p\<rparr>)
        }
      } else None)"

definition send_while_receiving :: "'a mac_scheme \<Rightarrow> 'a mac_scheme option" where
  "send_while_receiving s =
     (if rx_state s = MAC_COLL \<or> rx_state s = MAC_BUSY then Some s
      else if rx_state s = MAC_RECV then Some (s\<lparr>rx_state := MAC_BUSY\<rparr>) else None)"

definition captured :: "packet \<Rightarrow> packet \<Rightarrow> bool" where
  "captured old p \<longleftrightarrow>
     (if rx_pr p = 0 then 0 < rx_pr old else cp_thresh p \<le> rx_pr old / rx_pr p)"

definition sendUp :: "env \<Rightarrow> packet \<Rightarrow> 'a mac_scheme \<Rightarrow> 'a mac_scheme option" where
  "sendUp e p s =
     (if \<not> radio_active s then Some (emit [LibcFreed p] s)
      else if tx_state s \<noteq> MAC_IDLE \<and> ch_error (cmn p) = 0 then discard e p s
      else if rx_state s = MAC_IDLE then do {
        t \<leftarrow> TX_Time (ph e) p;
        start_rx_timer t (s\<lparr>rx_state := MAC_RECV, pktRx := Some p\<rparr>)
      } else do {
        old \<leftarrow> pktRx s;
        if captured old p then Some (capture p s) else collision e p s
      })"

definition recvSAFE :: "'a tdma_scheme \<Rightarrow> 'a tdma_scheme" where
  "recvSAFE s = s\<lparr>stats := (stats s)\<lparr>safe_recv_count := safe_recv_count (stats s) + 1\<rparr>\<rparr>"

definition recvPacket :: "env \<Rightarrow> packet \<Rightarrow> 'a mac_scheme \<Rightarrow> 'a mac_scheme option" where
  "recvPacket e p s =
     (let dh = mac_hdr p; ty = fc_type (dh_fc dh); st = fc_subtype (dh_fc dh) in
      if ty = MAC_Type_Management then
        if initialed s then
          if st = MAC_Subtype_Data then do {
            s1 \<leftarrow> recvFI (cfg e) (pdata p) (ETHER_ADDR (mx e) (dh_sa dh)) s;
            Some (emit [Freed p]
              (mod_stats (\<lambda>x. x\<lparr>recv_fi_count := recv_fi_count x + 1\<rparr>) s1))
          } else if st = MAC_Subtype_SAFE then Some (emit [Freed p] (recvSAFE s))
          else Some s
        else Some s
      else if ty = MAC_Type_Data then
        Some (emit [Up (p\<lparr>cmn := (cmn p)\<lparr>ch_size := ch_size (cmn p) - ETHER_HDR_LEN (ph e),
            num_forwards := num_forwards (cmn p) + 1\<rparr>\<rparr>)]
          (mod_stats (\<lambda>x. x\<lparr>packet_received := packet_received x + 1\<rparr>) s))
      else if ty = MAC_Type_Control then Some (emit [Up p] s)
      else Some s)"

definition recvHandler :: "env \<Rightarrow> 'a mac_scheme \<Rightarrow> 'a mac_scheme option" where
  "recvHandler e s = do {
     p \<leftarrow> pktRx s;
     if rx_state s = MAC_COLL \<or> rx_state s = MAC_BUSY then
       map_option (\<lambda>s1. s1\<lparr>rx_state := MAC_IDLE\<rparr>) (discard e p s)
     else do {
       let s1 = s\<lparr>rx_state := MAC_IDLE\<rparr>;
       let dst = ETHER_ADDR (mx e) (dh_da (mac_hdr p));
       if ch_error (cmn p) \<noteq> 0 then Some (emit [Freed p] s1)
       else if dst \<noteq> MAC_BROADCAST \<and> dst \<noteq> word_of_int (index s1) then Some (emit [Dropped p] s1)
       else recvPacket e p s1
     }
   }"

definition RxPktTdmaTimer_handle :: "env \<Rightarrow> 'a mac_scheme \<Rightarrow> 'a mac_scheme option" where
  "RxPktTdmaTimer_handle e s = recvHandler e (s\<lparr>mhRxPkt := timer_handle (mhRxPkt s)\<rparr>)"

section \<open>Transmission\<close>

definition sendDown :: "env \<Rightarrow> packet \<Rightarrow> 'a mac_scheme \<Rightarrow> 'a mac_scheme option" where
  "sendDown e p s = do {
     let p1 = p\<lparr>cmn := (cmn p)\<lparr>ch_size := ch_size (cmn p) + ETHER_HDR_LEN (ph e)\<rparr>,
       mac_hdr := (mac_hdr p)\<lparr>dh_fc := \<lparr>fc_subtype = MAC_Subtype_Data, fc_type = MAC_Type_Data,
         fc_protocol_version = MAC_ProtocolVersion, fc_order = 0, fc_wep = 0, fc_more_data = 0,
         fc_pwr_mgt = 0, fc_retry = 0, fc_more_frag = 0, fc_from_ds = 0, fc_to_ds = 0\<rparr>,
         dh_duration := (if ETHER_ADDR (mx e) (dh_da (mac_hdr p)) \<noteq> MAC_BROADCAST
           then DATA_DURATION else 0)\<rparr>\<rparr>;
     t \<leftarrow> TX_Time (ph e) p1;
     let p2 = p1\<lparr>cmn := (cmn p1)\<lparr>txtime := t\<rparr>\<rparr>;
     let p3 = (if ptype (cmn p2) = PT_CBR
       then p2\<lparr>mac_hdr := (mac_hdr p2)\<lparr>dh_da := store4 (mx e) MAC_BROADCAST (dh_da (mac_hdr p2))\<rparr>\<rparr> else p2);
     Some (emit [Freed p3] s)
   }"

text \<open>\<open>recv\<close>: the handler \<open>h\<close> is present when the interface queue sends.\<close>

definition recv :: "env \<Rightarrow> packet \<Rightarrow> bool \<Rightarrow> 'a mac_scheme \<Rightarrow> 'a mac_scheme option" where
  "recv e p h s = do {
     let p1 = (if ch_error (cmn p) = 1 then p\<lparr>cmn := (cmn p)\<lparr>ch_error := 0\<rparr>\<rparr> else p);
     if direction (cmn p1) = UP then sendUp e p1 s
     else sendDown e p1 (s\<lparr>callback := h, mstate := MAC_SEND\<rparr>)
   }"

datatype packet_kind = PACKET_FI | PACKET_SAFETY | PACKET_RTS | PACKET_CTS | PACKET_APP

fun kind_state :: "packet_kind \<Rightarrow> slot_state" where
  "kind_state PACKET_FI = FI"
| "kind_state PACKET_SAFETY = SAFETY"
| "kind_state PACKET_RTS = RTS"
| "kind_state PACKET_CTS = CTS"
| "kind_state PACKET_APP = APP"

text \<open>The pointer argument is set to null by the caller's update; a null argument is ignored.\<close>

definition sendPacket :: "packet option \<Rightarrow> packet_kind \<Rightarrow> 'a mac_scheme \<Rightarrow> 'a mac_scheme option" where
  "sendPacket po kind s =
     (case po of
        None \<Rightarrow> Some s
      | Some p \<Rightarrow> do {
          let p1 = (if \<not> is_idle s \<and> rx_state s \<noteq> MAC_IDLE then p\<lparr>cmn := (cmn p)\<lparr>ch_error := 1\<rparr>\<rparr> else p);
          let p2 = p1\<lparr>mac_hdr := (mac_hdr p1)\<lparr>send_slot := word_of_int (slot_count s)\<rparr>\<rparr>;
          s1 \<leftarrow> start_tx_timer (txtime (cmn p2)) (s\<lparr>tx_state := MAC_SEND\<rparr>);
          Some ((emit [Down p2] s1)\<lparr>slot_state := kind_state kind\<rparr>)
        })"

text \<open>The three older senders: the packet being received is marked as erroneous.\<close>

definition spoil_rx :: "'a mac_scheme \<Rightarrow> 'a mac_scheme option" where
  "spoil_rx s =
     (if \<not> is_idle s \<and> rx_state s \<noteq> MAC_IDLE
      then map_option (\<lambda>q. s\<lparr>pktRx := Some (q\<lparr>cmn := (cmn q)\<lparr>ch_error := 1\<rparr>\<rparr>)\<rparr>) (pktRx s)
      else Some s)"

definition transmit :: "env \<Rightarrow> packet \<Rightarrow> 'a mac_scheme \<Rightarrow> 'a mac_scheme option" where
  "transmit e p s = do {
     t \<leftarrow> TX_Time (ph e) p;
     let p1 = p\<lparr>cmn := (cmn p)\<lparr>txtime := t, ptype := PT_TDMA\<rparr>\<rparr>;
     s1 \<leftarrow> start_tx_timer t (s\<lparr>tx_state := MAC_SEND\<rparr>);
     Some (emit [Down p1] s1)
   }"

definition sendFI :: "env \<Rightarrow> 'a mac_scheme \<Rightarrow> 'a mac_scheme option" where
  "sendFI e s =
     (case pktFI s of
        None \<Rightarrow> Some s
      | Some p \<Rightarrow> do {
          s1 \<leftarrow> spoil_rx s;
          s2 \<leftarrow> transmit e (p\<lparr>mac_hdr := (mac_hdr p)\<lparr>send_slot := word_of_int (slot_count s)\<rparr>\<rparr>) s1;
          Some (s2\<lparr>pktFI := None\<rparr>)
        })"

definition sendData :: "env \<Rightarrow> 'a mac_scheme \<Rightarrow> 'a mac_scheme option" where
  "sendData e s =
     (case pktTx s of
        None \<Rightarrow> Some s
      | Some p \<Rightarrow> do {
          s1 \<leftarrow> spoil_rx s;
          s2 \<leftarrow> transmit e p s1;
          Some (s2\<lparr>pktTx := None\<rparr>)
        })"

definition sendAll :: "env \<Rightarrow> 'a mac_scheme \<Rightarrow> 'a mac_scheme option" where
  "sendAll e s =
     (case pktFI s of
        None \<Rightarrow> Some s
      | Some p \<Rightarrow> do {
          s1 \<leftarrow> spoil_rx s;
          s2 \<leftarrow> transmit e p s1;
          Some (s2\<lparr>pktFI := None\<rparr>)
        })"

definition radioSwitch :: "int \<Rightarrow> 'a mac_scheme \<Rightarrow> 'a mac_scheme" where
  "radioSwitch i s =
     (let s1 = s\<lparr>radio_active := (i \<noteq> 0)\<rparr> in
      if i = 1 then emit [Radio True] s1 else if i = 0 then emit [Radio False] s1 else s1)"

definition remain_slottime :: "'a mac_scheme \<Rightarrow> rat" where
  "remain_slottime s = get_Remain_slottime (slot_time s) (start_time s) (clock s)"

text \<open>\<open>sendHandler\<close>: \<open>p\<close> is the copy of the transmitted packet that the timer carried.\<close>

definition sendHandler :: "env \<Rightarrow> packet \<Rightarrow> 'a mac_scheme \<Rightarrow> 'a mac_scheme option" where
  "sendHandler e p s0 = do {
     let s1 = emit [Freed p] (s0\<lparr>tx_state := MAC_IDLE\<rparr>);
     let s = (if callback s1 then emit [Callback] (s1\<lparr>callback := False\<rparr>) else s1);
     if node_state s \<in> {NODE_WORK_FI, NODE_WORK_ADJ} \<and> slot_state s = FI then
       if \<not> Isempty (safety_packet_queue s) then do {
         hd \<leftarrow> QueueHead (safety_packet_queue s);
         q \<leftarrow> hd;
         if txtime (cmn q) + SIFSTime (ph e) < remain_slottime s
         then start_backoff 0 True (SIFSTime (ph e)) s
         else Some (s\<lparr>slot_state := SAFETY\<rparr>)
       } else Some (s\<lparr>slot_state := SAFETY\<rparr>)
     else Some s
   }"

definition TxPktTdmaTimer_handle :: "env \<Rightarrow> packet \<Rightarrow> 'a mac_scheme \<Rightarrow> 'a mac_scheme option" where
  "TxPktTdmaTimer_handle e p s = sendHandler e p (s\<lparr>mhTxPkt := timer_handle (mhTxPkt s)\<rparr>)"

text \<open>\<open>this->sendPacket(this->pktFI_, PACKET_FI)\<close>: the reference is cleared if a packet was sent.\<close>

definition send_pktFI :: "'a mac_scheme \<Rightarrow> 'a mac_scheme option" where
  "send_pktFI s = map_option (\<lambda>s1. s1\<lparr>pktFI := None\<rparr>) (sendPacket (pktFI s) PACKET_FI s)"

definition send_safety :: "'a mac_scheme \<Rightarrow> 'a mac_scheme option" where
  "send_safety s = do {
     hd \<leftarrow> QueueHead (safety_packet_queue s);
     p \<leftarrow> hd;
     if txtime (cmn p) < remain_slottime s then do {
       (po, q) \<leftarrow> Dequeue (safety_packet_queue s);
       sendPacket po PACKET_SAFETY (s\<lparr>safety_packet_queue := q\<rparr>)
     } else Some (s\<lparr>slot_state := SAFETY\<rparr>)
   }"

definition backoffHandler :: "'a mac_scheme \<Rightarrow> 'a mac_scheme option" where
  "backoffHandler s =
     (case node_state s of
        NODE_REQUEST \<Rightarrow> if slot_state s = BEGINING then send_pktFI s else Some s
      | NODE_WORK_FI \<Rightarrow>
          if slot_state s = BEGINING then send_pktFI s
          else if slot_state s = FI then send_safety s else Some s
      | NODE_WORK_ADJ \<Rightarrow>
          if slot_state s = BEGINING then send_pktFI s
          else if slot_state s = FI then send_safety s else Some s
      | _ \<Rightarrow> Some s)"

definition TdmaBackoffTimer_handle :: "'a mac_scheme \<Rightarrow> 'a mac_scheme option" where
  "TdmaBackoffTimer_handle s = backoffHandler (s\<lparr>mhBackoff := backoff_handle (mhBackoff s)\<rparr>)"

section \<open>The invariant of the link\<close>

text \<open>The headers for which \<open>discard\<close> does not exit, and a length that is not negative.\<close>

definition pkt_ok :: "packet \<Rightarrow> bool" where
  "pkt_ok p \<longleftrightarrow> 0 \<le> ch_size (cmn p) \<and>
     (let ty = fc_type (dh_fc (mac_hdr p)); st = fc_subtype (dh_fc (mac_hdr p)) in
      ty = MAC_Type_Management \<and> (st = MAC_Subtype_SAFE \<or> st = MAC_Subtype_Data) \<or>
      ty = MAC_Type_Control \<and> (st = MAC_Subtype_RTS \<or> st = MAC_Subtype_CTS \<or> st = MAC_Subtype_ACK) \<or>
      ty = MAC_Type_Data \<and> st = MAC_Subtype_Data)"

definition link_inv :: "'a mac_scheme \<Rightarrow> bool" where
  "link_inv s \<longleftrightarrow> rx_state s \<in> {MAC_IDLE, MAC_RECV, MAC_COLL, MAC_BUSY} \<and>
     (t_busy (mhRxPkt s) \<longleftrightarrow> rx_state s \<noteq> MAC_IDLE) \<and>
     (rx_state s \<noteq> MAC_IDLE \<longrightarrow> (\<exists>p. pktRx s = Some p \<and> pkt_ok p)) \<and>
     (t_busy (mhTxPkt s) \<longleftrightarrow> tx_state s \<noteq> MAC_IDLE)"

text \<open>The packet that the receiver holds, and the packets an effect disposes of.\<close>

definition held :: "'a mac_scheme \<Rightarrow> packet multiset" where
  "held s = (if rx_state s = MAC_IDLE then {#} else case pktRx s of None \<Rightarrow> {#} | Some p \<Rightarrow> {#p#})"

fun gone :: "effect \<Rightarrow> packet multiset" where
  "gone (Up p) = {#p#}"
| "gone (Dropped p) = {#p#}"
| "gone (Freed p) = {#p#}"
| "gone (LibcFreed p) = {#p#}"
| "gone _ = {#}"

definition gone_all :: "effect list \<Rightarrow> packet multiset" where
  "gone_all es = (\<Sum>x\<leftarrow>es. gone x)"

lemma gone_all_simps [simp]: "gone_all [] = {#}" "gone_all (x # es) = gone x + gone_all es"
  "gone_all (es @ es') = gone_all es + gone_all es'"
  by (simp_all add: gone_all_def)

text \<open>\<open>balanced s p s'\<close>: every packet that came in or was held is still held or disposed of, once.\<close>

definition balanced :: "'a mac_scheme \<Rightarrow> packet multiset \<Rightarrow> 'a mac_scheme \<Rightarrow> bool" where
  "balanced s ps s' \<longleftrightarrow> (\<exists>es. out s' = out s @ es \<and> held s' + gone_all es = held s + ps)"

lemma emit_link_fields [simp]:
  "rx_state (emit es s) = rx_state s" "tx_state (emit es s) = tx_state s" "pktRx (emit es s) = pktRx s"
  "mhRxPkt (emit es s) = mhRxPkt s" "mhTxPkt (emit es s) = mhTxPkt s" "out (emit es s) = out s @ es"
  "radio_active (emit es s) = radio_active s" "clock (emit es s) = clock s" "index (emit es s) = index s"
  "received_fi_list (emit es s) = received_fi_list s" "emit es (emit es' s) = emit (es' @ es) s"
  by (simp_all add: emit_def)

lemma link_inv_emit [simp]: "link_inv (emit es s) = link_inv s"
  by (simp add: link_inv_def)

lemma held_emit [simp]: "held (emit es s) = held s"
  by (simp add: held_def)

lemma discard_ok:
  assumes "pkt_ok p"
  shows "\<exists>b. discard e p s = Some (emit [if b then Dropped p else Freed p] s)"
proof (cases "ch_error (cmn p) = 0")
  case True
  let ?ty = "fc_type (dh_fc (mac_hdr p))" and ?st = "fc_subtype (dh_fc (mac_hdr p))"
  consider "?ty = MAC_Type_Management" "?st = MAC_Subtype_SAFE \<or> ?st = MAC_Subtype_Data"
    | "?ty = MAC_Type_Control" "?st = MAC_Subtype_RTS"
    | "?ty = MAC_Type_Control" "?st = MAC_Subtype_CTS \<or> ?st = MAC_Subtype_ACK"
    | "?ty = MAC_Type_Data" "?st = MAC_Subtype_Data"
    using assms unfolding pkt_ok_def Let_def by blast
  then show ?thesis by cases (use True in \<open>simp_all add: discard_def Let_def\<close>, blast+)
next
  case False
  then show ?thesis by (intro exI [of _ False]) (simp add: discard_def Let_def)
qed

lemma discard_cases:
  assumes "pkt_ok p"
  obtains x where "discard e p s = Some (emit [x] s)" and "x = Freed p \<or> x = Dropped p"
proof -
  from discard_ok [OF assms] obtain b where "discard e p s = Some (emit [if b then Dropped p else Freed p] s)" ..
  then show thesis using that by (cases b) auto
qed

lemma TX_Time_ok:
  assumes "pkt_ok p" and "0 < bandwidth (ph e)"
  shows "TX_Time (ph e) p = Some (DATA_Time (ph e) (ch_size (cmn p)))" and "0 \<le> DATA_Time (ph e) (ch_size (cmn p))"
proof -
  have "0 \<le> of_int (8 * ch_size (cmn p)) / bandwidth (ph e)"
    using assms by (intro divide_nonneg_pos) (simp_all add: pkt_ok_def)
  then show "TX_Time (ph e) p = Some (DATA_Time (ph e) (ch_size (cmn p)))"
    and "0 \<le> DATA_Time (ph e) (ch_size (cmn p))"
    by (simp_all add: TX_Time_def DATA_Time_def Let_def)
qed

definition running :: "rat \<Rightarrow> rat \<Rightarrow> mac_timer \<Rightarrow> mac_timer" where
  "running now t tm = tm\<lparr>t_busy := True, t_paused := False, stime := now, rtime := t\<rparr>"

lemma running_busy [simp]: "t_busy (running now t tm)"
  by (simp add: running_def)

lemma start_rx_timer_idle:
  "\<not> t_busy (mhRxPkt s) \<Longrightarrow> 0 \<le> t \<Longrightarrow>
     start_rx_timer t s = Some (emit [Schedule RxPktTimer t] (s\<lparr>mhRxPkt := running (clock s) t (mhRxPkt s)\<rparr>))"
  by (simp add: start_rx_timer_def timer_start_def running_def)

lemma replace_rx_spec:
  assumes "pktRx s = Some old" and "pkt_ok old" and "pkt_ok p" and "t_busy (mhRxPkt s)" and "0 < bandwidth (ph e)"
  shows "\<exists>es m. replace_rx e p s = Some (emit es (s\<lparr>mhRxPkt := m, pktRx := Some p\<rparr>)) \<and> t_busy m \<and>
    gone_all es = {#old#} \<and> (\<forall>q. Up q \<notin> set es)"
proof -
  let ?m = "(mhRxPkt s)\<lparr>t_busy := False, t_paused := False, stime := 0, rtime := 0\<rparr>"
  let ?c = "if t_paused (mhRxPkt s) then [] else [Cancel RxPktTimer]"
  let ?s1 = "emit ?c (s\<lparr>mhRxPkt := ?m\<rparr>)" and ?t = "DATA_Time (ph e) (ch_size (cmn p))"
  have s1: "stop_rx_timer s = Some ?s1" using assms(4) by (simp add: stop_rx_timer_def timer_stop_def)
  obtain x where x: "discard e old ?s1 = Some (emit [x] ?s1)" "x = Freed old \<or> x = Dropped old"
    using discard_cases [OF assms(2)] .
  note t = TX_Time_ok [OF assms(3,5)]
  have "replace_rx e p s = Some (emit (?c @ [x, Schedule RxPktTimer ?t])
      (s\<lparr>mhRxPkt := running (clock s) ?t ?m, pktRx := Some p\<rparr>))"
    unfolding replace_rx_def assms(1) bind.bind_lunit s1 x(1) t(1)
    using t(2) by (simp add: start_rx_timer_idle) (simp add: emit_def)
  moreover have "gone_all (?c @ [x, Schedule RxPktTimer ?t]) = {#old#}" using x(2) by auto
  moreover have "\<forall>q. Up q \<notin> set (?c @ [x, Schedule RxPktTimer ?t])" using x(2) by auto
  ultimately show ?thesis using running_busy by blast
qed

text \<open>Nothing is passed to the upper layers, and no FI is taken over.\<close>

definition silent :: "'a mac_scheme \<Rightarrow> 'a mac_scheme \<Rightarrow> bool" where
  "silent s s' \<longleftrightarrow> received_fi_list s' = received_fi_list s \<and>
     (\<exists>es. out s' = out s @ es \<and> (\<forall>q. Up q \<notin> set es))"

definition rx_step :: "'a mac_scheme \<Rightarrow> packet \<Rightarrow> 'a mac_scheme \<Rightarrow> bool" where
  "rx_step s p s' \<longleftrightarrow> link_inv s' \<and> balanced s {#p#} s' \<and> silent s s'"

lemma rx_step_emit:
  assumes "link_inv s" and "x = Freed p \<or> x = Dropped p \<or> x = LibcFreed p"
  shows "rx_step s p (emit [x] s)"
  using assms unfolding rx_step_def balanced_def silent_def
  by (intro conjI exI [of _ "[x]"]) auto

lemma rx_stepI:
  assumes "link_inv (emit es t)" and "out t = out s" and "received_fi_list t = received_fi_list s"
    and "held t + gone_all es = held s + {#p#}" and "\<forall>q. Up q \<notin> set es"
  shows "rx_step s p (emit es t)"
  unfolding rx_step_def balanced_def silent_def
  by (intro conjI exI [of _ es]) (use assms in auto)

lemma collision_spec:
  assumes "link_inv s" and "rx_state s \<noteq> MAC_IDLE" and "pkt_ok p" and "0 < bandwidth (ph e)"
  shows "succeeds (collision e p s) (\<lambda>s'. rx_step s p s' \<and> rx_state s' \<in> {MAC_COLL, MAC_BUSY})"
proof -
  from assms(1,2) obtain old where old: "pktRx s = Some old" "pkt_ok old" "t_busy (mhRxPkt s)"
    and st: "rx_state s \<in> {MAC_RECV, MAC_COLL, MAC_BUSY}" "t_busy (mhTxPkt s) \<longleftrightarrow> tx_state s \<noteq> MAC_IDLE"
    by (auto simp: link_inv_def)
  define s1 where "s1 = (if rx_state s = MAC_RECV then s\<lparr>rx_state := MAC_COLL\<rparr> else s)"
  have s1: "pktRx s1 = Some old" "t_busy (mhRxPkt s1)" "rx_state s1 \<in> {MAC_COLL, MAC_BUSY}" "out s1 = out s"
    "received_fi_list s1 = received_fi_list s" "link_inv s1" "held s1 = held s"
    by (cases "rx_state s = MAC_RECV"; use old st assms(1) in \<open>simp add: s1_def link_inv_def held_def\<close>)+
  obtain x where x: "discard e p s1 = Some (emit [x] s1)" "x = Freed p \<or> x = Dropped p"
    using discard_cases [OF assms(3)] .
  have lose: "rx_step s p (emit [x] s1) \<and> rx_state (emit [x] s1) \<in> {MAC_COLL, MAC_BUSY}"
    using s1 x(2) by (intro conjI rx_stepI) auto
  from replace_rx_spec [OF s1(1) old(2) assms(3) s1(2) assms(4)] obtain es m where
    r: "replace_rx e p s1 = Some (emit es (s1\<lparr>mhRxPkt := m, pktRx := Some p\<rparr>))" "t_busy m" "gone_all es = {#old#}"
    and up: "\<forall>q. Up q \<notin> set es" by blast
  let ?s2 = "s1\<lparr>mhRxPkt := m, pktRx := Some p, rx_state := MAC_COLL\<rparr>"
  have "rx_step s p (emit es ?s2)"
    using s1(4-6) r(2,3) up assms(2,3) st(2) old(1) by (intro rx_stepI) (simp_all add: link_inv_def held_def)
  moreover have "(emit es (s1\<lparr>mhRxPkt := m, pktRx := Some p\<rparr>))\<lparr>rx_state := MAC_COLL\<rparr> = emit es ?s2"
    by (simp add: emit_def)
  ultimately show ?thesis
    using lose x(1) r(1) old st(1) TX_Time_ok(1) [OF assms(3,4)]
    unfolding collision_def Let_def s1_def [symmetric] by (simp add: longer_rx_def) blast
qed

lemma sendUp_spec:
  assumes "link_inv s" and "pkt_ok p" and "0 < bandwidth (ph e)"
  shows "succeeds (sendUp e p s) (\<lambda>s'. rx_step s p s')"
proof -
  consider (off) "\<not> radio_active s" | (tx) "radio_active s" "tx_state s \<noteq> MAC_IDLE" "ch_error (cmn p) = 0"
    | (idle) "radio_active s" "tx_state s = MAC_IDLE \<or> ch_error (cmn p) \<noteq> 0" "rx_state s = MAC_IDLE"
    | (busy) "radio_active s" "tx_state s = MAC_IDLE \<or> ch_error (cmn p) \<noteq> 0" "rx_state s \<noteq> MAC_IDLE" by blast
  then show ?thesis
  proof cases
    case off
    then show ?thesis using rx_step_emit [OF assms(1)] by (simp add: sendUp_def)
  next
    case tx
    obtain x where "discard e p s = Some (emit [x] s)" "x = Freed p \<or> x = Dropped p"
      using discard_cases [OF assms(2)] .
    then show ?thesis using tx rx_step_emit [OF assms(1), of x p] by (auto simp: sendUp_def)
  next
    case idle
    let ?s1 = "s\<lparr>rx_state := MAC_RECV, pktRx := Some p\<rparr>" and ?t = "DATA_Time (ph e) (ch_size (cmn p))"
    have i: "\<not> t_busy (mhRxPkt s)" "t_busy (mhTxPkt s) \<longleftrightarrow> tx_state s \<noteq> MAC_IDLE"
      using assms(1) idle(3) by (simp_all add: link_inv_def)
    have "rx_step s p (emit [Schedule RxPktTimer ?t] (?s1\<lparr>mhRxPkt := running (clock s) ?t (mhRxPkt s)\<rparr>))"
      using idle(3) assms(2) i(2) by (intro rx_stepI) (simp_all add: link_inv_def held_def)
    then show ?thesis
      using idle i(1) TX_Time_ok [OF assms(2,3)] by (auto simp: sendUp_def start_rx_timer_idle)
  next
    case busy
    from assms(1) busy(3) obtain old where old: "pktRx s = Some old" by (auto simp: link_inv_def)
    have "rx_step s p (capture p s)" using rx_step_emit [OF assms(1)] by (simp add: capture_def)
    moreover have "succeeds (collision e p s) (\<lambda>s'. rx_step s p s')"
      using collision_spec [OF assms(1) busy(3) assms(2,3)] by (auto elim: succeeds_mono)
    ultimately show ?thesis using busy old by (auto simp: sendUp_def)
  qed
qed

text \<open>The end of a reception: \<open>rx_due\<close> says that the timer has just expired.\<close>

definition rx_due :: "'a mac_scheme \<Rightarrow> packet \<Rightarrow> bool" where
  "rx_due s p \<longleftrightarrow> rx_state s \<in> {MAC_RECV, MAC_COLL, MAC_BUSY} \<and> pktRx s = Some p \<and> pkt_ok p \<and>
     \<not> t_busy (mhRxPkt s) \<and> (t_busy (mhTxPkt s) \<longleftrightarrow> tx_state s \<noteq> MAC_IDLE)"

lemma rx_due_handle:
  assumes "link_inv s" and "rx_state s \<noteq> MAC_IDLE"
  shows "\<exists>p. rx_due (s\<lparr>mhRxPkt := timer_handle (mhRxPkt s)\<rparr>) p"
  using assms by (auto simp: link_inv_def rx_due_def timer_handle_def)

lemma rx_due_link: "rx_due s p \<Longrightarrow> link_inv (emit es (s\<lparr>rx_state := MAC_IDLE\<rparr>))"
  by (simp add: rx_due_def link_inv_def)

text \<open>A reception that was disturbed is thrown away.\<close>

lemma recvHandler_disturbed:
  assumes "rx_due s p" and "rx_state s \<in> {MAC_COLL, MAC_BUSY}"
  shows "succeeds (recvHandler e s) (\<lambda>s'. rx_state s' = MAC_IDLE \<and> link_inv s' \<and> balanced s {#} s' \<and> silent s s')"
proof -
  have p: "pktRx s = Some p" "pkt_ok p" using assms(1) by (auto simp: rx_due_def)
  obtain x where x: "discard e p s = Some (emit [x] s)" "x = Freed p \<or> x = Dropped p"
    using discard_cases [OF p(2)] .
  have "(emit [x] s)\<lparr>rx_state := MAC_IDLE\<rparr> = emit [x] (s\<lparr>rx_state := MAC_IDLE\<rparr>)" by (simp add: emit_def)
  moreover have "held s = {#p#}" using assms(2) p(1) by (auto simp: held_def)
  moreover have "held (s\<lparr>rx_state := MAC_IDLE\<rparr>) = {#}" by (simp add: held_def)
  ultimately show ?thesis
    using p(1) x assms(2) rx_due_link [OF assms(1), of "[x]"]
    by (auto simp: recvHandler_def balanced_def silent_def)
qed

text \<open>What \<open>recvPacket\<close> gives to the upper layers, and the packets that it neither frees nor passes on.\<close>

definition stripped :: "env \<Rightarrow> packet \<Rightarrow> packet" where
  "stripped e p = p\<lparr>cmn := (cmn p)\<lparr>ch_size := ch_size (cmn p) - ETHER_HDR_LEN (ph e),
     num_forwards := num_forwards (cmn p) + 1\<rparr>\<rparr>"

definition is_FI :: "packet \<Rightarrow> bool" where
  "is_FI p \<longleftrightarrow> fc_type (dh_fc (mac_hdr p)) = MAC_Type_Management \<and> fc_subtype (dh_fc (mac_hdr p)) = MAC_Subtype_Data"

definition readable :: "env \<Rightarrow> packet \<Rightarrow> 'a mac_scheme \<Rightarrow> bool" where
  "readable e p s \<longleftrightarrow>
     (is_FI p \<longrightarrow> (\<exists>fi. recvFI (cfg e) (pdata p) (ETHER_ADDR (mx e) (dh_sa (mac_hdr p))) s = Some (get_new_FI fi s)))"

lemma get_new_FI_fields [simp]:
  fixes s :: "'a mac_scheme"
  shows "out (get_new_FI fi s) = out s" "rx_state (get_new_FI fi s) = rx_state s"
    "tx_state (get_new_FI fi s) = tx_state s" "mhRxPkt (get_new_FI fi s) = mhRxPkt s"
    "mhTxPkt (get_new_FI fi s) = mhTxPkt s" "pktRx (get_new_FI fi s) = pktRx s"
  by (simp_all add: get_new_FI_def)

lemma recvPacket_disposes:
  assumes "pkt_ok p" and "initialed s" and "readable e p s" and "link_inv s"
  shows "\<exists>s' x. recvPacket e p s = Some s' \<and> out s' = out s @ [x] \<and> x \<in> {Freed p, Up p, Up (stripped e p)} \<and>
    link_inv s' \<and> rx_state s' = rx_state s"
proof -
  let ?ty = "fc_type (dh_fc (mac_hdr p))" and ?st = "fc_subtype (dh_fc (mac_hdr p))"
  have link: "link_inv (mod_stats f s)" "link_inv (get_new_FI fi s)" "link_inv (mod_stats f (get_new_FI fi s))"
    "link_inv (recvSAFE s)" for f fi
    using assms(4) by (simp_all add: link_inv_def mod_stats_def recvSAFE_def)
  consider (fi) "?ty = MAC_Type_Management" "?st = MAC_Subtype_Data"
    | (safe) "?ty = MAC_Type_Management" "?st = MAC_Subtype_SAFE"
    | (control) "?ty = MAC_Type_Control" | (data) "?ty = MAC_Type_Data"
    using assms(1) unfolding pkt_ok_def Let_def by blast
  then show ?thesis
  proof cases
    case fi
    with assms(3) obtain f where
      "recvFI (cfg e) (pdata p) (ETHER_ADDR (mx e) (dh_sa (mac_hdr p))) s = Some (get_new_FI f s)"
      by (auto simp: readable_def is_FI_def)
    then show ?thesis using fi assms(2) link by (simp add: recvPacket_def Let_def mod_stats_def)
  next
    case safe
    then show ?thesis using assms(2) link by (simp add: recvPacket_def Let_def recvSAFE_def)
  next
    case control
    then show ?thesis using assms(4) by (simp add: recvPacket_def Let_def)
  next
    case data
    then show ?thesis using link by (simp add: recvPacket_def Let_def stripped_def mod_stats_def)
  qed
qed

lemma recvHandler_disposes:
  assumes "rx_due s p" and "initialed s" and "readable e p (s\<lparr>rx_state := MAC_IDLE\<rparr>)"
  shows "\<exists>s' x. recvHandler e s = Some s' \<and> out s' = out s @ [x] \<and>
    x \<in> {Freed p, Dropped p, Up p, Up (stripped e p)} \<and> link_inv s' \<and> rx_state s' = MAC_IDLE"
proof (cases "rx_state s \<in> {MAC_COLL, MAC_BUSY}")
  case True
  have p: "pktRx s = Some p" "pkt_ok p" using assms(1) by (auto simp: rx_due_def)
  obtain x where x: "discard e p s = Some (emit [x] s)" "x = Freed p \<or> x = Dropped p"
    using discard_cases [OF p(2)] .
  have "(emit [x] s)\<lparr>rx_state := MAC_IDLE\<rparr> = emit [x] (s\<lparr>rx_state := MAC_IDLE\<rparr>)" by (simp add: emit_def)
  then show ?thesis
    using p(1) x True rx_due_link [OF assms(1), of "[x]"] by (auto simp: recvHandler_def)
next
  case False
  have p: "pktRx s = Some p" "pkt_ok p" using assms(1) by (auto simp: rx_due_def)
  let ?s = "s\<lparr>rx_state := MAC_IDLE\<rparr>"
  have l: "link_inv ?s" using rx_due_link [OF assms(1), of "[]"] by (simp add: emit_def)
  from recvPacket_disposes [OF p(2) _ assms(3) l] assms(2) obtain s' x where
    "recvPacket e p ?s = Some s'" "out s' = out s @ [x]" "x \<in> {Freed p, Up p, Up (stripped e p)}" "link_inv s'"
    "rx_state s' = MAC_IDLE" by auto
  then show ?thesis using p(1) False l by (auto simp: recvHandler_def Let_def)
qed

section \<open>Transmission in the own slot\<close>

lemma start_tx_timer_idle:
  "\<not> t_busy (mhTxPkt s) \<Longrightarrow> 0 \<le> t \<Longrightarrow>
     start_tx_timer t s = Some (emit [Schedule TxPktTimer t] (s\<lparr>mhTxPkt := running (clock s) t (mhTxPkt s)\<rparr>))"
  by (simp add: start_tx_timer_def timer_start_def running_def)

text \<open>The packet as it is sent.\<close>

definition sent_packet :: "'a mac_scheme \<Rightarrow> packet \<Rightarrow> packet" where
  "sent_packet s p = (let p1 = (if rx_state s \<noteq> MAC_IDLE then p\<lparr>cmn := (cmn p)\<lparr>ch_error := 1\<rparr>\<rparr> else p)
     in p1\<lparr>mac_hdr := (mac_hdr p1)\<lparr>send_slot := word_of_int (slot_count s)\<rparr>\<rparr>)"

lemma sent_packet_simps [simp]:
  "pdata (sent_packet s p) = pdata p" "txtime (cmn (sent_packet s p)) = txtime (cmn p)"
  "send_slot (mac_hdr (sent_packet s p)) = word_of_int (slot_count s)"
  "dh_fc (mac_hdr (sent_packet s p)) = dh_fc (mac_hdr p)" "dh_da (mac_hdr (sent_packet s p)) = dh_da (mac_hdr p)"
  "dh_sa (mac_hdr (sent_packet s p)) = dh_sa (mac_hdr p)" "ch_size (cmn (sent_packet s p)) = ch_size (cmn p)"
  by (simp_all add: sent_packet_def Let_def)

lemma sendPacket_spec:
  assumes "link_inv s" and "tx_state s = MAC_IDLE" and "0 \<le> txtime (cmn p)"
  shows "sendPacket (Some p) k s = Some (emit [Schedule TxPktTimer (txtime (cmn p)), Down (sent_packet s p)]
    (s\<lparr>tx_state := MAC_SEND, mhTxPkt := running (clock s) (txtime (cmn p)) (mhTxPkt s), slot_state := kind_state k\<rparr>))"
proof -
  have "\<not> t_busy (mhTxPkt s)" using assms by (simp add: link_inv_def)
  then show ?thesis
    using assms(3)
    by (auto simp: sendPacket_def sent_packet_def is_idle_def start_tx_timer_idle assms(2) emit_def Let_def)
qed

lemma trunc_floor: "0 \<le> x \<Longrightarrow> trunc x = \<lfloor>x\<rfloor>"
  by (simp add: trunc_def)

text \<open>The end of the slot in progress, in absolute time.\<close>

definition slot_end :: "'a mac_scheme \<Rightarrow> rat" where
  "slot_end s = start_time s + (of_int \<lfloor>(clock s - start_time s) / slot_time s\<rfloor> + 1) * slot_time s"

lemma remain_slottime_eq:
  assumes "0 < slot_time s" and "start_time s \<le> clock s"
  shows "remain_slottime s = slot_end s - clock s - start_time s"
  using assms by (simp add: remain_slottime_def get_Remain_slottime_def slot_end_def trunc_floor algebra_simps)

lemma send_safety_spec:
  assumes "queue_rep (safety_packet_queue s) xs" and "send_safety s = Some s'" and "link_inv s"
    and "tx_state s = MAC_IDLE" and "\<forall>x \<in> set xs. 0 \<le> txtime (cmn x)"
  shows "\<exists>x ys. xs = x # ys \<and>
    (if txtime (cmn x) < remain_slottime s
     then out s' = out s @ [Schedule TxPktTimer (txtime (cmn x)), Down (sent_packet s x)] \<and>
       queue_rep (safety_packet_queue s') ys
     else s' = s\<lparr>slot_state := SAFETY\<rparr>)"
proof (cases xs)
  case Nil
  with assms(1,2) pq.front_Nil show ?thesis by (fastforce simp: send_safety_def)
next
  case (Cons x ys)
  with assms(1) have q: "queue_rep (safety_packet_queue s) (x # ys)" by simp
  from pq.deq_Cons [OF q] obtain q' where d: "Dequeue (safety_packet_queue s) = Some (Some x, q')" "queue_rep q' ys"
    by blast
  let ?s1 = "s\<lparr>safety_packet_queue := q'\<rparr>"
  have "link_inv ?s1" "sent_packet ?s1 x = sent_packet s x" "tx_state ?s1 = MAC_IDLE"
    using assms(3,4) by (simp_all add: link_inv_def sent_packet_def)
  then show ?thesis
    using sendPacket_spec [of ?s1 x PACKET_SAFETY] assms(2,5) Cons pq.front_Cons [OF q] d
    by (auto simp: send_safety_def split: if_splits) (simp add: emit_def)
qed

section \<open>Properties\<close>

definition clear_error :: "packet \<Rightarrow> packet" where
  "clear_error p = (if ch_error (cmn p) = 1 then p\<lparr>cmn := (cmn p)\<lparr>ch_error := 0\<rparr>\<rparr> else p)"

lemma pkt_ok_clear_error [simp]: "pkt_ok (clear_error p) = pkt_ok p"
  by (simp add: pkt_ok_def clear_error_def)

text \<open>
  C16: a packet from the physical layer is accounted for in every state of the receiver and the
  transmitter: \<open>recv\<close> returns, the link invariant holds again, nothing reaches the upper layers yet,
  and the packet now held together with the packets disposed of are exactly the packet held before
  and the new one; none is lost and none is freed twice.
\<close>

theorem recv_accounts_for_packets:
  assumes "link_inv s" and "pkt_ok p" and "0 < bandwidth (ph e)" and "direction (cmn p) = UP"
  shows "\<exists>s' es. recv e p h s = Some s' \<and> link_inv s' \<and> out s' = out s @ es \<and> (\<forall>q. Up q \<notin> set es) \<and>
    held s' + gone_all es = held s + {#clear_error p#}"
proof -
  have "direction (cmn (clear_error p)) = UP" using assms(4) by (simp add: clear_error_def)
  then have "recv e p h s = sendUp e (clear_error p) s" by (simp add: recv_def clear_error_def Let_def)
  with sendUp_spec [of s "clear_error p" e] assms show ?thesis
    by (auto simp: succeeds_iff rx_step_def balanced_def silent_def)
qed

text \<open>A safety packet on its way up, and a node that is receiving such a packet.\<close>

definition example_packet :: "rat \<Rightarrow> packet" where
  "example_packet pr = (let p = generate_safe_packet example_marshal example_phy 2 in
     p\<lparr>cmn := (cmn p)\<lparr>direction := UP\<rparr>, rx_pr := pr, cp_thresh := 10\<rparr>)"

definition receiving :: "packet \<Rightarrow> mac" where
  "receiving p = (example_mac (example_node 1 []))\<lparr>rx_state := MAC_RECV, pktRx := Some p,
     mhRxPkt := running 0 (1 / 1000) new_timer\<rparr>"

lemma example_packet_ok [simp]: "pkt_ok (example_packet pr)" "direction (cmn (example_packet pr)) = UP"
  "rx_pr (example_packet pr) = pr" "cp_thresh (example_packet pr) = 10"
  by (simp_all add: example_packet_def generate_safe_packet_def mgmt_header_def mgmt_cmn_def pkt_ok_def Let_def
      PHY_TDMA_Overhead_def TDMA_Overhead_def example_phy_def zero_mac_hdr_def zero_fc_def)

lemma receiving_fields [simp]:
  "rx_state (receiving p) = MAC_RECV" "pktRx (receiving p) = Some p" "t_busy (mhRxPkt (receiving p))"
  "tx_state (receiving p) = MAC_IDLE" "radio_active (receiving p)" "out (receiving p) = []"
  "mhTxPkt (receiving p) = new_timer" "initialed (receiving p)"
  by (simp_all add: receiving_def)

lemma receiving_ok [simp]: "pkt_ok p \<Longrightarrow> link_inv (receiving p)" "held (receiving p) = {#p#}"
  by (simp_all add: link_inv_def held_def)

lemma example_bandwidth [simp]: "0 < bandwidth example_phy"
  by (simp add: example_phy_def)

theorem recv_accounts_for_packets_witness:
  "\<exists>s' es. recv example_env (example_packet 1) False (receiving (example_packet 2)) = Some s' \<and> link_inv s' \<and>
    out s' = out (receiving (example_packet 2)) @ es \<and> (\<forall>q. Up q \<notin> set es) \<and>
    held s' + gone_all es = held (receiving (example_packet 2)) + {#clear_error (example_packet 1)#}"
  by (rule recv_accounts_for_packets) simp_all

text \<open>
  C17: two packets that collide are both lost: if a packet arrives while another is being received
  and is not weak enough to be ignored, then at the end of the reception the receiver is idle again,
  no packet and no frame information went up, and exactly the two packets were disposed of.
\<close>

theorem collision_destroys_both:
  assumes "link_inv s" and "rx_state s \<noteq> MAC_IDLE" and "pktRx s = Some old" and "\<not> captured old p"
    and "pkt_ok p" and "0 < bandwidth (ph e)" and "radio_active s" and "tx_state s = MAC_IDLE"
  shows "\<exists>s1 s2 es. sendUp e p s = Some s1 \<and> RxPktTdmaTimer_handle e s1 = Some s2 \<and> link_inv s2 \<and>
    rx_state s2 = MAC_IDLE \<and> received_fi_list s2 = received_fi_list s \<and> out s2 = out s @ es \<and>
    (\<forall>q. Up q \<notin> set es) \<and> gone_all es = {#old, p#}"
proof -
  from collision_spec [OF assms(1,2,5,6)] obtain s1 where
    s1: "collision e p s = Some s1" "rx_step s p s1" "rx_state s1 \<in> {MAC_COLL, MAC_BUSY}" unfolding succeeds_iff by blast
  have up: "sendUp e p s = Some s1" using assms s1(1) by (simp add: sendUp_def)
  let ?s1 = "s1\<lparr>mhRxPkt := timer_handle (mhRxPkt s1)\<rparr>"
  from s1(2,3) rx_due_handle [of s1] obtain q where q: "rx_due ?s1 q" by (auto simp: rx_step_def)
  from recvHandler_disturbed [OF q] s1(3) obtain s2 where
    s2: "recvHandler e ?s1 = Some s2" "rx_state s2 = MAC_IDLE" "link_inv s2" "balanced ?s1 {#} s2" "silent ?s1 s2"
    by (auto simp: succeeds_iff)
  from s1(2) obtain es1 where es1: "out s1 = out s @ es1" "held s1 + gone_all es1 = held s + {#p#}"
    "\<forall>q. Up q \<notin> set es1" "received_fi_list s1 = received_fi_list s"
    by (auto simp: rx_step_def balanced_def silent_def)
  from s2(4,5) obtain es2 where es2: "out s2 = out s1 @ es2" "held s2 + gone_all es2 = held ?s1"
    "\<forall>q. Up q \<notin> set es2" "received_fi_list s2 = received_fi_list s1"
    by (auto simp: balanced_def silent_def)
  have "held s2 = {#}" "held ?s1 = held s1" "held s = {#old#}"
    using s2(2) assms(2,3) by (simp_all add: held_def)
  with es1(2) es2(2) have "gone_all (es1 @ es2) = {#old, p#}" by (simp add: union_commute)
  with up s2 es1 es2 show ?thesis
    unfolding RxPktTdmaTimer_handle_def by (intro exI [of _ s1] exI [of _ s2] exI [of _ "es1 @ es2"]) simp
qed

theorem collision_destroys_both_witness:
  "\<exists>s1 s2 es. sendUp example_env (example_packet 1) (receiving (example_packet 2)) = Some s1 \<and>
    RxPktTdmaTimer_handle example_env s1 = Some s2 \<and> link_inv s2 \<and> rx_state s2 = MAC_IDLE \<and>
    received_fi_list s2 = received_fi_list (receiving (example_packet 2)) \<and>
    out s2 = out (receiving (example_packet 2)) @ es \<and> (\<forall>q. Up q \<notin> set es) \<and>
    gone_all es = {#example_packet 2, example_packet 1#}"
  by (rule collision_destroys_both) (simp_all add: captured_def)


lemma example_packet_not_FI [simp]: "\<not> is_FI (example_packet pr)"
  by (simp add: is_FI_def example_packet_def generate_safe_packet_def mgmt_header_def Let_def)



definition ready_to_send :: mac where
  "ready_to_send = (example_mac (example_node 1 []))\<lparr>pktFI := Some (example_packet 1)\<rparr>"

lemma example_packet_txtime [simp]: "0 \<le> txtime (cmn (example_packet pr))"
  by (simp add: example_packet_def generate_safe_packet_def mgmt_cmn_def Let_def DATA_Time_def example_phy_def
      PHY_TDMA_Overhead_def TDMA_Overhead_def)


text \<open>
  C23: a safety packet is sent only if its transmission ends before the slot does. The time that
  \<open>get_Remain_slottime\<close> computes is too short by \<open>start_time_\<close>, never too long.
\<close>

theorem safety_packet_fits_slot:
  assumes "link_inv s" and "tx_state s = MAC_IDLE" and "slot_state s = FI"
    and "queue_rep (safety_packet_queue s) xs" and "\<forall>x \<in> set xs. 0 \<le> txtime (cmn x)"
    and "0 < slot_time s" and "0 \<le> start_time s" and "start_time s \<le> clock s"
    and "backoffHandler s = Some s'" and "out s' = out s @ es" and "Down q \<in> set es"
  shows "clock s + txtime (cmn q) < slot_end s"
proof -
  have "send_safety s = Some s' \<or> s' = s"
    using assms(3,9) by (auto simp: backoffHandler_def split: node_state.splits)
  moreover have "s' \<noteq> s" using assms(10,11) by auto
  ultimately have "send_safety s = Some s'" by blast
  from send_safety_spec [OF assms(4) this assms(1,2,5)] obtain x ys where
    x: "if txtime (cmn x) < remain_slottime s
      then out s' = out s @ [Schedule TxPktTimer (txtime (cmn x)), Down (sent_packet s x)] \<and>
        queue_rep (safety_packet_queue s') ys
      else s' = s\<lparr>slot_state := SAFETY\<rparr>" by blast
  have lt: "txtime (cmn x) < remain_slottime s" using x assms(10,11) by (auto split: if_splits)
  with x assms(10,11) have "q = sent_packet s x" by auto
  with lt remain_slottime_eq [OF assms(6,8)] assms(7) show ?thesis by simp
qed

definition safety_node :: mac where
  "safety_node = (example_mac (example_node 1 []))\<lparr>slot_state := FI,
     safety_packet_queue := snd (the (Enqueue (example_packet 1) (new_Packet_queue 100)))\<rparr>"

lemma safety_node_queue: "queue_rep (safety_packet_queue safety_node) [example_packet 1]"
proof -
  have "\<exists>q. Enqueue (example_packet 1) (new_Packet_queue 100) = Some (1, q) \<and> queue_rep q [example_packet 1]"
    using pq.enq_spec [OF new_Packet_queue_rep, of 100 "example_packet 1"] by (auto simp: new_Packet_queue_def)
  then show ?thesis by (auto simp: safety_node_def)
qed

theorem safety_packet_fits_slot_witness:
  "\<exists>s' es q. backoffHandler safety_node = Some s' \<and> out s' = es \<and> Down q \<in> set es \<and>
     clock safety_node + txtime (cmn q) < slot_end safety_node"
proof -
  have "map_option (\<lambda>s. map (\<lambda>x. case x of Down q \<Rightarrow> True | _ \<Rightarrow> False) (out s)) (backoffHandler safety_node) =
      Some [False, True]" by code_simp
  then obtain s' where s': "backoffHandler safety_node = Some s'"
    "map (\<lambda>x. case x of Down q \<Rightarrow> True | _ \<Rightarrow> False) (out s') = [False, True]" by auto
  then obtain x y where o: "out s' = [x, y]" "case y of Down q \<Rightarrow> True | _ \<Rightarrow> False" by auto
  then obtain q where q: "Down q \<in> set (out s')" by (auto split: effect.splits)
  have "out s' = out safety_node @ out s'" by (simp add: safety_node_def)
  from safety_packet_fits_slot [OF _ _ _ safety_node_queue _ _ _ _ s'(1) this q]
  have "clock safety_node + txtime (cmn q) < slot_end safety_node"
    by (simp add: safety_node_def link_inv_def)
  with s'(1) q show ?thesis by blast
qed



end
