(* ===== verification/Mac_Node.thy ===== *)
theory Mac_Node
  imports Slot_Handler Mac_Link
begin

text \<open>
  A whole node: the handlers of \<open>MacTdma\<close> as the steps of one transition system. The scheduler of the
  simulator runs a handler when the timer it was scheduled for expires, and time does not pass a
  pending event; packets arrive at any moment and with any content. The theorems say that no
  sequence of events makes a handler abort, and what a working node must have done before.
\<close>

section \<open>Receiving arbitrary bytes\<close>

lemma bits_exist: "\<exists>x :: nat. \<forall>k < n. bit x k = f k"
  by (intro exI [of _ "horner_sum of_bool 2 (map f [0..<n])"]) (simp add: bit_horner_sum_bit_iff)

lemma stored_exists: "p + n \<le> buffer_bits b \<Longrightarrow> \<exists>x. fi.stored b p n x"
  using bits_exist [of n "\<lambda>k. buffer_bit b (p + n - 1 - k)"] by (auto simp: fi.stored_def)

lemma stored_cong: "fi.stored b p n x \<Longrightarrow> (\<And>k. k < n \<Longrightarrow> bit y k = bit x k) \<Longrightarrow> fi.stored b p n y"
  by (simp add: fi.stored_def)

lemma stored_tag_exists:
  assumes "p + 28 \<le> buffer_bits b"
  shows "\<exists>t. stored_tag b p t"
proof -
  from stored_exists [of p 2 b] stored_exists [of "p + 2" 16 b] stored_exists [of "p + 18" 8 b]
    stored_exists [of "p + 26" 2 b] assms obtain x1 x2 x3 x4 where
    x: "fi.stored b p 2 x1" "fi.stored b (p + 2) 16 x2" "fi.stored b (p + 18) 8 x3" "fi.stored b (p + 26) 2 x4"
    by auto
  let ?t = "new_slot_tag\<lparr>busy := word_of_nat x1, sti := word_of_nat x2, count_2hop := int x3, psf := word_of_nat x4\<rparr>"
  have "nat (int x3 mod 256) = take_bit 8 x3" by (simp add: take_bit_eq_mod nat_mod_distrib)
  then have "stored_tag b p ?t"
    unfolding stored_tag_def using x
    by (auto elim!: stored_cong simp: bit_unsigned_iff bit_of_nat_iff bit_take_bit_iff)
  then show ?thesis ..
qed

lemma tag_ok_wire_tag [simp]: "tag_ok (wire_tag t)"
proof -
  have "take_bit 2 v \<le> 3" for v :: u8
    using take_bit_nat_less_exp [of 2 "unat v"] by (simp add: word_le_nat_alt unsigned_take_bit_eq)
  then show ?thesis by (simp add: wire_tag_def tag_ok_def)
qed

lemma recvFI_any:
  assumes "\<not> adj_frame_ena c" and "0 < max_slot_num r" and "max_slot_num r \<le> max_frame_len"
    and "20 + 28 * max_slot_num r \<le> 8 * int (length b)"
  shows "\<exists>fi. recvFI c b src r = Some (get_new_FI fi r) \<and> frame_ok fi \<and> frame_len fi = max_slot_num r"
proof -
  let ?n = "nat (max_slot_num r)"
  have bits: "20 + 28 * ?n \<le> buffer_bits b" using assms(2,4) by (simp add: buffer_bits_def)
  from stored_exists [of 0 16 b] stored_exists [of 16 4 b] bits obtain x y where
    xy: "fi.stored b 0 16 x" "fi.stored b 16 4 y" by auto
  have hd: "fi_header b (word_of_nat x) (take_bit 4 y)"
    unfolding fi_header_def using xy
    by (auto elim!: stored_cong simp: bit_unsigned_iff bit_of_nat_iff bit_take_bit_iff)
  have "\<forall>i < ?n. \<exists>t. stored_tag b (20 + 28 * i) t" using bits by (intro allI impI stored_tag_exists) simp
  then obtain u where u: "\<forall>i < ?n. stored_tag b (20 + 28 * i) (u i)" by metis
  let ?us = "map u [0..<?n]"
  have "take_bit 4 y < 16" by (simp add: take_bit_eq_mod)
  from recvFI_stored [OF hd this, of ?n c r ?us src] assms(1,2) u have
    "recvFI c b src r = Some (get_new_FI (received_fi (take_bit 16 (word_of_nat x)) src (map wire_tag ?us) r) r)"
    by simp
  moreover have "frame_ok (received_fi (take_bit 16 (word_of_nat x)) src (map wire_tag ?us) r)"
    using assms(2,3) by (auto simp: frame_ok_def received_fi_def)
  ultimately show ?thesis using assms(2) by (auto simp: received_fi_def)
qed

section \<open>The transition system\<close>

datatype mac_event =
    Tick rat
  | DelayEv
  | SlotEv rat
  | BackoffEv
  | TxEv packet
  | RxEv
  | ArriveEv packet bool

definition expiry :: "'a mac_timer_scheme \<Rightarrow> rat" where
  "expiry t = stime t + rtime t"

definition backoff_expiry :: "backoff_timer \<Rightarrow> rat" where
  "backoff_expiry t = stime t + rtime t + difs_wait t"

definition pending_at :: "rat \<Rightarrow> 'a mac_scheme \<Rightarrow> bool" where
  "pending_at now s \<longleftrightarrow> (t_busy (mhDelayInit s) \<longrightarrow> now \<le> expiry (mhDelayInit s)) \<and>
     (t_busy (mhSlot s) \<longrightarrow> now \<le> expiry (mhSlot s)) \<and>
     (t_busy (mhTxPkt s) \<longrightarrow> now \<le> expiry (mhTxPkt s)) \<and>
     (t_busy (mhBackoff s) \<longrightarrow> now \<le> backoff_expiry (mhBackoff s))"

text \<open>What a packet must be for the MAC to handle it: a header \<open>discard\<close> accepts; an FI has a payload of full length.\<close>

definition arrival_ok :: "env \<Rightarrow> packet \<Rightarrow> bool" where
  "arrival_ok e p \<longleftrightarrow> pkt_ok p \<and> (is_FI p \<longrightarrow> 20 + 28 * frame_len0 e \<le> 8 * int (length (pdata p)))"

definition enabled :: "env \<Rightarrow> mac_event \<Rightarrow> 'a mac_scheme \<Rightarrow> bool" where
  "enabled e ev s \<longleftrightarrow>
     (case ev of
        Tick d \<Rightarrow> 0 \<le> d \<and> pending_at (clock s + d) s
      | DelayEv \<Rightarrow> t_busy (mhDelayInit s) \<and> clock s = expiry (mhDelayInit s)
      | SlotEv z \<Rightarrow> t_busy (mhSlot s) \<and> clock s = expiry (mhSlot s)
      | BackoffEv \<Rightarrow> t_busy (mhBackoff s) \<and> clock s = backoff_expiry (mhBackoff s)
      | TxEv p \<Rightarrow> t_busy (mhTxPkt s) \<and> clock s = expiry (mhTxPkt s)
      | RxEv \<Rightarrow> t_busy (mhRxPkt s)
      | ArriveEv p h \<Rightarrow> arrival_ok e p)"

definition mac_exec :: "env \<Rightarrow> mac_event \<Rightarrow> 'a mac_scheme \<Rightarrow> 'a mac_scheme option" where
  "mac_exec e ev s =
     (case ev of
        Tick d \<Rightarrow> Some (s\<lparr>clock := clock s + d\<rparr>)
      | DelayEv \<Rightarrow> DelayInitTimer_handle s
      | SlotEv z \<Rightarrow> SlotTdmaTimer_handle e z s
      | BackoffEv \<Rightarrow> TdmaBackoffTimer_handle s
      | TxEv p \<Rightarrow> TxPktTdmaTimer_handle e p s
      | RxEv \<Rightarrow> RxPktTdmaTimer_handle e s
      | ArriveEv p h \<Rightarrow> recv e p h s)"

inductive reach :: "env \<Rightarrow> 'a mac_scheme \<Rightarrow> 'a mac_scheme \<Rightarrow> bool" for e :: env and s0 :: "'a mac_scheme" where
  start: "reach e s0 s0"
| step: "reach e s0 s \<Longrightarrow> enabled e ev s \<Longrightarrow> mac_exec e ev s = Some s' \<Longrightarrow> reach e s0 s'"

section \<open>The invariant\<close>

text \<open>The environment: a fixed frame length, no test mode, radio and interframe space sensible.\<close>

definition run_ok :: "env \<Rightarrow> bool" where
  "run_ok e \<longleftrightarrow> env_ok e \<and> \<not> adj_frame_ena (cfg e) \<and> \<not> random_bch_if_single_switch (cfg e) \<and>
     0 < bandwidth (ph e)"

text \<open>An FI packet and the interframe space fit into a slot.\<close>

definition FI_fits :: "env \<Rightarrow> 'a mac_scheme \<Rightarrow> bool" where
  "FI_fits e s \<longleftrightarrow>
     SIFSTime (ph e) + DATA_Time (ph e) (fi_size (frame_len0 e) + PHY_TDMA_Overhead (ph e)) < slot_time s"

definition run_inv :: "env \<Rightarrow> 'a mac_scheme \<Rightarrow> bool" where
  "run_inv e s \<longleftrightarrow> node_inv e s \<and> link_inv s \<and> queue_rep (safety_packet_queue s) [] \<and> FI_fits e s \<and>
     pending_at (clock s) s \<and>
     (\<forall>p. rx_state s \<noteq> MAC_IDLE \<longrightarrow> pktRx s = Some p \<longrightarrow> arrival_ok e p) \<and>
     (t_busy (mhDelayInit s) \<longrightarrow> \<not> t_busy (mhSlot s) \<and>
        of_int (slot_count s + 1) * slot_time s \<le> clock s - start_time s) \<and>
     (t_busy (mhTxPkt s) \<longrightarrow> t_busy (mhSlot s) \<and> expiry (mhTxPkt s) < expiry (mhSlot s)) \<and>
     (t_busy (mhBackoff s) \<longrightarrow> t_busy (mhSlot s) \<and> \<not> t_busy (mhTxPkt s) \<and> slot_state s = BEGINING \<and>
        node_state s \<in> {NODE_REQUEST, NODE_WORK_FI, NODE_WORK_ADJ} \<and>
        (\<exists>p. pktFI s = Some p \<and> 0 \<le> txtime (cmn p) \<and>
           backoff_expiry (mhBackoff s) + txtime (cmn p) < expiry (mhSlot s)))"

lemma node_inv_link_update [simp]:
  fixes s :: "'a mac_scheme"
  shows "node_inv e (s\<lparr>clock := a\<rparr>) = node_inv e s" "node_inv e (s\<lparr>mhDelayInit := b\<rparr>) = node_inv e s"
    "node_inv e (s\<lparr>mhSlot := b\<rparr>) = node_inv e s" "node_inv e (s\<lparr>mhTxPkt := b\<rparr>) = node_inv e s"
    "node_inv e (s\<lparr>mhRxPkt := b\<rparr>) = node_inv e s" "node_inv e (s\<lparr>mhBackoff := c\<rparr>) = node_inv e s"
    "node_inv e (s\<lparr>rx_state := d\<rparr>) = node_inv e s" "node_inv e (s\<lparr>tx_state := d\<rparr>) = node_inv e s"
    "node_inv e (s\<lparr>pktRx := f\<rparr>) = node_inv e s" "node_inv e (s\<lparr>pktFI := f\<rparr>) = node_inv e s"
    "node_inv e (s\<lparr>callback := g\<rparr>) = node_inv e s" "node_inv e (s\<lparr>mstate := d\<rparr>) = node_inv e s"
    "node_inv e (s\<lparr>slot_state := h\<rparr>) = node_inv e s" "node_inv e (s\<lparr>stats := i\<rparr>) = node_inv e s"
    "node_inv e (s\<lparr>out := es\<rparr>) = node_inv e s" "node_inv e (emit es s) = node_inv e s"
    "node_inv e (mod_stats m s) = node_inv e s"
  by (simp_all add: node_inv_def core_def table_ok_def received_ok_def frame_inv_def adj_ok_def tags_def
      emit_def mod_stats_def)

lemma link_inv_update [simp]:
  "link_inv (s\<lparr>clock := a\<rparr>) = link_inv s" "link_inv (s\<lparr>mhDelayInit := b\<rparr>) = link_inv s"
  "link_inv (s\<lparr>mhSlot := b\<rparr>) = link_inv s" "link_inv (s\<lparr>mhBackoff := c\<rparr>) = link_inv s"
  "link_inv (s\<lparr>pktFI := f\<rparr>) = link_inv s" "link_inv (s\<lparr>out := es\<rparr>) = link_inv s"
  by (simp_all add: link_inv_def)

lemma run_inv_parts:
  assumes "run_inv e s"
  shows "node_inv e s" "link_inv s" "queue_rep (safety_packet_queue s) []" "FI_fits e s" "pending_at (clock s) s"
    "rx_state s \<noteq> MAC_IDLE \<Longrightarrow> pktRx s = Some p \<Longrightarrow> arrival_ok e p"
    "t_busy (mhDelayInit s) \<Longrightarrow> \<not> t_busy (mhSlot s)"
    "t_busy (mhTxPkt s) \<Longrightarrow> t_busy (mhSlot s) \<and> expiry (mhTxPkt s) < expiry (mhSlot s)"
  using assms by (simp_all add: run_inv_def)

lemma run_inv_backoffD:
  assumes "run_inv e s" and "t_busy (mhBackoff s)"
  obtains p :: packet where "pktFI s = Some p" and "0 \<le> txtime (cmn p)"
    and "backoff_expiry (mhBackoff s) + txtime (cmn p) < expiry (mhSlot s)" and "t_busy (mhSlot s)"
    and "\<not> t_busy (mhTxPkt s)" and "slot_state s = BEGINING"
    and "node_state s \<in> {NODE_REQUEST, NODE_WORK_FI, NODE_WORK_ADJ}"
  using assms unfolding run_inv_def by blast

text \<open>One event: the invariant holds again, and the protocol machine moved along one edge or not at all.\<close>

definition step_post :: "env \<Rightarrow> 'a mac_scheme \<Rightarrow> 'a mac_scheme \<Rightarrow> bool" where
  "step_post e s s' \<longleftrightarrow>
     run_inv e s' \<and> (node_state s' = node_state s \<or> node_step (node_state s) (node_state s'))"

lemma run_inv_tick:
  assumes "run_inv e s" and "enabled e (Tick d) s"
  shows "succeeds (mac_exec e (Tick d) s) (step_post e s)"
proof -
  have d: "0 \<le> d" "pending_at (clock s + d) s" using assms(2) by (simp_all add: enabled_def)
  then have "pending_at (clock s + d) (s\<lparr>clock := clock s + d\<rparr>)" by (simp add: pending_at_def)
  with assms(1) d(1) show ?thesis by (auto simp: step_post_def run_inv_def mac_exec_def FI_fits_def)
qed

lemma run_inv_delay:
  assumes "run_inv e s" and "enabled e DelayEv s"
  shows "succeeds (mac_exec e DelayEv s) (step_post e s)"
proof -
  have b: "\<not> t_busy (mhSlot s)" "of_int (slot_count s + 1) * slot_time s \<le> clock s - start_time s"
    "\<not> t_busy (mhTxPkt s)" "\<not> t_busy (mhBackoff s)"
    using assms by (auto simp: run_inv_def enabled_def)
  let ?t = "clock s - start_time s - of_int (slot_count s + 1) * slot_time s"
  let ?s = "s\<lparr>mhDelayInit := timer_handle (mhDelayInit s), mhSlot := running (clock s) ?t (mhSlot s)\<rparr>"
  have "mac_exec e DelayEv s = Some (emit [Schedule SlotTimer ?t] ?s)"
    using b by (simp add: mac_exec_def DelayInitTimer_handle_def delayInitHandler_def start_slot_timer_def
        timer_start_def running_def)
  moreover have "run_inv e (emit [Schedule SlotTimer ?t] ?s)"
    using assms(1) b(2-4)
    by (simp add: run_inv_def FI_fits_def pending_at_def timer_handle_def expiry_def running_def emit_def)
  ultimately show ?thesis by (simp add: step_post_def)
qed

lemma run_inv_slot:
  assumes "run_inv e s" and "enabled e (SlotEv z) s" and "run_ok e"
  shows "succeeds (mac_exec e (SlotEv z) s) (step_post e s)"
proof -
  let ?s = "s\<lparr>mhSlot := timer_handle (mhSlot s)\<rparr>"
  have slot: "t_busy (mhSlot s)" "clock s = expiry (mhSlot s)" using assms(2) by (simp_all add: enabled_def)
  note inv = run_inv_parts [OF assms(1)]
  have d: "\<not> t_busy (mhDelayInit s)" using inv(7) slot(1) by blast
  have tx: "\<not> t_busy (mhTxPkt s)"
    using inv(8) inv(5) slot(2) by (auto simp: pending_at_def)
  have bo: "\<not> t_busy (mhBackoff s)"
  proof
    assume b: "t_busy (mhBackoff s)"
    from run_inv_backoffD [OF assms(1) b] obtain p :: packet where
      "0 \<le> txtime (cmn p)" "backoff_expiry (mhBackoff s) + txtime (cmn p) < expiry (mhSlot s)" by blast
    then have "backoff_expiry (mhBackoff s) < clock s" using slot(2) by simp
    with inv(5) b show False by (simp add: pending_at_def)
  qed
  have len: "max_slot_num s = frame_len0 e"
    using inv(1) assms(3) by (simp add: node_inv_def core_def frame_inv_def run_ok_def)
  have "succeeds (slotHandler e z ?s) (slot_post e ?s)"
  proof (rule slotHandler_post)
    show "enable ?s \<longrightarrow> slot_num ?s \<le> max_slot_num ?s"
      using inv(1) assms(3) by (auto simp: node_inv_def run_ok_def)
  qed (use inv(1) assms(3) bo in \<open>simp_all add: run_ok_def timer_handle_def\<close>)
  then have "succeeds (slotHandler e z ?s) (step_post e s)"
  proof (rule succeeds_mono)
    fix s' assume p: "slot_post e ?s s'"
    then have f: "node_inv e s'" "t_busy (mhSlot s')" "expiry (mhSlot s') = clock s + slot_time s" "slot_state s' = BEGINING"
      "clock s' = clock s" "slot_time s' = slot_time s" "mhTxPkt s' = mhTxPkt s" "mhRxPkt s' = mhRxPkt s"
      "rx_state s' = rx_state s" "tx_state s' = tx_state s" "pktRx s' = pktRx s" "mhDelayInit s' = mhDelayInit s"
      "safety_packet_queue s' = safety_packet_queue s" "t_busy (mhBackoff s') \<longrightarrow> sending_ok e s'"
      by (auto simp: slot_post_def link_same_def expiry_def)
    have link: "link_inv s'" using inv(2) f by (simp add: link_inv_def)
    have len': "max_slot_num s' = frame_len0 e"
      using f(1) assms(3) by (simp add: node_inv_def core_def frame_inv_def run_ok_def)
    have time: "0 \<le> DATA_Time (ph e) (fi_size (frame_len0 e) + PHY_TDMA_Overhead (ph e))"
    proof -
      have "0 < max_slot_num s" using inv(1) by (simp add: node_inv_def core_def table_ok_def)
      with len fi_size_bits [of "frame_len0 e"] have "0 \<le> fi_size (frame_len0 e) + PHY_TDMA_Overhead (ph e)"
        by (simp add: PHY_TDMA_Overhead_def TDMA_Overhead_def)
      then show ?thesis unfolding DATA_Time_def using assms(3) by (intro divide_nonneg_pos) (simp_all add: run_ok_def)
    qed
    have "0 \<le> SIFSTime (ph e)" using assms(3) by (simp add: run_ok_def env_ok_def)
    then have "run_inv e s'"
      using f inv link len' tx d time
      by (auto simp: run_inv_def FI_fits_def pending_at_def sending_ok_def FI_ready_def backoff_expiry_def)
    then show "step_post e s s'" using p by (auto simp: step_post_def slot_post_def)
  qed
  then show ?thesis by (simp add: mac_exec_def SlotTdmaTimer_handle_def)
qed

lemma run_inv_backoff:
  assumes "run_inv e s" and "enabled e BackoffEv s"
  shows "succeeds (mac_exec e BackoffEv s) (step_post e s)"
proof -
  let ?s = "s\<lparr>mhBackoff := backoff_handle (mhBackoff s)\<rparr>"
  have b: "t_busy (mhBackoff s)" "clock s = backoff_expiry (mhBackoff s)" using assms(2) by (simp_all add: enabled_def)
  from run_inv_backoffD [OF assms(1) b(1)] obtain p where
    p: "pktFI s = Some p" "0 \<le> txtime (cmn p)" "clock s + txtime (cmn p) < expiry (mhSlot s)" "t_busy (mhSlot s)"
      "\<not> t_busy (mhTxPkt s)" "slot_state s = BEGINING" "node_state s \<in> {NODE_REQUEST, NODE_WORK_FI, NODE_WORK_ADJ}"
    using b(2) by metis
  have l: "link_inv ?s" "tx_state ?s = MAC_IDLE" using assms(1) p(5) by (auto simp: run_inv_def link_inv_def)
  let ?t = "txtime (cmn p)"
  let ?s' = "(emit [Schedule TxPktTimer ?t, Down (sent_packet ?s p)] (?s\<lparr>tx_state := MAC_SEND,
    mhTxPkt := running (clock s) ?t (mhTxPkt s), slot_state := FI\<rparr>))\<lparr>pktFI := None\<rparr>"
  have ex: "mac_exec e BackoffEv s = Some ?s'"
    using sendPacket_spec [OF l p(2), of PACKET_FI] p(1,6,7)
    by (auto simp: mac_exec_def TdmaBackoffTimer_handle_def backoffHandler_def send_pktFI_def)
  have "link_inv ?s'" using l(1) by (simp add: link_inv_def)
  moreover have "\<not> t_busy (backoff_handle (mhBackoff s))" by (simp add: backoff_handle_def timer_handle_def)
  ultimately have "run_inv e ?s'"
    using assms(1) p(2-4)
    by (auto simp: run_inv_def FI_fits_def pending_at_def expiry_def running_def emit_def)
  with ex show ?thesis by (simp add: step_post_def)
qed

text \<open>What the reception of packets leaves alone.\<close>

definition rest_same :: "'a mac_scheme \<Rightarrow> 'a mac_scheme \<Rightarrow> bool" where
  "rest_same s s' \<longleftrightarrow> mhSlot s' = mhSlot s \<and> mhTxPkt s' = mhTxPkt s \<and> mhBackoff s' = mhBackoff s \<and>
     mhDelayInit s' = mhDelayInit s \<and> clock s' = clock s \<and> slot_time s' = slot_time s \<and>
     start_time s' = start_time s \<and> slot_count s' = slot_count s \<and> slot_state s' = slot_state s \<and>
     node_state s' = node_state s \<and> pktFI s' = pktFI s \<and> safety_packet_queue s' = safety_packet_queue s"

definition table_same :: "'a mac_scheme \<Rightarrow> 'a mac_scheme \<Rightarrow> bool" where
  "table_same s s' \<longleftrightarrow> rest_same s s' \<and> collected_fi s' = collected_fi s \<and>
     received_fi_list s' = received_fi_list s \<and> max_slot_num s' = max_slot_num s \<and> slot_num s' = slot_num s \<and>
     slot_adj_candidate s' = slot_adj_candidate s \<and> total_slot_count s' = total_slot_count s \<and>
     adj_free_threshold s' = adj_free_threshold s \<and> enable s' = enable s \<and> initialed s' = initialed s"

lemma table_same_node: "table_same s s' \<Longrightarrow> node_inv e s' = node_inv e s"
  by (simp add: table_same_def rest_same_def node_inv_def core_def table_ok_def received_ok_def frame_inv_def
      adj_ok_def tags_def)

lemma table_same_trans: "table_same s s' \<Longrightarrow> table_same s' s'' \<Longrightarrow> table_same s s''"
  by (simp add: table_same_def rest_same_def)

lemma table_same_update [simp]:
  "table_same s (emit es s)" "table_same s (s\<lparr>rx_state := a\<rparr>)" "table_same s (s\<lparr>mhRxPkt := b\<rparr>)"
  "table_same s (s\<lparr>pktRx := c\<rparr>)" "table_same s s" "table_same s (s\<lparr>callback := d, mstate := a\<rparr>)"
  by (simp_all add: table_same_def rest_same_def emit_def)

lemma discard_same: "discard e p s = Some s' \<Longrightarrow> table_same s s'"
  by (auto simp: discard_def Let_def split: if_splits)

lemma rx_timer_same: "start_rx_timer t s = Some s' \<Longrightarrow> table_same s s'" "stop_rx_timer s = Some s' \<Longrightarrow> table_same s s'"
  by (auto simp: start_rx_timer_def stop_rx_timer_def table_same_def rest_same_def emit_def)

lemma replace_rx_same:
  assumes "replace_rx e p s = Some s'"
  shows "table_same s s'"
proof -
  from assms obtain old s1 s2 t where st: "stop_rx_timer s = Some s1" "discard e old s1 = Some s2"
    "start_rx_timer t (s2\<lparr>pktRx := Some p\<rparr>) = Some s'"
    by (auto simp: replace_rx_def bind_eq_Some_conv)
  have "table_same s s2" by (rule table_same_trans [OF rx_timer_same(2) [OF st(1)] discard_same [OF st(2)]])
  moreover have "table_same s2 (s2\<lparr>pktRx := Some p\<rparr>)" by simp
  ultimately show ?thesis using rx_timer_same(1) [OF st(3)] table_same_trans by blast
qed

lemma collision_same:
  assumes "collision e p s = Some s'"
  shows "table_same s s'"
proof -
  define s1 where "s1 = (if rx_state s = MAC_RECV then s\<lparr>rx_state := MAC_COLL\<rparr> else s)"
  have s1: "table_same s s1" by (simp add: s1_def)
  from assms consider s2 where "replace_rx e p s1 = Some s2" "s' = s2\<lparr>rx_state := MAC_COLL\<rparr>" | "discard e p s1 = Some s'"
    unfolding collision_def Let_def s1_def [symmetric] by (auto simp: bind_eq_Some_conv split: if_splits)
  then show ?thesis
  proof cases
    case 1
    from table_same_trans [OF s1 replace_rx_same [OF 1(1)]] show ?thesis
      unfolding 1(2) by (rule table_same_trans) simp
  next
    case 2
    from table_same_trans [OF s1 discard_same [OF this]] show ?thesis .
  qed
qed

lemma sendUp_same:
  assumes "sendUp e p s = Some s'"
  shows "table_same s s'"
proof -
  let ?s = "s\<lparr>rx_state := MAC_RECV, pktRx := Some p\<rparr>"
  have r: "table_same s ?s" by (simp add: table_same_def rest_same_def)
  from assms consider x where "s' = emit [x] s" | "discard e p s = Some s'"
    | t where "start_rx_timer t ?s = Some s'" | "collision e p s = Some s'"
    by (auto simp: sendUp_def capture_def bind_eq_Some_conv split: if_splits)
  then show ?thesis
    by cases (auto intro: discard_same collision_same table_same_trans [OF r] dest: rx_timer_same)
qed

lemma run_inv_rest:
  assumes "run_inv e s" and "rest_same s s'" and "node_inv e s'" and "link_inv s'"
    and "\<And>p. rx_state s' \<noteq> MAC_IDLE \<Longrightarrow> pktRx s' = Some p \<Longrightarrow> arrival_ok e p"
  shows "run_inv e s'"
  using assms unfolding run_inv_def rest_same_def FI_fits_def pending_at_def by simp

lemma arrival_ok_clear_error [simp]: "arrival_ok e (clear_error p) = arrival_ok e p"
  by (simp add: arrival_ok_def is_FI_def clear_error_def pkt_ok_def)

lemma run_inv_arrive:
  assumes "run_inv e s" and "enabled e (ArriveEv p h) s" and "run_ok e"
  shows "succeeds (mac_exec e (ArriveEv p h) s) (step_post e s)"
proof -
  note inv = run_inv_parts [OF assms(1)]
  let ?p = "clear_error p"
  have "arrival_ok e p" using assms(2) by (simp add: enabled_def)
  moreover from this have "pkt_ok p" by (simp add: arrival_ok_def)
  ultimately have ok: "arrival_ok e ?p" "pkt_ok ?p" "0 < bandwidth (ph e)"
    using assms(3) by (simp_all add: run_ok_def)
  have r: "recv e p h s = (if direction (cmn p) = UP then sendUp e ?p s
      else sendDown e ?p (s\<lparr>callback := h, mstate := MAC_SEND\<rparr>))"
    by (simp add: recv_def clear_error_def Let_def)
  have up: "succeeds (sendUp e ?p s) (step_post e s)"
  proof -
    from sendUp_spec [OF inv(2) ok(2,3)] obtain s' where s': "sendUp e ?p s = Some s'" "rx_step s ?p s'"
      by (auto simp: succeeds_iff)
    have same: "table_same s s'" by (rule sendUp_same [OF s'(1)])
    have "arrival_ok e q" if "rx_state s' \<noteq> MAC_IDLE" "pktRx s' = Some q" for q
    proof -
      from s'(2) obtain es where "held s' + gone_all es = held s + {#?p#}" by (auto simp: rx_step_def balanced_def)
      moreover have "q \<in># held s'" using that by (simp add: held_def)
      ultimately have "q \<in># held s + {#?p#}" by (metis union_iff)
      then have "q = ?p \<or> rx_state s \<noteq> MAC_IDLE \<and> pktRx s = Some q"
        by (auto simp: held_def split: if_splits option.splits)
      then show ?thesis using ok(1) inv(6) by blast
    qed
    then have "run_inv e s'"
      using run_inv_rest [OF assms(1), of s'] same s'(2) inv(1) table_same_node [OF same]
      by (auto simp: table_same_def rx_step_def)
    with s'(1) same show ?thesis by (simp add: step_post_def table_same_def rest_same_def)
  qed
  have down: "succeeds (sendDown e ?p (s\<lparr>callback := h, mstate := MAC_SEND\<rparr>)) (step_post e s)"
  proof -
    let ?s = "s\<lparr>callback := h, mstate := MAC_SEND\<rparr>"
    have "0 \<le> ETHER_HDR_LEN (ph e)" by (simp add: ETHER_HDR_LEN_def)
    with ok have "0 \<le> DATA_Time (ph e) (ch_size (cmn ?p) + ETHER_HDR_LEN (ph e))"
      unfolding DATA_Time_def by (intro divide_nonneg_pos) (simp_all add: pkt_ok_def)
    then have "\<exists>q. sendDown e ?p ?s = Some (emit [Freed q] ?s)" by (simp add: sendDown_def TX_Time_def Let_def) blast
    then obtain q where q: "sendDown e ?p ?s = Some (emit [Freed q] ?s)" ..
    have "run_inv e (emit [Freed q] ?s)"
      using assms(1) by (intro run_inv_rest [OF assms(1)]) (simp_all add: rest_same_def emit_def link_inv_def run_inv_def)
    with q show ?thesis by (simp add: step_post_def)
  qed
  show ?thesis using up down r by (simp add: mac_exec_def)
qed

text \<open>The end of a reception; FI packets of any content can be read.\<close>

lemma node_inv_new_FI:
  assumes "node_inv e s" and "frame_ok fi" and "frame_len fi = frame_len0 e" and "\<not> adj_frame_ena (cfg e)"
  shows "node_inv e (get_new_FI fi s)"
  using assms by (auto simp: node_inv_def core_def table_ok_def received_ok_def frame_inv_def adj_ok_def tags_def
      get_new_FI_def)

lemma recvPacket_run:
  assumes "arrival_ok e p" and "node_inv e s" and "run_ok e" and "link_inv s"
  shows "succeeds (recvPacket e p s) (\<lambda>s'. node_inv e s' \<and> link_inv s' \<and> rest_same s s' \<and> rx_state s' = rx_state s)"
proof -
  have adj: "\<not> adj_frame_ena (cfg e)" using assms(3) by (simp add: run_ok_def)
  have len: "max_slot_num s = frame_len0 e" "0 < max_slot_num s" "max_slot_num s \<le> max_frame_len"
    using assms(2) adj by (auto simp: node_inv_def core_def frame_inv_def table_ok_def)
  have readFI: "\<exists>fi. recvFI (cfg e) (pdata p) a s = Some (get_new_FI fi s) \<and> frame_ok fi \<and> frame_len fi = frame_len0 e"
    if "is_FI p" for a
    using recvFI_any [OF adj len(2,3), of "pdata p" a] that assms(1) len(1) by (simp add: arrival_ok_def)
  let ?post = "\<lambda>s'. node_inv e s' \<and> link_inv s' \<and> rest_same s s' \<and> rx_state s' = rx_state s"
  have stat: "?post (emit es (mod_stats f s))" "?post (emit es s)" "?post s" "?post (emit es (recvSAFE s))" for es f
    using assms(2,4) by (simp_all add: rest_same_def link_inv_def mod_stats_def recvSAFE_def emit_def)
  have new: "?post (emit es (mod_stats f (get_new_FI fi s)))" if "frame_ok fi" "frame_len fi = frame_len0 e" for es f fi
  proof -
    have "node_inv e (get_new_FI fi s)" by (rule node_inv_new_FI [OF assms(2) that adj])
    then show ?thesis using assms(4) by (simp add: rest_same_def link_inv_def mod_stats_def get_new_FI_def emit_def)
  qed
  let ?ty = "fc_type (dh_fc (mac_hdr p))" and ?st = "fc_subtype (dh_fc (mac_hdr p))"
  consider (fi) "?ty = MAC_Type_Management" "initialed s" "?st = MAC_Subtype_Data"
    | (safe) "?ty = MAC_Type_Management" "initialed s" "?st = MAC_Subtype_SAFE"
    | (off) "?ty = MAC_Type_Management" "\<not> initialed s"
    | (control) "?ty = MAC_Type_Control" | (data) "?ty = MAC_Type_Data"
    using assms(1) unfolding arrival_ok_def pkt_ok_def Let_def by blast
  then show ?thesis
  proof cases
    case fi
    then have "is_FI p" by (simp add: is_FI_def)
    from readFI [OF this] obtain f where
      "recvFI (cfg e) (pdata p) (ETHER_ADDR (mx e) (dh_sa (mac_hdr p))) s = Some (get_new_FI f s)" "frame_ok f"
      "frame_len f = frame_len0 e" by blast
    then show ?thesis using fi new [of f] by (simp add: recvPacket_def Let_def)
  next
    case safe
    then show ?thesis using stat(4) by (simp add: recvPacket_def Let_def)
  next
    case off
    then show ?thesis using stat(3) by (simp add: recvPacket_def Let_def)
  next
    case control
    then show ?thesis using stat(2) by (simp add: recvPacket_def Let_def)
  next
    case data
    then show ?thesis using stat(1) by (simp add: recvPacket_def Let_def)
  qed
qed

lemma run_inv_rx:
  assumes "run_inv e s" and "enabled e RxEv s" and "run_ok e"
  shows "succeeds (mac_exec e RxEv s) (step_post e s)"
proof -
  note inv = run_inv_parts [OF assms(1)]
  let ?s = "s\<lparr>mhRxPkt := timer_handle (mhRxPkt s)\<rparr>"
  have b: "rx_state s \<noteq> MAC_IDLE" using assms(2) inv(2) by (simp add: enabled_def link_inv_def)
  from rx_due_handle [OF inv(2) b] obtain p where p: "rx_due ?s p" ..
  then have pr: "pktRx s = Some p" by (simp add: rx_due_def)
  have ok: "arrival_ok e p" "pkt_ok p" using inv(6) [OF b pr] by (auto simp: arrival_ok_def)
  let ?i = "?s\<lparr>rx_state := MAC_IDLE\<rparr>"
  have post: "step_post e s s'" if "node_inv e s'" "link_inv s'" "rest_same ?i s'" "rx_state s' = MAC_IDLE" for s'
    using run_inv_rest [OF assms(1), of s'] that by (simp add: rest_same_def step_post_def)
  have i: "node_inv e ?i" "link_inv ?i" using inv(1) rx_due_link [OF p, of "[]"] by (simp_all add: emit_def)
  have drop: "step_post e s (emit es ?i)" for es
    using i by (intro post) (simp_all add: rest_same_def emit_def)
  obtain x where x: "discard e p ?s = Some (emit [x] ?s)" using discard_cases [OF ok(2)] .
  have e: "(emit [x] ?s)\<lparr>rx_state := MAC_IDLE\<rparr> = emit [x] ?i" by (simp add: emit_def)
  have "succeeds (recvPacket e p ?i) (step_post e s)"
    by (rule succeeds_mono [OF recvPacket_run [OF ok(1) i(1) assms(3) i(2)]]) (auto intro: post)
  then have "succeeds (recvHandler e ?s) (step_post e s)"
    using pr x e drop by (simp add: recvHandler_def Let_def)
  then show ?thesis by (simp add: mac_exec_def RxPktTdmaTimer_handle_def)
qed

lemma sendHandler_empty:
  assumes "Isempty (safety_packet_queue s)"
  shows "\<exists>c es st. sendHandler e p s = Some (emit es (s\<lparr>tx_state := MAC_IDLE, callback := c, slot_state := st\<rparr>))"
proof -
  let ?es = "if callback s then [Freed p, Callback] else [Freed p]"
  let ?st = "if node_state s \<in> {NODE_WORK_FI, NODE_WORK_ADJ} \<and> slot_state s = FI then SAFETY else slot_state s"
  have "sendHandler e p s = Some (emit ?es (s\<lparr>tx_state := MAC_IDLE, callback := False, slot_state := ?st\<rparr>))"
    using assms by (cases "callback s") (auto simp: sendHandler_def emit_def Let_def)
  then show ?thesis by blast
qed

lemma run_inv_tx:
  assumes "run_inv e s" and "enabled e (TxEv p) s"
  shows "succeeds (mac_exec e (TxEv p) s) (step_post e s)"
proof -
  note inv = run_inv_parts [OF assms(1)]
  let ?s = "s\<lparr>mhTxPkt := timer_handle (mhTxPkt s), tx_state := MAC_IDLE\<rparr>"
  have bo: "\<not> t_busy (mhBackoff s)" using run_inv_backoffD [OF assms(1)] assms(2) by (auto simp: enabled_def)
  have "Isempty (safety_packet_queue s)" using inv(3) by (auto simp: Isempty_def queue_rep_def queue_at_def)
  then have "\<exists>c es st. mac_exec e (TxEv p) s = Some (emit es (?s\<lparr>callback := c, slot_state := st\<rparr>))"
    using sendHandler_empty [of "s\<lparr>mhTxPkt := timer_handle (mhTxPkt s)\<rparr>" e p]
    by (simp add: mac_exec_def TxPktTdmaTimer_handle_def)
  then obtain c es st where ex: "mac_exec e (TxEv p) s = Some (emit es (?s\<lparr>callback := c, slot_state := st\<rparr>))" by blast
  have "link_inv (emit es (?s\<lparr>callback := c, slot_state := st\<rparr>))" using inv(2) by (simp add: link_inv_def timer_handle_def)
  moreover have "\<not> t_busy (timer_handle (mhTxPkt s))" by (simp add: timer_handle_def)
  ultimately have "run_inv e (emit es (?s\<lparr>callback := c, slot_state := st\<rparr>))"
    using assms(1) bo by (simp add: run_inv_def FI_fits_def pending_at_def emit_def)
  with ex show ?thesis by (simp add: step_post_def)
qed

lemma run_inv_step:
  assumes "run_inv e s" and "enabled e ev s" and "run_ok e"
  shows "succeeds (mac_exec e ev s) (step_post e s)"
  using assms run_inv_tick run_inv_delay run_inv_slot run_inv_backoff run_inv_tx run_inv_rx run_inv_arrive
  by (cases ev) blast+

lemma reach_run_inv:
  assumes "reach e s0 s" and "run_inv e s0" and "run_ok e"
  shows "run_inv e s"
  using assms(1)
proof induction
  case start
  show ?case by (rule assms(2))
next
  case (step s ev s')
  from succeedsD [OF run_inv_step [OF step.IH step.hyps(2) assms(3)] step.hyps(3)] show ?case
    by (simp add: step_post_def)
qed

lemma reach_request:
  assumes "reach e s0 s" and "run_inv e s0" and "run_ok e"
    and "node_state s0 \<notin> {NODE_REQUEST, NODE_WORK_FI, NODE_WORK_ADJ}"
    and "node_state s \<in> {NODE_REQUEST, NODE_WORK_FI, NODE_WORK_ADJ}"
  shows "\<exists>s1. reach e s0 s1 \<and> reach e s1 s \<and> node_state s1 = NODE_REQUEST"
  using assms(1,5)
proof induction
  case start
  with assms(4) show ?case by blast
next
  case (step s ev s')
  have "run_inv e s" by (rule reach_run_inv [OF step.hyps(1) assms(2,3)])
  from succeedsD [OF run_inv_step [OF this step.hyps(2) assms(3)] step.hyps(3)]
  have edge: "node_state s' = node_state s \<or> node_step (node_state s) (node_state s')"
    by (simp add: step_post_def)
  have s': "reach e s0 s'" by (rule reach.step [OF step.hyps])
  show ?case
  proof (cases "node_state s' = NODE_REQUEST")
    case True
    then show ?thesis using s' reach.start by blast
  next
    case False
    with edge step.prems have "node_state s \<in> {NODE_REQUEST, NODE_WORK_FI, NODE_WORK_ADJ}"
      by (cases "node_state s") auto
    from step.IH [OF this] obtain s1 where "reach e s0 s1" "reach e s1 s" "node_state s1 = NODE_REQUEST" by blast
    then show ?thesis using reach.step [OF _ step.hyps(2,3)] by blast
  qed
qed

section \<open>A new node\<close>

lemma c_rem_first:
  assumes "2 \<le> b" and "- 1 \<le> a"
  shows "c_rem a b \<le> a"
  using assms by (auto simp: c_rem_def zmod_le_nonneg_dividend)

lemma first_slot_time:
  assumes "0 < slot" and "start \<le> now" and "2 \<le> n" and "a = trunc ((now - start) / slot) - 1"
  shows "- 1 \<le> a" and "(of_int (c_rem a n + 1) :: rat) * slot \<le> now - start"
proof -
  let ?x = "(now - start) / slot"
  have x: "0 \<le> ?x" using assms by simp
  then have f: "a = \<lfloor>?x\<rfloor> - 1" "0 \<le> \<lfloor>?x\<rfloor>" using assms(4) by (simp_all add: trunc_floor)
  then show "- 1 \<le> a" by linarith
  with c_rem_first [OF assms(3)] have "c_rem a n + 1 \<le> \<lfloor>?x\<rfloor>" using f(1) by (meson diff_left_mono le_diff_eq)
  then have "(of_int (c_rem a n + 1) :: rat) \<le> ?x" by (meson le_floor_iff)
  then show "(of_int (c_rem a n + 1) :: rat) * slot \<le> now - start"
    using assms(1) by (simp add: pos_le_divide_eq)
qed

definition start_ok :: "env \<Rightarrow> statics \<Rightarrow> 'a mac_scheme \<Rightarrow> bool" where
  "start_ok e st raw \<longleftrightarrow> 2 \<le> frame_len0 e \<and> frame_len0 e \<le> max_frame_len \<and> 0 < slot_time raw \<and> FI_fits e raw \<and>
     0 < adj_free_threshold raw \<and> (active_node st = 0 \<or> s_start_time st \<le> clock raw)"

lemma init_fields_inv:
  assumes "run_ok e" and "2 \<le> frame_len0 e" and "frame_len0 e \<le> max_frame_len" and "0 < slot_time raw"
    and "0 < adj_free_threshold raw" and "start \<le> clock raw" and "new_Frame_info max_frame_len = Some fi"
  shows "node_inv e (init_fields e fi node start raw)" and "link_inv (init_fields e fi node start raw)"
    and "of_int (slot_count (init_fields e fi node start raw) + 1) * slot_time raw \<le> clock raw - start"
proof -
  note t = first_slot_time [OF assms(4,6,2) refl]
  have "slot_describe fi = replicate 256 new_slot_tag" using assms(7) by (auto simp: new_Frame_info_def)
  then show "node_inv e (init_fields e fi node start raw)"
    using assms t(1)
    by (auto simp: init_fields_def Let_def mod_stats_def node_inv_def core_def table_ok_def received_ok_def
        frame_inv_def adj_ok_def tags_def run_ok_def)
  show "link_inv (init_fields e fi node start raw)"
    by (simp add: init_fields_def Let_def mod_stats_def link_inv_def)
  show "of_int (slot_count (init_fields e fi node start raw) + 1) * slot_time raw \<le> clock raw - start"
    using t(2) by (simp add: init_fields_def Let_def mod_stats_def)
qed

lemma new_MacTdma_run_inv:
  assumes "run_ok e" and "start_ok e st raw" and "new_MacTdma e n st raw = Some (s, st')"
  shows "run_inv e s \<and> node_state s = NODE_INIT"
proof -
  define start where "start = s_start_time (re_schedule (clock raw) (st\<lparr>active_node := active_node st + 1\<rparr>))"
  have st: "start \<le> clock raw" using assms(2) by (auto simp: start_def re_schedule_def start_ok_def)
  obtain fi where fi: "new_Frame_info max_frame_len = Some fi" by (simp add: new_Frame_info_def)
  define s1 where "s1 = init_fields e fi (active_node st + 1) start raw"
  have i: "node_inv e s1" "link_inv s1" "of_int (slot_count s1 + 1) * slot_time raw \<le> clock raw - start"
    using init_fields_inv [OF assms(1) _ _ _ _ st fi] assms(2) by (simp_all add: start_ok_def s1_def)
  have f: "clock s1 = clock raw" "slot_time s1 = slot_time raw" "start_time s1 = start" "\<not> t_busy (mhSlot s1)"
    "\<not> t_busy (mhTxPkt s1)" "\<not> t_busy (mhBackoff s1)" "rx_state s1 = MAC_IDLE" "node_state s1 = NODE_INIT"
    "safety_packet_queue s1 = new_Packet_queue 100"
    by (simp_all add: s1_def init_fields_def Let_def mod_stats_def)
  from assms(3) fi obtain t c where t: "start_delay_timer t (s1\<lparr>rand_count := c\<rparr>) = Some s"
    by (auto simp: new_MacTdma_def Let_def s1_def start_def random_mod_def bind_eq_Some_conv split: if_splits)
      (metis (no_types, lifting) tdma.surjective tdma.update_convs(18))
  then have s: "s = emit [Schedule DelayInitTimer t] (s1\<lparr>rand_count := c,
      mhDelayInit := running (clock raw) t (mhDelayInit s1)\<rparr>)" "0 \<le> t"
    using f(1) by (auto simp: start_delay_timer_def timer_start_def running_def split: if_splits)
  have c: "node_inv e (s1\<lparr>rand_count := c\<rparr>) = node_inv e s1"
    by (simp add: node_inv_def adj_ok_def)
  have "run_inv e s"
    unfolding s(1) using i f s(2) c assms(2) new_Packet_queue_rep
    by (simp add: run_inv_def FI_fits_def pending_at_def expiry_def running_def start_ok_def link_inv_def emit_def)
  then show ?thesis using f(8) by (simp add: s(1))
qed

section \<open>Properties\<close>


definition first_statics :: statics where
  "first_statics = \<lparr>active_node = 0, s_start_time = 0\<rparr>"

lemma fixed_env_ok [simp]: "run_ok fixed_env" "start_ok fixed_env first_statics (example_mac (example_node 1 []))"
  by (simp_all add: run_ok_def env_ok_def start_ok_def FI_fits_def fi_size_def PHY_TDMA_Overhead_def
      TDMA_Overhead_def DATA_Time_def first_statics_def example_phy_def)

lemma fixed_env_new:
  "\<exists>s st. new_MacTdma fixed_env 64 first_statics (example_mac (example_node 1 [])) = Some (s, st) \<and>
     enabled fixed_env DelayEv s"
  by (simp add: new_MacTdma_def new_Frame_info_def first_statics_def start_delay_timer_def timer_start_def
      init_fields_def mod_stats_def new_timer_def enabled_def expiry_def emit_def Let_def example_cfg_def
      example_env_def fixed_env_def)


text \<open>
  C20: in every run of a new node, a working state is preceded by the state in which the node
  announced its slot for the first time.
\<close>

theorem working_node_has_requested:
  assumes "run_ok e" and "start_ok e st raw" and "new_MacTdma e n st raw = Some (s0, st')"
    and "reach e s0 s" and "node_state s \<in> {NODE_WORK_FI, NODE_WORK_ADJ}"
  shows "\<exists>s1. reach e s0 s1 \<and> reach e s1 s \<and> node_state s1 = NODE_REQUEST"
  using reach_request [OF assms(4) _ assms(1)] new_MacTdma_run_inv [OF assms(1-3)] assms(5) by auto

text \<open>A short frame of four slots, and a run of events, each of which must be due.\<close>

definition short_env :: env where
  "short_env = fixed_env\<lparr>frame_len0 := 4\<rparr>"

fun exec_all :: "env \<Rightarrow> mac_event list \<Rightarrow> 'a mac_scheme \<Rightarrow> 'a mac_scheme option" where
  "exec_all e [] s = Some s"
| "exec_all e (ev # evs) s = (if enabled e ev s then Option.bind (mac_exec e ev s) (exec_all e evs) else None)"

lemma exec_all_reach: "exec_all e evs s = Some s' \<Longrightarrow> reach e s0 s \<Longrightarrow> reach e s0 s'"
  by (induction e evs s rule: exec_all.induct) (auto simp: bind_eq_Some_conv split: if_splits intro: reach.step)

definition idle_slot :: "mac_event list" where
  "idle_slot = [Tick (1 / 1000), SlotEv 0]"

definition own_slot_events :: "mac_event list" where
  "own_slot_events = [Tick (1 / 100000), BackoffEv, Tick (244 / 1000000), TxEv Packet_alloc, Tick (746 / 1000000), SlotEv 0]"

definition short_run :: "mac_event list" where
  "short_run = [DelayEv, SlotEv 0] @ concat (replicate 7 idle_slot) @ own_slot_events @ concat (replicate 3 idle_slot)"

lemma short_env_ok [simp]: "run_ok short_env" "start_ok short_env first_statics (example_mac (example_node 1 []))"
  by (simp_all add: run_ok_def env_ok_def start_ok_def FI_fits_def fi_size_def PHY_TDMA_Overhead_def
      TDMA_Overhead_def DATA_Time_def first_statics_def example_phy_def short_env_def)

theorem working_node_has_requested_witness:
  "\<exists>s0 st s s1. new_MacTdma short_env 64 first_statics (example_mac (example_node 1 [])) = Some (s0, st) \<and>
     reach short_env s0 s \<and> node_state s = NODE_WORK_FI \<and>
     reach short_env s0 s1 \<and> reach short_env s1 s \<and> node_state s1 = NODE_REQUEST"
proof -
  have "map_option node_state (Option.bind (new_MacTdma short_env 64 first_statics (example_mac (example_node 1 [])))
      (\<lambda>(s, _). exec_all short_env short_run s)) = Some NODE_WORK_FI" by code_simp
  then obtain s0 st s where
    s: "new_MacTdma short_env 64 first_statics (example_mac (example_node 1 [])) = Some (s0, st)"
      "exec_all short_env short_run s0 = Some s" "node_state s = NODE_WORK_FI"
    by (auto simp: bind_eq_Some_conv)
  have r: "reach short_env s0 s" by (rule exec_all_reach [OF s(2) reach.start])
  from working_node_has_requested [OF short_env_ok s(1) r] s(3) obtain s1 where
    "reach short_env s0 s1" "reach short_env s1 s" "node_state s1 = NODE_REQUEST" by auto
  with s r show ?thesis by blast
qed

text \<open>
  C31: the first slot of a new node is not aligned with the slots of the others: a node made at an
  offset \<open>o\<close> into a slot starts its slot timer at the offset \<open>2 o\<close>, not at the beginning of a slot.
\<close>

theorem first_slot_misaligned:
  assumes "new_MacTdma e n st raw = Some (s, st')" and "delay_init_frame_num (cfg e) = 0"
    and "0 < slot_time raw" and "start = s_start_time st'" and "start \<le> clock raw"
    and "k = \<lfloor>(clock raw - start) / slot_time raw\<rfloor>" and "0 < k" and "k \<le> frame_len0 e"
    and "off = clock raw - start - of_int k * slot_time raw"
  shows "\<exists>s'. DelayInitTimer_handle s = Some s' \<and> t_busy (mhSlot s') \<and>
    expiry (mhSlot s') = start + of_int k * slot_time raw + 2 * off \<and> 0 \<le> off \<and> off < slot_time raw"
proof -
  let ?x = "(clock raw - start) / slot_time raw"
  have x: "0 \<le> ?x" "of_int k \<le> ?x" "?x < of_int k + 1" using assms(3,5,6) floor_correct [of ?x] by simp_all
  then have off: "0 \<le> off" "off < slot_time raw"
    using assms(3,9) by (simp_all add: pos_le_divide_eq pos_divide_less_eq algebra_simps)
  have "c_rem (trunc ?x - 1) (frame_len0 e) = k - 1"
    using assms(6-8) x(1) by (simp add: trunc_floor c_rem_def)
  then have "start_time s = start" "slot_count s = k - 1" "clock s = clock raw" "slot_time s = slot_time raw"
    "\<not> t_busy (mhSlot s)"
    using assms(1,2,4)
    by (auto simp: new_MacTdma_def new_Frame_info_def Let_def start_delay_timer_def timer_start_def init_fields_def
        mod_stats_def emit_def bind_eq_Some_conv split: if_splits)
  then show ?thesis
    using off assms(9)
    by (simp add: DelayInitTimer_handle_def delayInitHandler_def start_slot_timer_def timer_start_def expiry_def
        algebra_simps)
qed

theorem first_slot_misaligned_witness:
  "\<exists>s st s'. new_MacTdma fixed_env 64 \<lparr>active_node = 1, s_start_time = 0\<rparr>
       ((example_mac (example_node 1 []))\<lparr>clock := 9 / 4000\<rparr>) = Some (s, st) \<and>
     DelayInitTimer_handle s = Some s' \<and> t_busy (mhSlot s') \<and>
     expiry (mhSlot s') = 0 + of_int 2 * (1 / 1000) + 2 * (1 / 4000) \<and> 0 \<le> (1 / 4000 :: rat) \<and> (1 / 4000 :: rat) < 1 / 1000"
proof -
  let ?raw = "(example_mac (example_node 1 []))\<lparr>clock := 9 / 4000\<rparr>"
  have "\<exists>s st. new_MacTdma fixed_env 64 \<lparr>active_node = 1, s_start_time = 0\<rparr> ?raw = Some (s, st) \<and> s_start_time st = 0"
    by (simp add: new_MacTdma_def new_Frame_info_def start_delay_timer_def timer_start_def
      init_fields_def mod_stats_def new_timer_def re_schedule_def Let_def example_cfg_def example_env_def fixed_env_def)
  then obtain s st where s: "new_MacTdma fixed_env 64 \<lparr>active_node = 1, s_start_time = 0\<rparr> ?raw = Some (s, st)"
    "s_start_time st = 0" by blast
  have k: "\<lfloor>(9 / 4 :: rat)\<rfloor> = 2" by (simp add: floor_eq_iff)
  have "delay_init_frame_num (cfg fixed_env) = 0" by (simp add: example_cfg_def)
  from first_slot_misaligned [OF s(1) this, of 0 2 "1 / 4000"] s(2) k
  have "\<exists>s'. DelayInitTimer_handle s = Some s' \<and> t_busy (mhSlot s') \<and>
     expiry (mhSlot s') = 0 + of_int 2 * (1 / 1000) + 2 * (1 / 4000)" by simp
  with s(1) show ?thesis by fastforce
qed

end
