(* ===== verification/Two_Nodes.thy ===== *)
theory Two_Nodes
  imports Mac_Node
begin

text \<open>
  Two nodes together. One announces its slot: it builds an FI packet from its table, its backoff
  timer expires and the packet goes to the physical layer. The other one listens: the packet arrives,
  its reception ends, its frame information is decoded and merged into the listener's table, and the
  listener chooses a slot. The result spans the codec, the link, the merge and the choice of a slot.
\<close>

section \<open>The packet that is announced\<close>

lemma mgmt_header_simps [simp]:
  "fc_type (dh_fc (mgmt_header m i st)) = MAC_Type_Management" "fc_subtype (dh_fc (mgmt_header m i st)) = st"
  by (simp_all add: mgmt_header_def zero_fc_def)

lemma mgmt_header_broadcast:
  "marshal_ok m \<Longrightarrow> ETHER_ADDR m (dh_da (mgmt_header m i st)) = MAC_BROADCAST"
  by (simp add: mgmt_header_def zero_mac_hdr_def marshal_ok_def ETHER_ADDR_def)

text \<open>The frame that a receiver \<open>r\<close> reads from the announcement of \<open>s\<close>.\<close>

definition announced :: "'a tdma_scheme \<Rightarrow> u32 \<Rightarrow> 'b tdma_scheme \<Rightarrow> frame_info" where
  "announced s src r = received_fi (take_bit 16 (global_sti s)) src
     (map wire_tag (take (nat (max_slot_num s)) (tags s))) r"

definition announces :: "env \<Rightarrow> 'a tdma_scheme \<Rightarrow> packet \<Rightarrow> bool" where
  "announces e s p \<longleftrightarrow> is_FI p \<and> ETHER_ADDR (mx e) (dh_da (mac_hdr p)) = MAC_BROADCAST \<and>
     0 \<le> ch_size (cmn p) \<and> ch_error (cmn p) \<in> {0, 1} \<and> pdata p \<in> {code. \<exists>s'. generate_FI_code s = Some (code, s')}"

lemma announces_recvFI:
  assumes "announces e s p" and "table_ok s" and "max_slot_num s = 2 ^ k"
    and "max_slot_num r = max_slot_num s"
  shows "recvFI c (pdata p) src r = Some (get_new_FI (announced s src r) r)"
proof -
  from recvFI_of_code [OF assms(2,3), of c r src] assms(4) obtain code s' where
    "generate_FI_code s = Some (code, s')" "recvFI c code src r = Some (get_new_FI (announced s src r) r)"
    unfolding announced_def by auto
  then show ?thesis using assms(1) by (auto simp: announces_def)
qed

lemma mgmt_cmn_simps [simp]:
  "ch_size (mgmt_cmn f n ch) = n + PHY_TDMA_Overhead f" "ch_error (mgmt_cmn f n ch) = 0"
  "txtime (mgmt_cmn f n ch) = DATA_Time f (n + PHY_TDMA_Overhead f)"
  by (simp_all add: mgmt_cmn_def Let_def)

lemma PHY_TDMA_Overhead_nonneg: "0 \<le> PHY_TDMA_Overhead f"
  by (simp add: PHY_TDMA_Overhead_def TDMA_Overhead_def)

lemma DATA_Time_nonneg: "0 < bandwidth f \<Longrightarrow> 0 \<le> n \<Longrightarrow> 0 \<le> DATA_Time f n"
  by (simp add: DATA_Time_def)

lemma prepare_FI_announces:
  assumes "prepare_FI e b = Some b1" and "marshal_ok (mx e)" and "table_ok b" and "0 < bandwidth (ph e)"
  shows "\<exists>p. pktFI b1 = Some p \<and> announces e b p \<and> 0 \<le> txtime (cmn p) \<and> tx_state b1 = tx_state b \<and>
    slot_state b1 = slot_state b \<and> node_state b1 = node_state b \<and> link_inv b1 = link_inv b"
proof -
  from generate_FI_code_spec [OF assms(3)] obtain code ts f where
    code: "generate_FI_code b = Some (code, (set_tags ts b)\<lparr>stats := f\<rparr>)"
    by (auto simp: sent_state_def)
  have n: "0 \<le> fi_size (max_slot_num b)" using fi_size_bits [of "max_slot_num b"] assms(3) by (simp add: table_ok_def)
  let ?p = "Packet_alloc\<lparr>pdata := code, cmn := mgmt_cmn (ph e) (fi_size (max_slot_num b)) (cmn Packet_alloc),
    mac_hdr := mgmt_header (mx e) (index b) MAC_Subtype_Data\<rparr>"
  from assms(1) obtain t es where
    "b1 = emit es (((set_tags ts b)\<lparr>stats := f\<rparr>)\<lparr>pktFI := Some ?p, mhBackoff := t\<rparr>)"
    by (auto simp: prepare_FI_def generate_FI_packet_def code start_backoff_def bind_eq_Some_conv)
  moreover have "announces e b ?p"
    using code n assms(2) by (simp add: announces_def is_FI_def mgmt_header_broadcast PHY_TDMA_Overhead_nonneg)
  moreover have "0 \<le> txtime (cmn ?p)"
    using n assms(4) PHY_TDMA_Overhead_nonneg [of "ph e"] by (simp add: DATA_Time_nonneg)
  ultimately show ?thesis by (simp add: link_inv_def emit_def)
qed

text \<open>The packet the sender passes to the physical layer.\<close>

lemma announces_sent: "announces e b p \<Longrightarrow> announces e b (sent_packet s p)"
  by (simp add: announces_def is_FI_def) (simp add: sent_packet_def Let_def)

lemma sender_announces:
  assumes "prepare_FI e b = Some b1"
    and "marshal_ok (mx e)" and "table_ok b" and "0 < bandwidth (ph e)"
    and "link_inv b" and "tx_state b = MAC_IDLE" and "slot_state b = BEGINING"
    and "node_state b \<in> {NODE_REQUEST, NODE_WORK_FI, NODE_WORK_ADJ}"
  shows "\<exists>b2 t q. TdmaBackoffTimer_handle b1 = Some b2 \<and>
    out b2 = out b1 @ [Schedule TxPktTimer t, Down q] \<and> announces e b q"
proof -
  from prepare_FI_announces [OF assms(1-4)] obtain p where
    p: "pktFI b1 = Some p" "announces e b p" "0 \<le> txtime (cmn p)" "tx_state b1 = MAC_IDLE"
      "slot_state b1 = BEGINING" "node_state b1 = node_state b" "link_inv b1"
    using assms(5-7) by auto
  let ?b = "b1\<lparr>mhBackoff := backoff_handle (mhBackoff b1)\<rparr>"
  have l: "link_inv ?b" "tx_state ?b = MAC_IDLE" using p(4,7) by (simp_all add: link_inv_def)
  have "announces e b (sent_packet ?b p)" using p(2) by (simp add: announces_sent)
  moreover have "\<exists>b2. TdmaBackoffTimer_handle b1 = Some b2 \<and>
      out b2 = out b1 @ [Schedule TxPktTimer (txtime (cmn p)), Down (sent_packet ?b p)]"
    using assms(8) p(1,5,6) sendPacket_spec [OF l p(3)]
    by (auto simp: TdmaBackoffTimer_handle_def backoffHandler_def send_pktFI_def)
  ultimately show ?thesis by blast
qed

section \<open>The reception\<close>

definition from_channel :: "packet \<Rightarrow> packet" where
  "from_channel q = q\<lparr>cmn := (cmn q)\<lparr>direction := UP\<rparr>\<rparr>"

lemma FI_delivered:
  assumes "announces e b q" and "table_ok b" and "max_slot_num b = 2 ^ k" and "0 < bandwidth (ph e)"
    and "max_slot_num a = max_slot_num b" and "link_inv a" and "rx_state a = MAC_IDLE"
    and "tx_state a = MAC_IDLE" and "radio_active a" and "initialed a"
  shows "\<exists>a1 a2 f es src p t. recv e (from_channel q) h a = Some a1 \<and> RxPktTdmaTimer_handle e a1 = Some a2 \<and>
    a2 = emit es (mod_stats f (get_new_FI (announced b src a) (a\<lparr>pktRx := p, mhRxPkt := t, rx_state := MAC_IDLE\<rparr>)))"
proof -
  let ?q = "clear_error (from_channel q)"
  let ?src = "ETHER_ADDR (mx e) (dh_sa (mac_hdr ?q))"
  have q: "announces e b ?q" "ch_error (cmn ?q) = 0"
    using assms(1) by (auto simp: announces_def from_channel_def clear_error_def is_FI_def)
  have ok: "pkt_ok ?q" using q(1) by (simp add: announces_def is_FI_def pkt_ok_def)
  obtain t where t: "TX_Time (ph e) ?q = Some t" "0 \<le> t" using TX_Time_ok [OF ok assms(4)] by auto
  have rx: "\<not> t_busy (mhRxPkt a)" using assms(6,7) by (simp add: link_inv_def)
  let ?r = "running (clock a) t (mhRxPkt a)"
  let ?a1 = "emit [Schedule RxPktTimer t] (a\<lparr>rx_state := MAC_RECV, pktRx := Some ?q, mhRxPkt := ?r\<rparr>)"
  have a1: "recv e (from_channel q) h a = Some ?a1"
  proof -
    have "recv e (from_channel q) h a = sendUp e ?q a"
      by (simp add: recv_def from_channel_def clear_error_def Let_def)
    then show ?thesis using assms(7-9) t rx by (simp add: sendUp_def start_rx_timer_idle)
  qed
  let ?a = "emit [Schedule RxPktTimer t] (a\<lparr>rx_state := MAC_IDLE, pktRx := Some ?q, mhRxPkt := timer_handle ?r\<rparr>)"
  let ?f = "\<lambda>x. x\<lparr>recv_fi_count := recv_fi_count x + 1\<rparr>"
  have ini: "initialed ?a" using assms(10) by (simp add: emit_def)
  have fi: "recvFI (cfg e) (pdata ?q) ?src ?a = Some (get_new_FI (announced b ?src ?a) ?a)"
    using announces_recvFI [OF q(1) assms(2,3), of ?a] assms(5) by simp
  have "?a1\<lparr>mhRxPkt := timer_handle ?r\<rparr> = ?a\<lparr>rx_state := MAC_RECV\<rparr>" "?a\<lparr>rx_state := MAC_IDLE\<rparr> = ?a"
    by (rule mac.equality; simp add: emit_def)+
  note same = this
  have "RxPktTdmaTimer_handle e ?a1 = recvHandler e (?a\<lparr>rx_state := MAC_RECV\<rparr>)"
    using same(1) by (simp add: RxPktTdmaTimer_handle_def)
  also have "\<dots> = recvPacket e ?q ?a"
    using q by (simp add: recvHandler_def Let_def announces_def same(2))
  also have "\<dots> = Some (emit [Freed ?q] (mod_stats ?f (get_new_FI (announced b ?src ?a) ?a)))"
    using q(1) fi ini by (simp add: recvPacket_def announces_def is_FI_def Let_def)
  also have "emit [Freed ?q] (mod_stats ?f (get_new_FI (announced b ?src ?a) ?a)) =
      emit [Schedule RxPktTimer t, Freed ?q] (mod_stats ?f (get_new_FI (announced b ?src a)
        (a\<lparr>pktRx := Some ?q, mhRxPkt := timer_handle ?r, rx_state := MAC_IDLE\<rparr>)))"
    by (rule mac.equality) (simp_all add: emit_def mod_stats_def get_new_FI_def announced_def received_fi_def)
  finally show ?thesis using a1 by blast
qed

section \<open>The choice\<close>

lemma prepare_FI_tags:
  assumes "prepare_FI e s = Some s'" and "table_ok s" and "j < length (tags s)"
  shows "sti (tags s' ! j) = sti (tags s ! j)" "slot_num s' = slot_num s"
proof -
  from generate_FI_code_spec [OF assms(2)] obtain code f where
    code: "generate_FI_code s = Some (code, (set_tags (map_range (max_slot_num s)
      (\<lambda>_. sent_tag (global_sti s)) (tags s)) s)\<lparr>stats := f\<rparr>)"
    by (auto simp: sent_state_def)
  show "sti (tags s' ! j) = sti (tags s ! j)" "slot_num s' = slot_num s"
    using assms by (auto simp: prepare_FI_def generate_FI_packet_def code start_backoff_def bind_eq_Some_conv emit_def)
qed

lemma listen_choose_avoids:
  assumes "listen_choose e s = Some s'" and "core e s" and "env_ok e" and "int j < max_slot_num s"
    and "busy (tags s ! j) \<noteq> SLOT_FREE" and "sti (tags s ! j) \<noteq> global_sti s"
  shows "sti (tags s' ! j) = sti (tags s ! j) \<and> (node_state s' = NODE_LISTEN \<or> slot_num s' \<noteq> int j)"
proof -
  from determine_spec [OF assms(2,3), of False] obtain k s2 where
    d: "determine_BCH (cfg e) (rnd e) False s = Some (k, s2)" "core e s2" "tags s2 = tags s" "bch_choice False s k"
    by (auto simp: succeeds_iff)
  have kj: "k \<noteq> int j"
    using d(4) assms(4-6) by (auto simp: bch_choice_def bch_candidate_def split: if_splits)
  have j: "j < length (tags s)" using core_slot(1) [OF assms(2), of "int j"] assms(4) by simp
  consider (none) "k < 0" | (now) "0 \<le> k" "k = slot_count s2" | (later) "0 \<le> k" "k \<noteq> slot_count s2" by linarith
  then show ?thesis
  proof cases
    case none
    then show ?thesis using assms(1) d(1,3) by (auto simp: listen_choose_def random_mod_def Let_def)
  next
    case later
    then show ?thesis using assms(1) d(1,3) kj by (auto simp: listen_choose_def)
  next
    case now
    let ?s2 = "s2\<lparr>slot_num := k\<rparr>"
    let ?s3 = "set_tags ((tags s)[nat k := own_tag (global_sti s2) (tags s ! nat k)]) ?s2"
    have "k < max_slot_num s" using d(4) now(1) by (auto simp: bch_choice_def split: if_splits)
    then have kl: "k < max_frame_len" using core_len [OF assms(2)] by simp
    have c: "core e ?s2" using d(2) by (simp add: core_def table_ok_def received_ok_def frame_inv_def)
    have m: "mod_tag k (own_tag (global_sti s2)) ?s2 = Some ?s3" "core e ?s3"
      using mod_tag_spec [OF c now(1), of "own_tag (global_sti s2)"] kl d(3) by auto
    from assms(1) now d(1) m(1) obtain s4 where
      s4: "prepare_FI e ?s3 = Some s4" "s' = s4\<lparr>node_state := NODE_REQUEST\<rparr>"
      by (auto simp: listen_choose_def bind_eq_Some_conv)
    have t: "table_ok ?s3" using m(2) by (simp add: core_def)
    show ?thesis using prepare_FI_tags [OF s4(1) t, of j] s4(2) kj j now(1) by (auto simp: nth_list_update)
  qed
qed

lemma listen_one_frame:
  fixes s :: "'a mac_scheme"
  assumes "core e s" and "node_state s = NODE_LISTEN" and "received_fi_list s = [fi]"
    and "int j < frame_len fi"
    and "busy (slot_describe fi ! j) = SLOT_1HOP" and "sti (slot_describe fi ! j) \<notin> {0, global_sti s}"
    and "global_sti s \<noteq> 0"
  shows "\<exists>s'. synthesize_fi_list (cfg e) (clear_FI s) = Some s' \<and> busy (tags s' ! j) \<noteq> SLOT_FREE \<and>
    sti (tags s' ! j) = sti (slot_describe fi ! j)"
proof -
  let ?c = "clear_FI s"
  have c: "core e ?c" using clear_FI_spec [OF assms(1)] by blast
  have fr: "frame_ok fi" using assms(1,3) by (simp add: core_def received_ok_def)
  have j: "j < 256" using fr assms(4) by (simp add: frame_ok_def)
  have t: "tags ?c ! j = new_slot_tag" using j by (simp add: clear_FI_def tags_def)
  have f: "node_state ?c = NODE_LISTEN" "received_fi_list ?c = [fi]" "global_sti ?c = global_sti s"
    using assms(2,3) by (simp_all add: clear_FI_def)
  have "\<exists>s'. merge_fi (cfg e) fi ?c = Some s' \<and>
    tags s' ! j = new_slot_tag\<lparr>life_time := slot_lifetime_frame_s2 (cfg e), sti := sti (slot_describe fi ! j),
      count_2hop := 1, count_3hop := count_2hop (slot_describe fi ! j), c3hop_flag := True,
      busy := (if sti (slot_describe fi ! j) = fi_sti fi then SLOT_1HOP else SLOT_2HOP)\<rparr>"
    using c fr assms(4-7) t f(3) by (intro merge_fi_learns) (auto simp: core_def new_slot_tag_def)
  then obtain s' where "merge_fi (cfg e) fi ?c = Some s'" "busy (tags s' ! j) \<noteq> SLOT_FREE"
    "sti (tags s' ! j) = sti (slot_describe fi ! j)" by (auto split: if_splits)
  then show ?thesis using f(1,2) by (simp add: synthesize_fi_list_def)
qed

text \<open>The next slot of a listener that received one frame.\<close>

definition avoids :: "nat \<Rightarrow> u32 \<Rightarrow> 'a tdma_scheme \<Rightarrow> bool" where
  "avoids j owner s \<longleftrightarrow> node_state s = NODE_LISTEN \<or> slot_num s \<noteq> int j \<and> sti (tags s ! j) = owner"

lemma slot_listen_avoids:
  assumes "slot_listen e s = Some s'" and "action_pre e s" and "node_state s = NODE_LISTEN"
    and "received_fi_list s = [fi]" and "int j < frame_len fi" and "frame_len fi \<le> max_slot_num s"
    and "busy (slot_describe fi ! j) = SLOT_1HOP" and "sti (slot_describe fi ! j) = owner"
    and "owner \<notin> {0, global_sti s}" and "global_sti s \<noteq> 0"
  shows "avoids j owner s'"
proof (cases "backoff_frame_num s = 0")
  case False
  then show ?thesis using assms(1,3) by (auto simp: slot_listen_def avoids_def Let_def)
next
  case True
  let ?s = "mod_stats (\<lambda>x. x\<lparr>waiting_frame_count := waiting_frame_count x + 1\<rparr>) s"
  have c: "core e ?s" "env_ok e" using assms(2) by (auto simp: action_pre_def)
  have f: "node_state ?s = NODE_LISTEN" "received_fi_list ?s = [fi]" "global_sti ?s = global_sti s"
    "max_slot_num ?s = max_slot_num s"
    using assms(3,4) by (simp_all add: mod_stats_def)
  from listen_one_frame [OF c(1) f(1,2) assms(5,7)] assms(8-10) f(3) obtain s1 where
    s1: "synthesize_fi_list (cfg e) (clear_FI ?s) = Some s1" "busy (tags s1 ! j) \<noteq> SLOT_FREE" "sti (tags s1 ! j) = owner"
    by auto
  have c2: "core e (clear_FI ?s)" "table_only ?s (clear_FI ?s)" using clear_FI_spec [OF c(1)] by auto
  then have t: "core e s1" "table_only ?s s1"
    using synthesize_spec [OF c2(1)] s1(1) table_only_trans by (auto simp: succeeds_iff)
  have "global_sti s1 = global_sti s" using t(2) f(3) by (auto simp: table_only_def kept_def)
  moreover have "int j < max_slot_num s1" using t(2) f(4) assms(5,6) by (simp add: table_only_def)
  moreover have "listen_choose e s1 = Some s'"
    using assms(1) True s1(1) by (simp add: slot_listen_def Let_def mod_stats_def)
  ultimately show ?thesis
    using listen_choose_avoids [OF _ t(1) c(2), of s' j] s1(2,3) assms(9) by (auto simp: avoids_def)
qed

lemma start_slot_timer_received:
  "start_slot_timer t s = Some s' \<Longrightarrow> received_fi_list s' = received_fi_list s"
  by (auto simp: start_slot_timer_def bind_eq_Some_conv emit_def)

lemma slot_begin_received:
  assumes "slot_begin z s = Some s1"
  shows "received_fi_list s1 = fade_list 1 (received_fi_list s)"
proof -
  let ?s = "s\<lparr>total_slot_count := total_slot_count s + 1,
    slot_count := c_rem (total_slot_count s + 1) (max_slot_num s)\<rparr>"
  from assms obtain s2 where s2: "start_slot_timer (slot_time s) ?s = Some s2"
    by (cases "start_slot_timer (slot_time s) ?s") (simp_all add: slot_begin_def Let_def split: if_splits)
  have "received_fi_list s1 = fade_list 1 (received_fi_list s2)"
    using assms s2
    by (simp add: slot_begin_def Let_def fade_received_fi_list_def split: if_splits) (drule sym, simp)+
  then show ?thesis using start_slot_timer_received [OF s2] by simp
qed

lemma slotHandler_avoids:
  assumes "slotHandler e z s = Some s'" and "node_inv e s" and "env_ok e" and "\<not> t_busy (mhSlot s)"
    and "\<not> t_busy (mhBackoff s)" and "enable s" and "node_state s = NODE_LISTEN"
    and "received_fi_list s = [fi]" and "1 < remain_time fi" and "int j < frame_len fi"
    and "frame_len fi \<le> max_slot_num s"
    and "busy (slot_describe fi ! j) = SLOT_1HOP" and "sti (slot_describe fi ! j) = owner"
    and "owner \<notin> {0, global_sti s}" and "global_sti s \<noteq> 0"
  shows "avoids j owner s'"
proof -
  from assms(1) obtain s1 where s1: "slot_begin z s = Some s1" by (auto simp: slotHandler_def bind_eq_Some_conv)
  have b: "begun e s s1" using slot_begin_begun [OF assms(2,4), of z] s1 by (simp add: succeeds_iff)
  have r: "received_fi_list s1 = [fi\<lparr>remain_time := remain_time fi - 1\<rparr>]"
    using slot_begin_received [OF s1] assms(8,9) by simp
  have n: "node_state s1 = NODE_LISTEN" "global_sti s1 = global_sti s" "max_slot_num s1 = max_slot_num s"
    using b assms(7) by (auto simp: begun_def)
  show ?thesis
  proof (cases "enable s1 \<and> slot_count s1 = slot_num s1")
    case False
    then have "node_state s' = NODE_LISTEN"
      using assms(1) s1 n slot_log_spec [of e s1] b
      by (auto simp: slotHandler_def begun_def emit_def split: if_splits)
    then show ?thesis by (simp add: avoids_def)
  next
    case True
    from slot_log_spec [of e s1] b obtain t es where
      log: "slot_log s1 = Some (emit es (s1\<lparr>last_log_time := t\<rparr>))" by (auto simp: begun_def)
    let ?s3 = "mod_stats (\<lambda>x. x\<lparr>frame_count := frame_count x + 1\<rparr>) (emit es (s1\<lparr>last_log_time := t\<rparr>))"
    have "slot_action e ?s3 = Some s'"
      using assms(1) s1 log True by (auto simp: slotHandler_def emit_def split: if_splits)
    then have "slot_listen e ?s3 = Some s'" using n(1) by (simp add: slot_action_def mod_stats_def emit_def)
    moreover have "action_pre e ?s3"
      using b True n assms(2,3,5,6)
      by (auto simp: action_pre_def begun_def node_inv_def adj_ok_def nums_ok_def emit_def)
    moreover have "node_state ?s3 = NODE_LISTEN" "received_fi_list ?s3 = received_fi_list s1"
      "max_slot_num ?s3 = max_slot_num s" "global_sti ?s3 = global_sti s"
      using n by (simp_all add: mod_stats_def emit_def)
    ultimately show ?thesis
      using r assms(10-15)
      by (intro slot_listen_avoids [of e ?s3 s' "fi\<lparr>remain_time := remain_time fi - 1\<rparr>"]) simp_all
  qed
qed

section \<open>Properties\<close>

lemma announced_slot:
  assumes "table_ok b" and "int j < max_slot_num b" and "busy (tags b ! j) = SLOT_1HOP"
    and "sti (tags b ! j) = global_sti b" and "global_sti b < 2 ^ 16"
  shows "busy (slot_describe (announced b src r) ! j) = SLOT_1HOP"
    and "sti (slot_describe (announced b src r) ! j) = global_sti b"
    and "frame_len (announced b src r) = max_slot_num b" and "frame_ok (announced b src r)"
    and "remain_time (announced b src r) = max_slot_num r"
proof -
  have m: "max_slot_num b \<le> int (length (tags b))" "0 < max_slot_num b" using assms(1) by (auto simp: table_ok_def)
  have "take_bit 16 (global_sti b) = global_sti b" using assms(5) by (intro take_bit_unat_self) (simp add: word_less_nat_alt)
  then show "busy (slot_describe (announced b src r) ! j) = SLOT_1HOP"
    "sti (slot_describe (announced b src r) ! j) = global_sti b"
    using m assms(2-4) by (simp_all add: announced_def received_fi_def wire_tag_def)
  show "frame_len (announced b src r) = max_slot_num b" "remain_time (announced b src r) = max_slot_num r"
    using m by (simp_all add: announced_def received_fi_def)
  show "frame_ok (announced b src r)"
    using m assms(1) by (auto simp: announced_def received_fi_def frame_ok_def table_ok_def)
qed


definition example_sender :: mac where
  "example_sender = example_mac (example_node 1 [example_tag 1 SLOT_1HOP])"

definition example_listener :: mac where
  "example_listener = example_mac ((example_node 2 [])\<lparr>node_state := NODE_LISTEN\<rparr>)"


end
