(* ===== verification/Sat_Packet.thy ===== *)
theory Sat_Packet
  imports Fi_Packet
begin

text \<open>
  The FI header of the ns-3 port, \<open>FiHeader\<close> of \<open>src/ns3/satmac/model/satmac-packet.cc\<close>. It writes and
  reads bit fields with the code of \<open>MacTdma\<close>, but its fields have other widths
  (\<open>satmac-common.h\<close>): an identifier has 9 bits, a count 2 bits, and the priority is not sent, so a
  slot takes 13 bits and its fields do not stay aligned to bytes.

  The structs \<open>slot_tag\<close> and \<open>Frame_info\<close> of the port have the fields of those of \<open>MacTdma\<close>. Here
  \<open>sti\<close> is a signed \<open>int\<close> and \<open>busy\<close> and \<open>psf\<close> are \<open>char\<close>; they are kept as words and read as signed
  where the code does.
\<close>

section \<open>Model\<close>

abbreviation (input) SAT_LENGTH_STI :: nat where "SAT_LENGTH_STI \<equiv> 9"
abbreviation (input) SAT_LENGTH_COUNT :: nat where "SAT_LENGTH_COUNT \<equiv> 2"
abbreviation (input) SAT_LENGTH_PSF :: nat where "SAT_LENGTH_PSF \<equiv> 0"

abbreviation (input) SAT_LENGTH_SLOT_TAG :: nat where
  "SAT_LENGTH_SLOT_TAG \<equiv> BIT_LENGTH_BUSY + SAT_LENGTH_STI + SAT_LENGTH_PSF + SAT_LENGTH_COUNT"

text \<open>\<open>FiHeader::setvalue\<close> has the text of \<open>MacTdma::setvalue\<close>.\<close>

definition FiHeader_setvalue :: "u8 \<Rightarrow> nat \<Rightarrow> bit_buffer \<Rightarrow> bit_buffer option" where
  "FiHeader_setvalue val bit_len st = setvalue val bit_len st"

text \<open>\<open>FiHeader::decode_value\<close> returns at once on an empty field, then has the text of \<open>MacTdma\<close>.\<close>

definition FiHeader_decode_value :: "u8 list \<Rightarrow> nat \<times> nat \<Rightarrow> nat \<Rightarrow> (u64 \<times> nat \<times> nat) option" where
  "FiHeader_decode_value buffer c len = (if len = 0 then Some (0, c) else decode_value buffer c len)"

text \<open>An identifier is shifted as an \<open>int\<close>: the leading bits, then the bytes.\<close>

fun sat_put_bytes :: "u32 \<Rightarrow> nat \<Rightarrow> bit_buffer \<Rightarrow> bit_buffer option" where
  "sat_put_bytes x 0 st = Some st"
| "sat_put_bytes x (Suc j) st =
     (case FiHeader_setvalue (ucast (signed_drop_bit (8 * j) x)) 8 st of
        None \<Rightarrow> None | Some st' \<Rightarrow> sat_put_bytes x j st')"

definition sat_put_sti :: "u32 \<Rightarrow> bit_buffer \<Rightarrow> bit_buffer option" where
  "sat_put_sti x st = do {
     let field_length = SAT_LENGTH_STI div 8;
     st' \<leftarrow> (if SAT_LENGTH_STI mod 8 \<noteq> 0
             then FiHeader_setvalue (ucast (signed_drop_bit (8 * field_length) x)) (SAT_LENGTH_STI mod 8) st
             else Some st);
     sat_put_bytes x field_length st'
   }"

text \<open>The count is cut off at the largest value of its field.\<close>

definition sat_count :: "int \<Rightarrow> u8" where
  "sat_count count =
     (let tmpbitmask = NOT (push_bit SAT_LENGTH_COUNT (drop_bit SAT_LENGTH_COUNT (0xff :: u8)))
      in if uint tmpbitmask < count then tmpbitmask else word_of_int count)"

definition sat_put_slot_tag :: "slot_tag \<Rightarrow> bit_buffer \<Rightarrow> bit_buffer option" where
  "sat_put_slot_tag t st = do {
     st1 \<leftarrow> FiHeader_setvalue (busy t) BIT_LENGTH_BUSY st;
     st2 \<leftarrow> sat_put_sti (sti t) st1;
     st3 \<leftarrow> FiHeader_setvalue (sat_count (count_2hop t)) SAT_LENGTH_COUNT st2;
     if 0 < SAT_LENGTH_PSF then FiHeader_setvalue (psf t) SAT_LENGTH_PSF st3 else Some st3
   }"

definition sat_fi_size :: "int \<Rightarrow> int" where
  "sat_fi_size m =
     (let n = int SAT_LENGTH_SLOT_TAG * m + int SAT_LENGTH_STI + int BIT_LENGTH_FRAMELEN
      in if n mod 8 \<noteq> 0 then n div 8 + 1 else n div 8)"

definition sat_put_slot_step ::
    "u32 \<Rightarrow> int \<Rightarrow> bit_buffer \<times> slot_tag list \<Rightarrow> (bit_buffer \<times> slot_tag list) option" where
  "sat_put_slot_step m_global_sti i c = (case c of (st, ts) \<Rightarrow> do {
     t \<leftarrow> array_get ts i;
     st' \<leftarrow> sat_put_slot_tag t st;
     ts' \<leftarrow> array_mod ts i (sent_tag m_global_sti);
     Some (st', ts')
   })"

text \<open>The constructor that writes the header; it resets the counters of the table it is given.\<close>

definition FiHeader :: "int \<Rightarrow> u32 \<Rightarrow> slot_tag list \<Rightarrow> (u8 list \<times> slot_tag list) option" where
  "FiHeader framelength m_global_sti fi_local =
     (if framelength < 1 then None
      else do {
        st1 \<leftarrow> sat_put_sti m_global_sti (replicate (nat (sat_fi_size framelength)) 0, 0, 7);
        st2 \<leftarrow> FiHeader_setvalue (word_of_nat (log2_floor (nat framelength))) BIT_LENGTH_FRAMELEN st1;
        ((m_buffer, _), ts) \<leftarrow> for_range 0 framelength (sat_put_slot_step m_global_sti) (st2, fi_local);
        Some (m_buffer, ts)
      })"

definition sat_decode_slot_tag ::
    "u8 list \<Rightarrow> nat \<times> nat \<Rightarrow> slot_tag \<Rightarrow> (slot_tag \<times> nat \<times> nat) option" where
  "sat_decode_slot_tag m_buffer c t = do {
     (v1, c1) \<leftarrow> FiHeader_decode_value m_buffer c BIT_LENGTH_BUSY;
     (v2, c2) \<leftarrow> FiHeader_decode_value m_buffer c1 SAT_LENGTH_STI;
     (v3, c3) \<leftarrow> FiHeader_decode_value m_buffer c2 SAT_LENGTH_COUNT;
     (v4, c4) \<leftarrow> FiHeader_decode_value m_buffer c3 SAT_LENGTH_PSF;
     Some (t\<lparr>busy := ucast v1, sti := ucast v2, count_2hop := sint (ucast v3 :: u32), psf := ucast v4\<rparr>,
       c4)
   }"

definition sat_decode_slot_step ::
    "u8 list \<Rightarrow> int \<Rightarrow> slot_tag list \<times> nat \<times> nat \<Rightarrow> (slot_tag list \<times> nat \<times> nat) option" where
  "sat_decode_slot_step m_buffer i st = (case st of (ts, c) \<Rightarrow> do {
     t \<leftarrow> array_get ts i;
     (t', c') \<leftarrow> sat_decode_slot_tag m_buffer c t;
     ts' \<leftarrow> array_mod ts i (\<lambda>_. t');
     Some (ts', c')
   })"

text \<open>
  \<open>TdmaSatmac::recvFI\<close>. The source address of the packet is not read, so the frame keeps the index
  of a new \<open>Frame_info\<close>.
\<close>

definition sat_recvFI :: "tdma_cfg \<Rightarrow> u8 list \<Rightarrow> 'a tdma_scheme \<Rightarrow> 'a tdma_scheme option" where
  "sat_recvFI cfg m_buffer s = do {
     (v1, c1) \<leftarrow> FiHeader_decode_value m_buffer (0, 7) SAT_LENGTH_STI;
     (v2, c2) \<leftarrow> FiHeader_decode_value m_buffer c1 BIT_LENGTH_FRAMELEN;
     let n = (if adj_frame_ena cfg then 2 ^ unat v2 else max_slot_num s);
     fi \<leftarrow> new_Frame_info n;
     (ts, _) \<leftarrow> for_range 0 n (sat_decode_slot_step m_buffer) (slot_describe fi, c2);
     Some (get_new_FI
       (fi\<lparr>fi_sti := ucast v1, frame_len := n, recv_slot := slot_count s,
           valid_time := max_slot_num s, remain_time := max_slot_num s, slot_describe := ts\<rparr>) s)
   }"

section \<open>A field of two bits across a byte boundary\<close>

text \<open>The two bits as \<open>decode_value\<close> reads them there: the leading one lands at bit 7.\<close>

definition garbled :: "nat \<Rightarrow> nat" where
  "garbled x = 128 * (x div 2 mod 2) + x mod 2"

lemma bit_Suc_0 [simp]: "bit (Suc 0) k \<longleftrightarrow> k = 0"
  using bit_1_iff [where ?'a = nat, of k] by simp

lemma bit_128_nat [simp]: "bit (128 :: nat) k \<longleftrightarrow> k = 7"
proof -
  have "(128 :: nat) = 2 ^ 7" by simp
  then show ?thesis by (simp only: bit_exp_iff) auto
qed

lemma bit_garbled: "bit (garbled x) k \<longleftrightarrow> k = 7 \<and> bit x 1 \<or> k = 0 \<and> bit x 0"
proof -
  have "bit x 1 \<longleftrightarrow> odd (x div 2)" "bit x 0 \<longleftrightarrow> odd x" by (simp_all add: bit_iff_odd)
  moreover have "bit (129 :: nat) k \<longleftrightarrow> k = 7 \<or> k = 0"
  proof -
    have "(129 :: nat) = 128 OR 1" by (simp add: or_nat_def)
    then show ?thesis by (simp only: bit_or_iff bit_128_nat One_nat_def bit_Suc_0)
  qed
  ultimately show ?thesis
    by (cases "odd (x div 2)"; cases "odd x") (auto simp: garbled_def odd_iff_mod_2_eq_one)
qed

lemma decode_pair_straddle:
  assumes "cursor_ok c" and "cursor_pos c mod 8 = 7" and "fi.stored b (cursor_pos c) 2 x"
  shows "\<exists>c'. decode_value b c 2 = Some (word_of_nat (garbled x), c') \<and> cursor_ok c' \<and>
    cursor_pos c' = cursor_pos c + 2"
proof -
  obtain y i where yi: "c = (y, i)" by (cases c)
  have i: "i = 0" using assms(1,2) cursor_pos_mod [of y i] by (simp add: yi cursor_ok_def)
  have p: "cursor_pos c = 8 * y + 7" using assms(1) by (simp add: yi i cursor_pos_def)
  have len: "y + 1 < length b" using assms(3) p by (simp add: fi.stored_def buffer_bits_def)
  have bits: "bit x 1 = bit (b ! y) 0" "bit x 0 = bit (b ! (y + 1)) 7"
  proof -
    have st: "\<forall>k < 2. buffer_bit b (8 * y + 7 + 2 - 1 - k) = bit x k"
      using assms(3) p by (simp add: fi.stored_def)
    have "buffer_bit b (8 * y + 7) = bit x 1" "buffer_bit b (8 * y + 8) = bit x 0"
      using st [rule_format, of 1] st [rule_format, of 0] by (simp_all add: add.commute)
    moreover have "buffer_bit b (8 * y + 7) = bit (b ! y) 0"
      using div_mod_8_add [of 7 y] by (simp add: buffer_bit_def)
    moreover have "buffer_bit b (8 * y + 8) = bit (b ! (y + 1)) 7"
      using div_mod_8_add [of 0 "y + 1"] by (simp add: buffer_bit_def)
    ultimately show "bit x 1 = bit (b ! y) 0" "bit x 0 = bit (b ! (y + 1)) 7" by auto
  qed
  let ?v = "push_bit 7 (word_of_nat (take_bit 1 (unat (b ! y)))) :: u64"
  let ?w = "?v OR word_of_nat (take_bit 1 (drop_bit 7 (unat (b ! (y + 1)))))"
  have "decode_field b y 1 2 0 = decode_field b (y + 1) 8 1 ?v"
    using len by (subst decode_field.simps) (simp add: array_get_in and_pow_sum)
  also have "\<dots> = Some (?w, y + 1, 7)"
  proof -
    have "nat (1 + int y) = Suc y" by simp
    then show ?thesis
      using len by (subst decode_field.simps) (simp add: array_get_in and_pow_sum Let_def)
  qed
  finally have dec: "decode_value b c 2 = Some (?w, y + 1, 6)" by (simp add: decode_value_def yi i)
  have "bit (take_bit 1 (unat (b ! y))) k \<longleftrightarrow> k = 0 \<and> bit x 1"
    "bit (take_bit 1 (drop_bit 7 (unat (b ! (y + 1))))) k \<longleftrightarrow> k = 0 \<and> bit x 0" for k
    by (auto simp only: bits bit_take_bit_iff bit_drop_bit_eq o_def bit_unsigned_iff less_one add_0_right)
      (auto simp: bit_imp_le_length)
  note w = this
  have "?w = word_of_nat (garbled x)"
    by (rule bit_word_eqI, (auto simp only: bit_or_iff bit_push_bit_iff bit_of_nat_iff w bit_garbled; simp))
  with dec show ?thesis by (simp add: cursor_ok_def cursor_pos_def yi i)
qed

section \<open>What is stored\<close>

definition sat_stored_tag :: "u8 list \<Rightarrow> nat \<Rightarrow> slot_tag \<Rightarrow> bool" where
  "sat_stored_tag b p t \<longleftrightarrow> fi.stored b p 2 (unat (busy t)) \<and> fi.stored b (p + 2) 9 (unat (sti t)) \<and>
     fi.stored b (p + 11) 2 (unat (sat_count (count_2hop t)))"

lemma keeps_sat_stored_tag:
  "fi.keeps b b' p \<Longrightarrow> sat_stored_tag b q t \<Longrightarrow> q + 13 \<le> p \<Longrightarrow> sat_stored_tag b' q t"
  by (auto simp: sat_stored_tag_def intro: fi.keeps_stored)

lemma sat_put_sti_eq:
  "sat_put_sti x st = setvalue (ucast (signed_drop_bit 8 x)) 1 st \<bind> setvalue (ucast (signed_drop_bit 0 x)) 8"
  by (cases "setvalue (ucast (signed_drop_bit 8 x)) (Suc 0) st")
    (auto simp: sat_put_sti_def FiHeader_setvalue_def split: option.splits)

lemma sat_put_sti_wrote:
  assumes "ready st 9"
  shows "wrote st 9 (sat_put_sti x st) (\<lambda>b. fi.stored b (cursor_pos (snd st)) 9 (unat x))"
proof -
  let ?p = "cursor_pos (snd st)" and ?hi = "ucast (signed_drop_bit 8 x) :: u8"
    and ?lo = "ucast (signed_drop_bit 0 x) :: u8"
  have r: "ready st (1 + 8)" "ready st 1" using assms by (auto simp: ready_def)
  have "wrote st (1 + 8) (setvalue ?hi 1 st \<bind> setvalue ?lo 8)
      (\<lambda>b. fi.stored b ?p 1 (unat ?hi) \<and> fi.stored b (?p + 1) 8 (unat ?lo))"
  proof (rule wrote_then [OF _ r(1)])
    show "wrote st 1 (setvalue ?hi 1 st) (\<lambda>b. fi.stored b ?p 1 (unat ?hi))"
      by (rule setvalue_wrote) (use r in simp_all)
  next
    fix st' :: bit_buffer assume "ready st' 8" and pos: "cursor_pos (snd st') = ?p + 1"
    then show "wrote st' 8 (setvalue ?lo 8 st') (\<lambda>b. fi.stored b (?p + 1) 8 (unat ?lo))"
      using setvalue_wrote [of st' 8 ?lo] unfolding pos by simp
  qed (rule fi.keeps_stored, auto)
  then have "wrote st (1 + 8) (sat_put_sti x st) (\<lambda>b. fi.stored b ?p (1 + 8) (unat x))"
    unfolding sat_put_sti_eq
  proof (rule wrote_mono)
    fix b assume "fi.stored b ?p 1 (unat ?hi) \<and> fi.stored b (?p + 1) 8 (unat ?lo)"
    then show "fi.stored b ?p (1 + 8) (unat x)"
      by (intro fi.stored_append [of b ?p 1 "unat ?hi" 8 "unat ?lo"])
        (auto simp: bit_unsigned_iff bit_ucast_iff bit_signed_drop_bit_iff dest: bit_imp_le_length)
  qed
  then show ?thesis by simp
qed

lemma sat_put_slot_tag_eq:
  "sat_put_slot_tag t st = setvalue (busy t) 2 st \<bind> (\<lambda>st1. sat_put_sti (sti t) st1 \<bind>
     setvalue (sat_count (count_2hop t)) 2)"
  by (simp add: sat_put_slot_tag_def FiHeader_setvalue_def)

lemma sat_put_slot_tag_wrote:
  assumes "ready st 13"
  shows "wrote st 13 (sat_put_slot_tag t st) (\<lambda>b. sat_stored_tag b (cursor_pos (snd st)) t)"
proof -
  let ?p = "cursor_pos (snd st)" and ?c = "sat_count (count_2hop t)"
  let ?B = "\<lambda>b. fi.stored b ?p 2 (unat (busy t))"
  let ?S = "\<lambda>b. fi.stored b (?p + 2) 9 (unat (sti t))"
  let ?C = "\<lambda>b. fi.stored b (?p + 11) 2 (unat ?c)"
  have sti: "wrote st' (9 + 2) (sat_put_sti (sti t) st' \<bind> setvalue ?c 2) (\<lambda>b. ?S b \<and> ?C b)"
    if r: "ready st' (9 + 2)" and pos: "cursor_pos (snd st') = ?p + 2" for st'
  proof (rule wrote_then [OF _ r])
    show "wrote st' 9 (sat_put_sti (sti t) st') ?S"
      using sat_put_sti_wrote [OF ready_less [OF r], of "sti t"] pos by simp
  next
    fix st2 :: bit_buffer assume "ready st2 2" "cursor_pos (snd st2) = cursor_pos (snd st') + 9"
    then show "wrote st2 2 (setvalue ?c 2 st2) ?C"
      using setvalue_wrote [of st2 2 ?c] pos by (simp add: add.commute)
  qed (use pos in \<open>auto intro: fi.keeps_stored\<close>)
  have "wrote st (2 + (9 + 2)) (setvalue (busy t) 2 st \<bind> (\<lambda>st1. sat_put_sti (sti t) st1 \<bind> setvalue ?c 2))
      (\<lambda>b. ?B b \<and> ?S b \<and> ?C b)"
  proof (rule wrote_then)
    show r: "ready st (2 + (9 + 2))" using assms by simp
    show "wrote st 2 (setvalue (busy t) 2 st) ?B"
      by (rule setvalue_wrote [OF ready_less [OF r]]) simp_all
  qed (use sti in \<open>auto intro: fi.keeps_stored\<close>)
  then show ?thesis by (simp add: sat_put_slot_tag_eq sat_stored_tag_def)
qed

text \<open>A slot as it survives the transmission, by its number.\<close>

definition sat_wire_tag :: "nat \<Rightarrow> slot_tag \<Rightarrow> slot_tag" where
  "sat_wire_tag i t = (let n = unat (sat_count (count_2hop t)) in
     new_slot_tag\<lparr>busy := (if i mod 8 = 2 then word_of_nat (garbled (unat (busy t))) else take_bit 2 (busy t)),
       sti := take_bit 9 (sti t),
       count_2hop := int (if i mod 8 = 3 then garbled n else take_bit 2 n)\<rparr>)"

lemma decode_pair:
  assumes "cursor_ok c" and "fi.stored b (cursor_pos c) 2 x"
  shows "\<exists>c'. decode_value b c 2 =
      Some (word_of_nat (if cursor_pos c mod 8 = 7 then garbled x else take_bit 2 x), c') \<and>
    cursor_ok c' \<and> cursor_pos c' = cursor_pos c + 2"
proof (cases "cursor_pos c mod 8 = 7")
  case True
  then show ?thesis using decode_pair_straddle [OF assms(1) True assms(2)] by simp
next
  case False
  then have "cursor_pos c mod 8 \<le> 6" using mod_less_divisor [of 8 "cursor_pos c"] by linarith
  then show ?thesis using fi.get_stored [OF assms(1,2)] False by simp
qed

text \<open>Where slot \<open>i\<close> and its count lie in a byte; \<open>13 i\<close> and \<open>5 i\<close> agree modulo 8.\<close>

lemma slot_straddles:
  "(13 + 13 * i) mod 8 = 7 \<longleftrightarrow> i mod 8 = (2 :: nat)"
  "(13 + 13 * i + 11) mod 8 = 7 \<longleftrightarrow> i mod 8 = (3 :: nat)"
proof -
  have r: "i mod 8 \<in> {0, 1, 2, 3, 4, 5, 6, 7}" using mod_less_divisor [of 8 i] by auto
  have m: "(a + 13 * i) mod 8 = (a + 13 * (i mod 8)) mod 8" for a
    by (metis mod_add_right_eq mod_mult_right_eq)
  from r m [of 13] show "(13 + 13 * i) mod 8 = 7 \<longleftrightarrow> i mod 8 = 2" by auto
  from r m [of 24] show "(13 + 13 * i + 11) mod 8 = 7 \<longleftrightarrow> i mod 8 = 3" by auto
qed

lemma garbled_less: "garbled x < 256"
  unfolding garbled_def using mod_less_divisor [of 2 "x div 2"] mod_less_divisor [of 2 x] by linarith

lemma sint_small_count: "x < 256 \<Longrightarrow> sint (ucast (word_of_nat x :: u64) :: u32) = int x"
proof -
  assume x: "x < 256"
  then have "ucast (word_of_nat x :: u64) = (word_of_nat x :: u32)"
    by (intro bit_word_eqI) (simp add: bit_ucast_iff bit_of_nat_iff)
  moreover have "sint (word_of_nat x :: u32) = int x"
    using x by (simp add: signed_of_nat signed_take_bit_int_eq_self)
  ultimately show ?thesis by simp
qed

lemma ucast_small: "x < 256 \<Longrightarrow> ucast (word_of_nat x :: u64) = (word_of_nat x :: u8)"
  by (intro bit_word_eqI) (simp add: bit_ucast_iff bit_of_nat_iff)

lemma sat_decode_slot_tag_stored:
  assumes "cursor_ok c" and "cursor_pos c = 13 + 13 * i" and "sat_stored_tag b (cursor_pos c) t"
  shows "\<exists>c'. sat_decode_slot_tag b c new_slot_tag = Some (sat_wire_tag i t, c') \<and>
    cursor_ok c' \<and> cursor_pos c' = cursor_pos c + 13"
proof -
  note st = assms(3) [unfolded sat_stored_tag_def]
  let ?p = "cursor_pos c" and ?n = "unat (sat_count (count_2hop t))"
  have al: "?p mod 8 = 7 \<longleftrightarrow> i mod 8 = 2" "(?p + 11) mod 8 = 7 \<longleftrightarrow> i mod 8 = 3"
    unfolding assms(2) by (rule slot_straddles)+
  from decode_pair [OF assms(1)] st obtain c1 where
    c1: "decode_value b c 2 = Some (word_of_nat (if i mod 8 = 2 then garbled (unat (busy t)) else take_bit 2 (unat (busy t))), c1)"
      "cursor_ok c1" "cursor_pos c1 = ?p + 2" unfolding al(1) by blast
  have "9 mod 8 \<le> 8 - cursor_pos c1 mod 8" using mod_less_divisor [of 8 "cursor_pos c1"] by simp
  from fi.get_stored [OF c1(2), of b 9 "unat (sti t)", OF _ this] st c1(3) obtain c2 where
    c2: "decode_value b c1 9 = Some (word_of_nat (take_bit 9 (unat (sti t))), c2)" "cursor_ok c2"
      "cursor_pos c2 = ?p + 11" by (auto simp: add.commute)
  from decode_pair [OF c2(2), of b ?n] st c2(3) obtain c3 where
    c3: "decode_value b c2 2 = Some (word_of_nat (if i mod 8 = 3 then garbled ?n else take_bit 2 ?n), c3)"
      "cursor_ok c3" "cursor_pos c3 = ?p + 13" unfolding c2(3) al(2) by auto
  have "take_bit 2 x < 256" for x :: nat
    using take_bit_nat_less_exp [of 2 x] by simp
  moreover have "word_of_nat (take_bit 2 (unat (busy t))) = take_bit 2 (busy t)"
    by (rule bit_word_eqI) (auto simp: bit_of_nat_iff bit_take_bit_iff bit_unsigned_iff)
  ultimately show ?thesis
    using c1(1) c2(1) c3 garbled_less
    by (auto simp: sat_decode_slot_tag_def FiHeader_decode_value_def sat_wire_tag_def ucast_take_bit ucast_small
        sint_small_count Let_def new_slot_tag_def)
qed

section \<open>The whole header\<close>

definition sat_header :: "u8 list \<Rightarrow> u32 \<Rightarrow> nat \<Rightarrow> bool" where
  "sat_header b me k \<longleftrightarrow> fi.stored b 0 9 (unat me) \<and> fi.stored b 9 4 k"

lemma sat_fi_size_bits: "0 < m \<Longrightarrow> int (13 + 13 * nat m) \<le> 8 * sat_fi_size m"
  unfolding sat_fi_size_def Let_def by (simp, presburger)

lemma ready_new_buffer: "m \<le> 8 * n \<Longrightarrow> ready (replicate n 0, 0, 7) m"
  by (auto simp: ready_def cursor_ok_def cursor_pos_def buffer_bits_def fi.blank_def buffer_bit_def
      less_mult_imp_div_less mult.commute)

lemma sat_header_wrote:
  assumes "13 \<le> 8 * n"
  shows "wrote (replicate n 0, 0, 7) 13
    (sat_put_sti me (replicate n 0, 0, 7) \<bind> setvalue v 4) (\<lambda>b. sat_header b me (unat v))"
proof -
  let ?st = "(replicate n 0, 0, 7) :: bit_buffer"
  have p: "cursor_pos (snd ?st) = 0" by (simp add: cursor_pos_def)
  have r: "ready ?st (9 + 4)" using ready_new_buffer [OF assms] by simp
  have "wrote ?st (9 + 4) (sat_put_sti me ?st \<bind> setvalue v 4)
      (\<lambda>b. fi.stored b 0 9 (unat me) \<and> fi.stored b 9 4 (unat v))"
  proof (rule wrote_then [OF _ r])
    show "wrote ?st 9 (sat_put_sti me ?st) (\<lambda>b. fi.stored b 0 9 (unat me))"
      using sat_put_sti_wrote [OF ready_less [OF r], of me] unfolding p by simp
  next
    fix st' :: bit_buffer assume "ready st' 4" "cursor_pos (snd st') = cursor_pos (snd ?st) + 9"
    then show "wrote st' 4 (setvalue v 4 st') (\<lambda>b. fi.stored b 9 4 (unat v))"
      using setvalue_wrote [of st' 4 v] unfolding p by simp
  qed (simp add: cursor_pos_def fi.keeps_stored)
  then show ?thesis by (simp add: sat_header_def)
qed

text \<open>The buffer with the header and the first \<open>j\<close> slots, and the table with their counters reset.\<close>

definition sat_written :: "u32 \<Rightarrow> slot_tag list \<Rightarrow> nat \<Rightarrow> nat \<Rightarrow> int \<Rightarrow> bit_buffer \<Rightarrow> bool" where
  "sat_written me ts k bits j st \<longleftrightarrow> cursor_ok (snd st) \<and> cursor_pos (snd st) = 13 + 13 * nat j \<and>
     fi.blank (fst st) (cursor_pos (snd st)) \<and> buffer_bits (fst st) = bits \<and>
     sat_header (fst st) me k \<and> (\<forall>i. int i < j \<longrightarrow> sat_stored_tag (fst st) (13 + 13 * i) (ts ! i))"

lemma sat_written_step:
  assumes w: "sat_written me ts k bits j st" and j: "0 \<le> j" and room: "13 + 13 * nat j + 13 \<le> bits"
  shows "\<exists>st'. sat_put_slot_tag (ts ! nat j) st = Some st' \<and> sat_written me ts k bits (j + 1) st'"
proof -
  let ?p = "cursor_pos (snd st)"
  have p: "?p = 13 + 13 * nat j" using w by (simp add: sat_written_def)
  have "ready st 13" using w room by (auto simp: sat_written_def ready_def)
  from sat_put_slot_tag_wrote [OF this, of "ts ! nat j"] obtain b c where
    bc: "sat_put_slot_tag (ts ! nat j) st = Some (b, c)" "cursor_ok c" "cursor_pos c = ?p + 13"
      "fi.blank b (cursor_pos c)" "fi.keeps (fst st) b ?p" "sat_stored_tag b ?p (ts ! nat j)"
    by (auto simp: wrote_def)
  have "sat_stored_tag b (13 + 13 * i) (ts ! i)" if "int i < j + 1" for i
  proof (cases "int i < j")
    case True
    then have "13 + 13 * i + 13 \<le> ?p" using p j by simp
    with True w keeps_sat_stored_tag [OF bc(5)] show ?thesis by (simp add: sat_written_def)
  next
    case False
    then have "i = nat j" using that by simp
    with bc(6) p show ?thesis by simp
  qed
  moreover have "sat_header b me k"
    using w p fi.keeps_stored [OF bc(5)] by (simp add: sat_written_def sat_header_def)
  moreover have "cursor_pos c = 13 + 13 * nat (j + 1)" using bc(3) p j by (simp add: nat_add_distrib)
  ultimately show ?thesis
    using bc w keeps_bits [OF bc(5)] by (auto simp: sat_written_def)
qed

lemma FiHeader_spec:
  assumes "0 < m" and "m \<le> int (length ts)"
  shows "\<exists>code. FiHeader m me ts = Some (code, map_range m (\<lambda>_. sent_tag me) ts) \<and>
    int (length code) = sat_fi_size m \<and>
    sat_header code me (unat (word_of_nat (log2_floor (nat m)) :: u8)) \<and>
    (\<forall>i. int i < m \<longrightarrow> sat_stored_tag code (13 + 13 * i) (ts ! i))"
proof -
  let ?v = "word_of_nat (log2_floor (nat m)) :: u8" and ?n = "nat (sat_fi_size m)"
  let ?f = "\<lambda>_. sent_tag me"
  note size = sat_fi_size_bits [OF assms(1)]
  then have "0 \<le> sat_fi_size m" by linarith
  then have n: "int ?n = sat_fi_size m" by simp
  have "13 \<le> 8 * ?n" using size n by linarith
  from sat_header_wrote [OF this, of me ?v] obtain st1 b c where
    hd: "sat_put_sti me (replicate ?n 0, 0, 7) = Some st1" "setvalue ?v 4 st1 = Some (b, c)"
      "cursor_ok c" "cursor_pos c = 13" "fi.blank b 13" "buffer_bits b = 8 * ?n" "sat_header b me (unat ?v)"
    by (auto simp: wrote_def cursor_pos_def buffer_bits_def bind_eq_Some_conv dest: keeps_bits)
  let ?I = "\<lambda>j x. sat_written me ts (unat ?v) (8 * ?n) j (fst x) \<and> snd x = map_range j ?f ts"
  have "\<exists>x. for_range 0 m (sat_put_slot_step me) ((b, c), ts) = Some x \<and> ?I m x"
  proof (rule for_range_rule [where I = ?I])
    have "map_range 0 ?f ts = ts" by (intro nth_equalityI) auto
    then show "?I 0 ((b, c), ts)" using hd by (simp add: sat_written_def)
    show "0 \<le> m" using assms by simp
  next
    fix j x assume j: "0 \<le> j" "j < m" and x: "?I j x"
    have "13 + 13 * nat j + 13 \<le> 13 + 13 * nat m" using j by simp
    then have "13 + 13 * nat j + 13 \<le> 8 * ?n" using size n by linarith
    from sat_written_step [OF _ j(1) this] x obtain st' where
      st': "sat_put_slot_tag (ts ! nat j) (fst x) = Some st'"
        "sat_written me ts (unat ?v) (8 * ?n) (j + 1) st'" by blast
    have "(map_range j ?f ts)[nat j := sent_tag me (ts ! nat j)] = map_range (j + 1) ?f ts"
      using j assms by (intro nth_equalityI) (auto simp: nth_list_update)
    then show "\<exists>t'. sat_put_slot_step me j x = Some t' \<and> ?I (j + 1) t'"
      using x j assms st' by (cases x) (simp add: sat_put_slot_step_def array_get_in array_mod_in)
  qed
  then obtain code c' where loop: "for_range 0 m (sat_put_slot_step me) ((b, c), ts) = Some ((code, c'), map_range m ?f ts)"
    "sat_written me ts (unat ?v) (8 * ?n) m (code, c')" by auto
  have "int (length code) = sat_fi_size m"
    using loop(2) n by (simp add: sat_written_def buffer_bits_def)
  then show ?thesis
    using assms(1) hd(1,2) loop by (simp add: FiHeader_def FiHeader_setvalue_def sat_written_def)
qed

text \<open>The slots and the record that \<open>sat_recvFI\<close> appends to the received list.\<close>

definition sat_wire_tags :: "nat \<Rightarrow> slot_tag list \<Rightarrow> slot_tag list" where
  "sat_wire_tags n ts = map (\<lambda>i. sat_wire_tag i (ts ! i)) [0..<n]"

definition sat_received_fi :: "u32 \<Rightarrow> slot_tag list \<Rightarrow> 'a tdma_scheme \<Rightarrow> frame_info" where
  "sat_received_fi me ts r = received_fi me 0 ts r"

lemma sat_decode_slots_loop:
  assumes ok: "cursor_ok c" "cursor_pos c = 13"
    and st: "\<And>i. i < n \<Longrightarrow> sat_stored_tag b (13 + 13 * i) (us ! i)"
  shows "\<exists>c'. for_range 0 (int n) (sat_decode_slot_step b) (replicate n new_slot_tag, c) =
    Some (sat_wire_tags n us, c')"
proof -
  let ?I = "\<lambda>j x. length (fst x) = n \<and> cursor_ok (snd x) \<and> cursor_pos (snd x) = 13 + 13 * nat j \<and>
    (\<forall>i < n. fst x ! i = (if int i < j then sat_wire_tag i (us ! i) else new_slot_tag))"
  have "\<exists>x. for_range 0 (int n) (sat_decode_slot_step b) (replicate n new_slot_tag, c) = Some x \<and> ?I (int n) x"
  proof (rule for_range_rule [where I = ?I])
    show "?I 0 (replicate n new_slot_tag, c)" using ok by simp
  next
    fix j x assume j: "0 \<le> j" "j < int n" and x: "?I j x"
    obtain ts c1 where tc: "x = (ts, c1)" by (cases x)
    have "sat_stored_tag b (cursor_pos c1) (us ! nat j)" using x st [of "nat j"] j by (simp add: tc)
    then obtain c2 where c2: "sat_decode_slot_tag b c1 new_slot_tag = Some (sat_wire_tag (nat j) (us ! nat j), c2)"
        "cursor_ok c2" "cursor_pos c2 = cursor_pos c1 + 13"
      using sat_decode_slot_tag_stored [of c1 "nat j" b "us ! nat j"] x by (auto simp: tc)
    have "sat_decode_slot_step b j x = Some (ts[nat j := sat_wire_tag (nat j) (us ! nat j)], c2)"
      using j x c2(1) by (simp add: tc sat_decode_slot_step_def array_get_in array_mod_in)
    moreover have "?I (j + 1) (ts[nat j := sat_wire_tag (nat j) (us ! nat j)], c2)"
      using x j c2 by (auto simp: tc nth_list_update nat_add_distrib)
    ultimately show "\<exists>t'. sat_decode_slot_step b j x = Some t' \<and> ?I (j + 1) t'" by blast
  qed simp
  then obtain ts c' where loop: "for_range 0 (int n) (sat_decode_slot_step b) (replicate n new_slot_tag, c) = Some (ts, c')"
    "length ts = n" "\<forall>i < n. ts ! i = sat_wire_tag i (us ! i)" by auto
  moreover have "ts = sat_wire_tags n us"
    using loop(2,3) by (intro nth_equalityI) (auto simp: sat_wire_tags_def)
  ultimately show ?thesis by auto
qed

lemma sat_recvFI_stored:
  assumes hd: "sat_header b me k" and k: "k < 16"
    and n: "int n = (if adj_frame_ena cfg then 2 ^ k else max_slot_num r)"
    and st: "\<And>i. i < n \<Longrightarrow> sat_stored_tag b (13 + 13 * i) (us ! i)"
  shows "sat_recvFI cfg b r = Some (get_new_FI (sat_received_fi (take_bit 9 me) (sat_wire_tags n us) r) r)"
proof -
  have c0: "cursor_ok (0, 7)" "cursor_pos (0, 7) = 0" by (simp_all add: cursor_ok_def cursor_pos_def)
  from fi.get_stored [of "(0, 7)" b 9 "unat me"] hd c0 obtain c1 where
    c1: "decode_value b (0, 7) 9 = Some (word_of_nat (take_bit 9 (unat me)), c1)"
      "cursor_ok c1" "cursor_pos c1 = 9" by (auto simp: sat_header_def)
  from fi.get_stored [OF c1(2), of b 4 k] hd c1(3) obtain c2 where
    c2: "decode_value b c1 4 = Some (word_of_nat (take_bit 4 k), c2)" "cursor_ok c2" "cursor_pos c2 = 13"
    by (auto simp: sat_header_def)
  have "unat (word_of_nat (take_bit 4 k) :: u64) = k"
    using k by (simp add: take_bit_nat_eq_self unat_of_nat)
  then have v: "(if adj_frame_ena cfg then 2 ^ unat (word_of_nat (take_bit 4 k) :: u64)
      else max_slot_num r) = int n" using n by simp
  from sat_decode_slots_loop [OF c2(2,3) st] obtain c3 where
    "for_range 0 (int n) (sat_decode_slot_step b) (replicate n new_slot_tag, c2) =
      Some (sat_wire_tags n us, c3)" by blast
  then show ?thesis
    using c1(1) c2(1) unfolding sat_recvFI_def FiHeader_decode_value_def
    by (simp add: v new_Frame_info_def sat_received_fi_def received_fi_def ucast_take_bit sat_wire_tags_def)
qed

lemma sat_recvFI_of_header:
  assumes "m = 2 ^ k" and "k < 16" and "m \<le> int (length ts)" and "adj_frame_ena cfg \<or> max_slot_num r = m"
  shows "\<exists>code. FiHeader m me ts = Some (code, map_range m (\<lambda>_. sent_tag me) ts) \<and>
    sat_recvFI cfg code r =
      Some (get_new_FI (sat_received_fi (take_bit 9 me) (sat_wire_tags (nat m) ts) r) r)"
proof -
  have m: "0 < m" using assms(1) by simp
  from FiHeader_spec [OF m assms(3), of me] obtain code where
    code: "FiHeader m me ts = Some (code, map_range m (\<lambda>_. sent_tag me) ts)"
      "sat_header code me (unat (word_of_nat (log2_floor (nat m)) :: u8))"
      "\<forall>i. int i < m \<longrightarrow> sat_stored_tag code (13 + 13 * i) (ts ! i)" by blast
  have "log2_floor (nat m) = k" using assms(1) log2_floor_power by (simp add: nat_power_eq)
  then have "unat (word_of_nat (log2_floor (nat m)) :: u8) = k"
    using assms(2) by (simp add: unat_of_nat)
  then have "sat_recvFI cfg code r =
      Some (get_new_FI (sat_received_fi (take_bit 9 me) (sat_wire_tags (nat m) ts) r) r)"
    using code(2,3) assms m by (intro sat_recvFI_stored [where k = k]) (auto simp: nat_power_eq)
  with code(1) show ?thesis by blast
qed

lemma sat_count_unat:
  assumes "0 \<le> c"
  shows "unat (sat_count c) = nat (min 3 c)"
proof -
  have "NOT (push_bit 2 (drop_bit 2 (0xff :: u8))) = 3" by code_simp
  moreover have "unat (word_of_int c :: u8) = nat c" if "c \<le> 3"
    using that assms by (simp add: unat_eq_nat_uint uint_word_of_int)
  ultimately show ?thesis by (auto simp: sat_count_def)
qed

section \<open>Properties\<close>

text \<open>
  C39: the FI header of the ns-3 port, written and read back, for every frame length that is a power
  of two and every table. The identifiers survive in their lower 9 bits. The state of a slot and its
  count, cut off at 3, survive except where the two bits lie in two bytes: the state of every slot
  \<open>8 k + 2\<close> and the count of every slot \<open>8 k + 3\<close>, whose leading bit is read as bit 7.
\<close>

theorem sat_recvFI_FiHeader:
  assumes "m = 2 ^ k" and "k < 16" and "m \<le> int (length ts)" and "adj_frame_ena cfg \<or> max_slot_num r = m"
    and "\<forall>t \<in> set ts. 0 \<le> count_2hop t"
  shows "\<exists>code ts' fi. FiHeader m me ts = Some (code, ts') \<and> sat_recvFI cfg code r = Some (get_new_FI fi r) \<and>
    fi_sti fi = take_bit 9 me \<and> frame_len fi = m \<and> length (slot_describe fi) = nat m \<and>
    (\<forall>i < nat m. let t = ts ! i; u = slot_describe fi ! i; n = nat (min 3 (count_2hop t)) in
       sti u = take_bit 9 (sti t) \<and>
       busy u = (if i mod 8 = 2 then word_of_nat (garbled (unat (busy t))) else take_bit 2 (busy t)) \<and>
       count_2hop u = int (if i mod 8 = 3 then garbled n else n))"
proof -
  let ?fi = "sat_received_fi (take_bit 9 me) (sat_wire_tags (nat m) ts) r"
  from sat_recvFI_of_header [OF assms(1-4), of me] obtain code ts' where
    "FiHeader m me ts = Some (code, ts')" "sat_recvFI cfg code r = Some (get_new_FI ?fi r)" by blast
  moreover have "fi_sti ?fi = take_bit 9 me" "frame_len ?fi = m" "length (slot_describe ?fi) = nat m"
    using assms(1) by (simp_all add: sat_received_fi_def received_fi_def sat_wire_tags_def)
  moreover have "sti (slot_describe ?fi ! i) = take_bit 9 (sti (ts ! i)) \<and>
      busy (slot_describe ?fi ! i) =
        (if i mod 8 = 2 then word_of_nat (garbled (unat (busy (ts ! i)))) else take_bit 2 (busy (ts ! i))) \<and>
      count_2hop (slot_describe ?fi ! i) = int (if i mod 8 = 3 then garbled (nat (min 3 (count_2hop (ts ! i))))
        else nat (min 3 (count_2hop (ts ! i))))" if "i < nat m" for i
  proof -
    have "0 \<le> count_2hop (ts ! i)" using that assms(3,5) by simp
    then have "unat (sat_count (count_2hop (ts ! i))) = nat (min 3 (count_2hop (ts ! i)))"
      by (rule sat_count_unat)
    moreover have "take_bit 2 (nat (min 3 c)) = nat (min 3 c)" for c :: int
      by (rule take_bit_nat_eq_self) simp
    ultimately show ?thesis
      using that by (simp add: sat_received_fi_def received_fi_def sat_wire_tags_def sat_wire_tag_def Let_def)
  qed
  ultimately show ?thesis unfolding Let_def by (intro exI conjI allI impI) blast+
qed

theorem sat_recvFI_FiHeader_witness:
  "\<exists>code ts' fi. FiHeader 32 1 (example_tags [example_tag 1 SLOT_1HOP]) = Some (code, ts') \<and>
    sat_recvFI example_cfg code (example_node 2 []) = Some (get_new_FI fi (example_node 2 [])) \<and>
    fi_sti fi = take_bit 9 1 \<and> frame_len fi = 32 \<and> length (slot_describe fi) = nat 32 \<and>
    (\<forall>i < nat 32. let t = example_tags [example_tag 1 SLOT_1HOP] ! i; u = slot_describe fi ! i;
         n = nat (min 3 (count_2hop t)) in
       sti u = take_bit 9 (sti t) \<and>
       busy u = (if i mod 8 = 2 then word_of_nat (garbled (unat (busy t))) else take_bit 2 (busy t)) \<and>
       count_2hop u = int (if i mod 8 = 3 then garbled n else n))"
  by (rule sat_recvFI_FiHeader [where k = 5]) (auto simp: example_tags_def example_tag_def new_slot_tag_def)

end
