(* ===== verification/Sat_Queue.thy ===== *)
theory Sat_Queue
  imports Tdma_Prelude "HOL-Library.Multiset" "HOL-Library.Sublist"
begin

text \<open>
  \<open>TdmaMacQueue\<close> of \<open>src/ns3/satmac/model/tdma-mac-queue.cc\<close>, in which the ns-3 MAC keeps the packets
  of the layers above until its slot comes. A packet that waits \<open>m_maxDelay\<close> is dropped; every
  operation but \<open>Remove\<close> and \<open>Flush\<close> first removes such packets. The locale \<open>timed_queue\<close> is what
  the MAC relies on when it sends.

  A packet is a pointer; packets are compared, and never looked into. \<open>Simulator::Now ()\<close> is the
  argument \<open>now\<close>, and the calls of \<open>m_txDropCallback\<close> are the list \<open>dropped\<close>.
\<close>

section \<open>Model\<close>

record ('p, 'h) item =
  packet :: 'p
  hdr :: 'h
  tstamp :: int

record ('p, 'h) mac_queue =
  m_queue :: "('p, 'h) item list"
  m_size :: u32
  m_maxSize :: u32
  m_maxDelay :: int
  m_count :: u32
  dropped :: "'p list"

text \<open>The object after its construction, with the values of its two attributes.\<close>

definition new_TdmaMacQueue :: "u32 \<Rightarrow> int \<Rightarrow> ('p, 'h) mac_queue" where
  "new_TdmaMacQueue maxSize maxDelay = \<lparr>m_queue = [], m_size = 0, m_maxSize = maxSize,
     m_maxDelay = maxDelay, m_count = 0, dropped = []\<rparr>"

text \<open>The loop of \<open>Cleanup\<close>: what stays in the list and what is dropped from it.\<close>

fun cleanup_loop :: "int \<Rightarrow> int \<Rightarrow> ('p, 'h) item list \<Rightarrow> ('p, 'h) item list \<times> 'p list" where
  "cleanup_loop delay now [] = ([], [])"
| "cleanup_loop delay now (i # is) = (case cleanup_loop delay now is of (kept, out) \<Rightarrow>
     if tstamp i + delay > now then (i # kept, out) else (kept, packet i # out))"

definition Cleanup :: "int \<Rightarrow> ('p, 'h) mac_queue \<Rightarrow> ('p, 'h) mac_queue" where
  "Cleanup now q =
     (if m_queue q = [] then q
      else case cleanup_loop (m_maxDelay q) now (m_queue q) of (kept, out) \<Rightarrow>
        q\<lparr>m_queue := kept, m_size := m_size q - of_nat (length out),
          m_count := m_count q + of_nat (length out), dropped := dropped q @ out\<rparr>)"

definition TdmaMacQueue_Enqueue ::
    "int \<Rightarrow> 'p \<Rightarrow> 'h \<Rightarrow> ('p, 'h) mac_queue \<Rightarrow> bool \<times> ('p, 'h) mac_queue" where
  "TdmaMacQueue_Enqueue now p h q =
     (let q1 = Cleanup now q in
      if m_size q1 = m_maxSize q1 then (False, q1)
      else (True, q1\<lparr>m_queue := m_queue q1 @ [\<lparr>packet = p, hdr = h, tstamp = now\<rparr>],
              m_size := m_size q1 + 1\<rparr>))"

text \<open>A null pointer is \<open>None\<close>.\<close>

definition TdmaMacQueue_Dequeue ::
    "int \<Rightarrow> ('p, 'h) mac_queue \<Rightarrow> ('p \<times> 'h) option \<times> ('p, 'h) mac_queue" where
  "TdmaMacQueue_Dequeue now q =
     (let q1 = Cleanup now q in
      case m_queue q1 of
        [] \<Rightarrow> (None, q1)
      | i # is \<Rightarrow> (Some (packet i, hdr i), q1\<lparr>m_queue := is, m_size := m_size q1 - 1\<rparr>))"

definition TdmaMacQueue_Peek ::
    "int \<Rightarrow> ('p, 'h) mac_queue \<Rightarrow> ('p \<times> 'h) option \<times> ('p, 'h) mac_queue" where
  "TdmaMacQueue_Peek now q =
     (let q1 = Cleanup now q in
      case m_queue q1 of [] \<Rightarrow> (None, q1) | i # is \<Rightarrow> (Some (packet i, hdr i), q1))"

definition TdmaMacQueue_IsEmpty :: "int \<Rightarrow> ('p, 'h) mac_queue \<Rightarrow> bool \<times> ('p, 'h) mac_queue" where
  "TdmaMacQueue_IsEmpty now q = (let q1 = Cleanup now q in (m_queue q1 = [], q1))"

definition TdmaMacQueue_Flush :: "('p, 'h) mac_queue \<Rightarrow> ('p, 'h) mac_queue" where
  "TdmaMacQueue_Flush q = q\<lparr>m_queue := [], m_size := 0\<rparr>"

text \<open>The search of \<open>Remove\<close>: the list without the first item of the packet.\<close>

fun remove_loop :: "'p \<Rightarrow> ('p, 'h) item list \<Rightarrow> ('p, 'h) item list option" where
  "remove_loop p [] = None"
| "remove_loop p (i # is) = (if packet i = p then Some is else map_option ((#) i) (remove_loop p is))"

definition TdmaMacQueue_Remove :: "'p \<Rightarrow> ('p, 'h) mac_queue \<Rightarrow> bool \<times> ('p, 'h) mac_queue" where
  "TdmaMacQueue_Remove p q =
     (case remove_loop p (m_queue q) of
        None \<Rightarrow> (False, q)
      | Some is \<Rightarrow> (True, q\<lparr>m_queue := is, m_size := m_size q - 1\<rparr>))"

text \<open>\<open>TdmaSatmac::Queue\<close> and \<open>GetQueueState\<close>; a refused packet is reported as dropped.\<close>

definition TdmaSatmac_Queue :: "int \<Rightarrow> 'p \<Rightarrow> 'h \<Rightarrow> ('p, 'h) mac_queue \<Rightarrow> ('p, 'h) mac_queue" where
  "TdmaSatmac_Queue now p h q =
     (case TdmaMacQueue_Enqueue now p h q of
        (True, q') \<Rightarrow> q' | (False, q') \<Rightarrow> q'\<lparr>dropped := dropped q' @ [p]\<rparr>)"

definition GetQueueState :: "('p, 'h) mac_queue \<Rightarrow> u32" where
  "GetQueueState q = (if m_maxSize q = m_size q then 0 else 1)"

section \<open>Expiry\<close>

text \<open>The items that are still of use at a time.\<close>

definition live :: "int \<Rightarrow> int \<Rightarrow> ('p, 'h) item \<Rightarrow> bool" where
  "live delay now i \<longleftrightarrow> now < tstamp i + delay"

lemma cleanup_loop_spec:
  "cleanup_loop delay now is =
     (filter (live delay now) is, map packet (filter (\<lambda>i. \<not> live delay now i) is))"
  by (induction "is") (auto simp: live_def)

text \<open>The size field is the length of the list, which is within the bound.\<close>

definition queue_ok :: "('p, 'h) mac_queue \<Rightarrow> bool" where
  "queue_ok q \<longleftrightarrow> m_size q = of_nat (length (m_queue q)) \<and> length (m_queue q) \<le> unat (m_maxSize q)"

lemma queue_ok_size: "queue_ok q \<Longrightarrow> unat (m_size q) = length (m_queue q)"
proof -
  assume ok: "queue_ok q"
  have "unat (m_maxSize q) < 2 ^ LENGTH(32)" by (rule unsigned_less)
  with ok show ?thesis by (auto simp: queue_ok_def unsigned_of_nat intro!: take_bit_nat_eq_self)
qed

lemma Cleanup_spec:
  assumes "queue_ok q"
  shows "queue_ok (Cleanup now q)"
    "m_queue (Cleanup now q) = filter (live (m_maxDelay q) now) (m_queue q)"
    "dropped (Cleanup now q) =
       dropped q @ map packet (filter (\<lambda>i. \<not> live (m_maxDelay q) now i) (m_queue q))"
    "m_maxDelay (Cleanup now q) = m_maxDelay q" "m_maxSize (Cleanup now q) = m_maxSize q"
proof -
  let ?L = "live (m_maxDelay q) now"
  have "length (m_queue q) = length (filter ?L (m_queue q)) + length (filter (\<lambda>i. \<not> ?L i) (m_queue q))"
    using sum_length_filter_compl [of ?L "m_queue q"] by simp
  then have "(of_nat (length (m_queue q)) :: u32) =
      of_nat (length (filter ?L (m_queue q))) + of_nat (length (filter (\<lambda>i. \<not> ?L i) (m_queue q)))"
    by (metis of_nat_add)
  moreover have "length (filter ?L (m_queue q)) \<le> unat (m_maxSize q)"
    using assms by (auto simp: queue_ok_def intro: order.trans [OF length_filter_le])
  ultimately show "queue_ok (Cleanup now q)"
    using assms by (auto simp: Cleanup_def cleanup_loop_spec queue_ok_def)
  show "m_queue (Cleanup now q) = filter ?L (m_queue q)"
    "dropped (Cleanup now q) = dropped q @ map packet (filter (\<lambda>i. \<not> ?L i) (m_queue q))"
    "m_maxDelay (Cleanup now q) = m_maxDelay q" "m_maxSize (Cleanup now q) = m_maxSize q"
    by (simp_all add: Cleanup_def cleanup_loop_spec)
qed

lemmas queue_op_defs = TdmaMacQueue_Enqueue_def TdmaMacQueue_Dequeue_def TdmaMacQueue_Peek_def
  TdmaMacQueue_IsEmpty_def Let_def

section \<open>What the MAC relies on\<close>

text \<open>
  \<open>rep q xs\<close>: the queue holds the items \<open>xs\<close>; \<open>fresh q now\<close> selects those that have not expired.
\<close>

locale timed_queue =
  fixes enq :: "int \<Rightarrow> 'p \<Rightarrow> 'h \<Rightarrow> 'q \<Rightarrow> bool \<times> 'q"
    and deq :: "int \<Rightarrow> 'q \<Rightarrow> ('p \<times> 'h) option \<times> 'q"
    and peek :: "int \<Rightarrow> 'q \<Rightarrow> ('p \<times> 'h) option \<times> 'q"
    and is_empty :: "int \<Rightarrow> 'q \<Rightarrow> bool \<times> 'q"
    and items :: "'q \<Rightarrow> ('p \<times> 'h \<times> int) list"
    and delay :: "'q \<Rightarrow> int"
    and cap :: "'q \<Rightarrow> nat"
    and ok :: "'q \<Rightarrow> bool"
  assumes enq_spec: "ok q \<Longrightarrow> xs = filter (\<lambda>(p, h, t). now < t + delay q) (items q) \<Longrightarrow>
      (if length xs < cap q then fst (enq now p h q) \<and> items (snd (enq now p h q)) = xs @ [(p, h, now)]
       else \<not> fst (enq now p h q) \<and> items (snd (enq now p h q)) = xs)"
    and deq_spec: "ok q \<Longrightarrow> xs = filter (\<lambda>(p, h, t). now < t + delay q) (items q) \<Longrightarrow>
      (case xs of [] \<Rightarrow> fst (deq now q) = None \<and> items (snd (deq now q)) = []
       | (p, h, _) # ys \<Rightarrow> fst (deq now q) = Some (p, h) \<and> items (snd (deq now q)) = ys)"
    and peek_spec: "ok q \<Longrightarrow> xs = filter (\<lambda>(p, h, t). now < t + delay q) (items q) \<Longrightarrow>
      items (snd (peek now q)) = xs \<and>
      fst (peek now q) = (case xs of [] \<Rightarrow> None | (p, h, _) # ys \<Rightarrow> Some (p, h))"
    and empty_spec: "ok q \<Longrightarrow> xs = filter (\<lambda>(p, h, t). now < t + delay q) (items q) \<Longrightarrow>
      items (snd (is_empty now q)) = xs \<and> (fst (is_empty now q) \<longleftrightarrow> xs = [])"
    and ok_kept: "ok q \<Longrightarrow> ok (snd (enq now p h q))" "ok q \<Longrightarrow> ok (snd (deq now q))"
      "ok q \<Longrightarrow> ok (snd (peek now q))" "ok q \<Longrightarrow> ok (snd (is_empty now q))"
    and bounds_kept: "ok q \<Longrightarrow> delay (snd (enq now p h q)) = delay q"
      "ok q \<Longrightarrow> delay (snd (deq now q)) = delay q" "ok q \<Longrightarrow> delay (snd (peek now q)) = delay q"
      "ok q \<Longrightarrow> delay (snd (is_empty now q)) = delay q"
begin

text \<open>
  A sender that asks whether there is a packet, looks at it and takes it, all at one time, takes
  the packet it has looked at.
\<close>

lemma peek_then_deq:
  assumes ok: "ok q" and ne: "\<not> fst (is_empty now q)"
  defines "q1 \<equiv> snd (is_empty now q)"
  defines "q2 \<equiv> snd (peek now q1)"
  shows "\<exists>p h. fst (peek now q1) = Some (p, h) \<and> fst (deq now q2) = Some (p, h)"
    "ok (snd (deq now q2))" "delay (snd (deq now q2)) = delay q"
proof -
  let ?live = "\<lambda>(p, h, t). now < t + delay q"
  have q1: "ok q1" "items q1 = filter ?live (items q)" "delay q1 = delay q" "items q1 \<noteq> []"
    using ok ne by (auto simp: q1_def ok_kept bounds_kept empty_spec)
  have q2: "ok q2" "items q2 = items q1" "delay q2 = delay q"
    using q1 peek_spec [OF q1(1) refl, of now] by (auto simp: q2_def ok_kept bounds_kept)
  have live: "filter ?live (items q1) = items q1" by (simp add: q1(2))
  obtain p h t ys where xs: "items q1 = (p, h, t) # ys" using q1(4) by (cases "items q1") auto
  have "fst (peek now q1) = Some (p, h)"
    using peek_spec [OF q1(1) refl, of now] live xs q1(3) by simp
  moreover have "fst (deq now q2) = Some (p, h)"
    using deq_spec [OF q2(1) refl, of now] live xs q1(3) q2 by simp
  ultimately show "\<exists>p h. fst (peek now q1) = Some (p, h) \<and> fst (deq now q2) = Some (p, h)" by blast
  show "ok (snd (deq now q2))" "delay (snd (deq now q2)) = delay q"
    using q2 by (simp_all add: ok_kept bounds_kept)
qed

text \<open>The packet that is at the front when it expires is not the one taken.\<close>

lemma expired_not_taken:
  assumes ok: "ok q" and one: "items q = [(p, h, t)]" and late: "t + delay q \<le> now"
  shows "fst (deq now q) = None"
  using deq_spec [OF ok refl, of now] one late by simp

end

text \<open>The items of the queue as the contract sees them.\<close>

definition queue_items :: "('p, 'h) mac_queue \<Rightarrow> ('p \<times> 'h \<times> int) list" where
  "queue_items q = map (\<lambda>i. (packet i, hdr i, tstamp i)) (m_queue q)"

lemma queue_items_live:
  "filter (\<lambda>(p, h, t). now < t + d) (queue_items q) =
     map (\<lambda>i. (packet i, hdr i, tstamp i)) (filter (live d now) (m_queue q))"
  by (simp add: queue_items_def filter_map o_def live_def [abs_def])

lemma queue_full:
  assumes "queue_ok q"
  shows "m_size q = m_maxSize q \<longleftrightarrow> \<not> length (m_queue q) < unat (m_maxSize q)"
proof -
  have "m_size q = m_maxSize q \<longleftrightarrow> unat (m_size q) = unat (m_maxSize q)" by (simp add: word_unat_eq_iff)
  moreover have "length (m_queue q) \<le> unat (m_maxSize q)" using assms by (simp add: queue_ok_def)
  ultimately show ?thesis using queue_ok_size [OF assms] by auto
qed

lemma Enqueue_ok: "queue_ok q \<Longrightarrow> queue_ok (snd (TdmaMacQueue_Enqueue now p h q))"
  using Cleanup_spec(1) [of q now] queue_full [of "Cleanup now q"]
  by (auto simp: TdmaMacQueue_Enqueue_def Let_def queue_ok_def)

lemma Dequeue_ok: "queue_ok q \<Longrightarrow> queue_ok (snd (TdmaMacQueue_Dequeue now q))"
  using Cleanup_spec(1) [of q now]
  by (auto simp: TdmaMacQueue_Dequeue_def Let_def queue_ok_def split: list.split)

interpretation tq: timed_queue TdmaMacQueue_Enqueue TdmaMacQueue_Dequeue TdmaMacQueue_Peek
    TdmaMacQueue_IsEmpty queue_items m_maxDelay "\<lambda>q. unat (m_maxSize q)" queue_ok
proof unfold_locales
  fix q :: "('p, 'h) mac_queue" and xs now p h
  assume ok: "queue_ok q" and "xs = filter (\<lambda>(p, h, t). now < t + m_maxDelay q) (queue_items q)"
  then have xs: "xs = queue_items (Cleanup now q)"
    by (simp add: queue_items_live Cleanup_spec) (simp add: queue_items_def Cleanup_spec)
  have len: "length xs = length (m_queue (Cleanup now q))" by (simp add: xs queue_items_def)
  show "if length xs < unat (m_maxSize q)
      then fst (TdmaMacQueue_Enqueue now p h q) \<and>
        queue_items (snd (TdmaMacQueue_Enqueue now p h q)) = xs @ [(p, h, now)]
      else \<not> fst (TdmaMacQueue_Enqueue now p h q) \<and>
        queue_items (snd (TdmaMacQueue_Enqueue now p h q)) = xs"
    using queue_full [OF Cleanup_spec(1) [OF ok, of now]] len xs Cleanup_spec(5) [OF ok]
    by (auto simp: TdmaMacQueue_Enqueue_def Let_def) (simp_all add: queue_items_def)
  show "case xs of [] \<Rightarrow> fst (TdmaMacQueue_Dequeue now q) = None \<and>
        queue_items (snd (TdmaMacQueue_Dequeue now q)) = []
      | (p, h, _) # ys \<Rightarrow> fst (TdmaMacQueue_Dequeue now q) = Some (p, h) \<and>
        queue_items (snd (TdmaMacQueue_Dequeue now q)) = ys"
    "queue_items (snd (TdmaMacQueue_Peek now q)) = xs \<and> fst (TdmaMacQueue_Peek now q) =
       (case xs of [] \<Rightarrow> None | (p, h, _) # ys \<Rightarrow> Some (p, h))"
    "queue_items (snd (TdmaMacQueue_IsEmpty now q)) = xs \<and> (fst (TdmaMacQueue_IsEmpty now q) \<longleftrightarrow> xs = [])"
    by (auto simp: xs queue_op_defs queue_items_def split: list.split)
next
  fix q :: "('p, 'h) mac_queue" and now p h
  assume ok: "queue_ok q"
  show "queue_ok (snd (TdmaMacQueue_Enqueue now p h q))" "queue_ok (snd (TdmaMacQueue_Dequeue now q))"
    by (rule Enqueue_ok [OF ok], rule Dequeue_ok [OF ok])
  show "queue_ok (snd (TdmaMacQueue_Peek now q))" "queue_ok (snd (TdmaMacQueue_IsEmpty now q))"
    using Cleanup_spec(1) [OF ok, of now] by (simp_all add: queue_op_defs split: list.split)
  show "m_maxDelay (snd (TdmaMacQueue_Enqueue now p h q)) = m_maxDelay q"
    "m_maxDelay (snd (TdmaMacQueue_Dequeue now q)) = m_maxDelay q"
    "m_maxDelay (snd (TdmaMacQueue_Peek now q)) = m_maxDelay q"
    "m_maxDelay (snd (TdmaMacQueue_IsEmpty now q)) = m_maxDelay q"
    using Cleanup_spec(4) [OF ok, of now] by (simp_all add: queue_op_defs split: list.split)
qed

section \<open>What becomes of every packet\<close>

datatype ('p, 'h) queue_op =
  OpEnqueue 'p 'h | OpDequeue | OpPeek | OpIsEmpty | OpRemove 'p | OpFlush

text \<open>The packets that were accepted, handed to the caller, and taken out without being sent.\<close>

record 'p queue_log =
  accepted :: "'p list"
  delivered :: "'p list"
  withdrawn :: "'p list"

fun queue_step :: "int \<Rightarrow> ('p, 'h) queue_op \<Rightarrow> ('p, 'h) mac_queue \<times> 'p queue_log \<Rightarrow>
    ('p, 'h) mac_queue \<times> 'p queue_log" where
  "queue_step now (OpEnqueue p h) (q, l) = (case TdmaMacQueue_Enqueue now p h q of
     (b, q') \<Rightarrow> (q', if b then l\<lparr>accepted := accepted l @ [p]\<rparr> else l))"
| "queue_step now OpDequeue (q, l) = (case TdmaMacQueue_Dequeue now q of
     (None, q') \<Rightarrow> (q', l) | (Some (p, h), q') \<Rightarrow> (q', l\<lparr>delivered := delivered l @ [p]\<rparr>))"
| "queue_step now OpPeek (q, l) = (snd (TdmaMacQueue_Peek now q), l)"
| "queue_step now OpIsEmpty (q, l) = (snd (TdmaMacQueue_IsEmpty now q), l)"
| "queue_step now (OpRemove p) (q, l) = (case TdmaMacQueue_Remove p q of
     (b, q') \<Rightarrow> (q', if b then l\<lparr>withdrawn := withdrawn l @ [p]\<rparr> else l))"
| "queue_step now OpFlush (q, l) =
     (TdmaMacQueue_Flush q, l\<lparr>withdrawn := withdrawn l @ map packet (m_queue q)\<rparr>)"

fun queue_run :: "(int \<times> ('p, 'h) queue_op) list \<Rightarrow> ('p, 'h) mac_queue \<times> 'p queue_log \<Rightarrow>
    ('p, 'h) mac_queue \<times> 'p queue_log" where
  "queue_run [] c = c"
| "queue_run ((now, x) # xs) c = queue_run xs (queue_step now x c)"

definition accounted :: "('p, 'h) mac_queue \<times> 'p queue_log \<Rightarrow> bool" where
  "accounted c \<longleftrightarrow> (case c of (q, l) \<Rightarrow> queue_ok q \<and>
     mset (accepted l) =
       mset (delivered l) + mset (withdrawn l) + mset (dropped q) + mset (map packet (m_queue q)) \<and>
     subseq (delivered l @ map packet (m_queue q)) (accepted l))"

lemma subseq_append_mono: "subseq (xs @ ys) zs \<Longrightarrow> subseq us ys \<Longrightarrow> subseq (xs @ us) zs"
  by (meson list_emb_append_mono subseq_order.refl subseq_order.trans)

lemma accounted_Cleanup: "accounted (q, l) \<Longrightarrow> accounted (Cleanup now q, l)"
proof -
  assume a: "accounted (q, l)"
  then have ok: "queue_ok q" by (simp add: accounted_def)
  let ?L = "live (m_maxDelay q) now"
  have "mset (m_queue q) = mset (filter ?L (m_queue q)) + mset (filter (\<lambda>i. \<not> ?L i) (m_queue q))"
    by (simp add: multiset_partition)
  then have "mset (map packet (m_queue q)) = mset (map packet (filter ?L (m_queue q))) +
      mset (map packet (filter (\<lambda>i. \<not> ?L i) (m_queue q)))"
    by (metis image_mset_union mset_map)
  moreover have "subseq (delivered l @ map packet (filter ?L (m_queue q))) (accepted l)"
    using a by (auto simp: accounted_def intro: subseq_append_mono subseq_map subseq_filter_left)
  ultimately show ?thesis using a ok by (simp add: accounted_def Cleanup_spec)
qed

lemma remove_loop_spec:
  "remove_loop p is = Some js \<Longrightarrow> mset (map packet is) = add_mset p (mset (map packet js)) \<and>
     subseq js is \<and> length is = Suc (length js)"
  by (induction "is" arbitrary: js) (auto split: if_splits)

lemma accounted_step:
  assumes "accounted c"
  shows "accounted (queue_step now x c)"
proof -
  obtain q l where c: "c = (q, l)" by (cases c)
  have clean: "accounted (Cleanup now q, l)" using accounted_Cleanup assms c by blast
  have ok: "queue_ok q" using assms c by (simp add: accounted_def)
  show ?thesis
  proof (cases x)
    case (OpEnqueue p h)
    with clean c show ?thesis
      using Enqueue_ok [OF ok, of now p h]
      by (auto simp: TdmaMacQueue_Enqueue_def Let_def accounted_def
          simp flip: append_assoc intro: list_emb_append_mono)
  next
    case OpDequeue
    with clean c show ?thesis
      using Dequeue_ok [OF ok, of now]
      by (auto simp: TdmaMacQueue_Dequeue_def Let_def accounted_def split: list.split)
  next
    case (OpRemove p)
    show ?thesis
    proof (cases "remove_loop p (m_queue q)")
      case None
      then show ?thesis using assms c OpRemove by (simp add: TdmaMacQueue_Remove_def)
    next
      case (Some js)
      from remove_loop_spec [OF Some] assms c OpRemove Some show ?thesis
        by (auto simp: TdmaMacQueue_Remove_def accounted_def queue_ok_def
            intro: subseq_append_mono subseq_map)
    qed
  next
    case OpFlush
    with assms c show ?thesis
      using subseq_append_mono [of "delivered l" "map packet (m_queue q)" "accepted l" "[]"]
      by (auto simp: TdmaMacQueue_Flush_def accounted_def queue_ok_def)
  qed (use clean c in \<open>auto simp: queue_op_defs split: list.split\<close>)
qed

lemma accounted_run: "accounted c \<Longrightarrow> accounted (queue_run xs c)"
  by (induction xs c rule: queue_run.induct) (auto simp del: queue_step.simps intro: accounted_step)

definition empty_log :: "'p queue_log" where
  "empty_log = \<lparr>accepted = [], delivered = [], withdrawn = []\<rparr>"

text \<open>
  C40: After any operations at any times on a new queue every packet that was accepted has been
  handed out, removed by its owner, reported as expired, or is still in the queue, and exactly one
  of these; packets are handed out in the order in which they came, and \<open>m_size\<close> is the number of
  packets in the list, which never exceeds \<open>m_maxSize\<close>.
\<close>

theorem TdmaMacQueue_accounts_for_packets:
  "case queue_run xs (new_TdmaMacQueue maxSize maxDelay, empty_log) of (q, l) \<Rightarrow>
     mset (accepted l) =
       mset (delivered l) + mset (withdrawn l) + mset (dropped q) + mset (map packet (m_queue q)) \<and>
     subseq (delivered l @ map packet (m_queue q)) (accepted l) \<and>
     unat (m_size q) = length (m_queue q) \<and> length (m_queue q) \<le> unat (m_maxSize q)"
proof -
  have "accounted (new_TdmaMacQueue maxSize maxDelay, empty_log)"
    by (simp add: accounted_def new_TdmaMacQueue_def empty_log_def queue_ok_def)
  from accounted_run [OF this, of xs] show ?thesis
    by (auto simp: accounted_def queue_ok_size split: prod.splits) (simp add: queue_ok_def)
qed

end
