(* ===== verification/Clocked.thy ===== *)
theory Clocked
  imports Main
begin

text \<open>
  Synchronous machines: a function that makes one clock edge from the inputs sampled at it, runs
  over a stream of inputs, and bounded reachability while the machine is busy. A busy machine looks
  at a part of its inputs only; what it reaches with these inputs held is reached in every run that
  agrees on them.
\<close>

primrec clock_run :: "('i \<Rightarrow> 's \<Rightarrow> 's) \<Rightarrow> (nat \<Rightarrow> 'i) \<Rightarrow> nat \<Rightarrow> 's \<Rightarrow> 's" where
  "clock_run edge inp 0 s = s"
| "clock_run edge inp (Suc n) s = edge (inp n) (clock_run edge inp n s)"

lemma clock_run_add:
  "clock_run edge inp (m + n) s = clock_run edge (\<lambda>k. inp (m + k)) n (clock_run edge inp m s)"
  by (induction n) simp_all

lemma clock_run_Suc:
  "clock_run edge inp (Suc n) s = clock_run edge (\<lambda>k. inp (Suc k)) n (edge (inp 0) s)"
  by (induction n) simp_all

text \<open>Within \<open>n\<close> edges, all of them made while the machine is busy, a state with \<open>Q\<close> is reached.\<close>

primrec reaches :: "('i \<Rightarrow> 's \<Rightarrow> 's) \<Rightarrow> ('s \<Rightarrow> bool) \<Rightarrow> 'i \<Rightarrow> nat \<Rightarrow> 's \<Rightarrow> ('s \<Rightarrow> bool) \<Rightarrow> bool" where
  "reaches edge busy x 0 s Q \<longleftrightarrow> Q s"
| "reaches edge busy x (Suc n) s Q \<longleftrightarrow> Q s \<or> busy s \<and> reaches edge busy x n (edge x s) Q"

lemma reaches_now: "Q s \<Longrightarrow> reaches edge busy x n s Q"
  by (cases n) auto

lemma reaches_le: "reaches edge busy x m s Q \<Longrightarrow> m \<le> n \<Longrightarrow> reaches edge busy x n s Q"
proof (induction m arbitrary: n s)
  case (Suc m)
  then show ?case by (cases n) auto
qed (simp add: reaches_now)

lemma reaches_trans:
  "reaches edge busy x m s Q \<Longrightarrow> (\<And>t. Q t \<Longrightarrow> reaches edge busy x n t R) \<Longrightarrow> reaches edge busy x (m + n) s R"
proof (induction m arbitrary: s)
  case (Suc m)
  show ?case
  proof (cases "Q s")
    case True
    then show ?thesis using Suc.prems(2) reaches_le [of edge busy x n s R "Suc m + n"] by simp
  next
    case False
    then show ?thesis using Suc by simp
  qed
qed simp

lemma reaches_mono: "reaches edge busy x n s Q \<Longrightarrow> (\<And>t. Q t \<Longrightarrow> R t) \<Longrightarrow> reaches edge busy x n s R"
  by (induction n arbitrary: s) auto

lemma reaches_step: "busy s \<Longrightarrow> reaches edge busy x n (edge x s) Q \<Longrightarrow> reaches edge busy x (Suc n) s Q"
  by simp

locale clocked =
  fixes edge :: "'i \<Rightarrow> 's \<Rightarrow> 's" and busy :: "'s \<Rightarrow> bool" and same :: "'i \<Rightarrow> 'i \<Rightarrow> bool"
  assumes busy_edge: "busy s \<Longrightarrow> same x y \<Longrightarrow> edge x s = edge y s"
begin

lemma reaches_run:
  assumes "reaches edge busy x n s Q" "\<And>k. same x (inp k)"
  shows "\<exists>k \<le> n. Q (clock_run edge inp k s) \<and> (\<forall>j < k. busy (clock_run edge inp j s))"
  using assms
proof (induction n arbitrary: s inp)
  case (Suc n)
  show ?case
  proof (cases "Q s")
    case False
    then have b: "busy s" "reaches edge busy x n (edge (inp 0) s) Q"
      using Suc.prems busy_edge [of s x "inp 0"] by auto
    from Suc.IH [OF b(2), of "\<lambda>k. inp (Suc k)"] Suc.prems(2) obtain k where
      k: "k \<le> n" "Q (clock_run edge inp (Suc k) s)" "\<forall>j < k. busy (clock_run edge inp (Suc j) s)"
      unfolding clock_run_Suc by blast
    have "\<forall>j < Suc k. busy (clock_run edge inp j s)"
    proof (intro allI impI)
      fix j assume "j < Suc k"
      then show "busy (clock_run edge inp j s)" using k(3) b(1) by (cases j) auto
    qed
    then show ?thesis using k(1,2) by blast
  qed auto
qed auto

text \<open>A busy state that the held inputs do not change is never left.\<close>

lemma stuck_run:
  assumes "busy s" "edge x s = s" "\<And>k. same x (inp k)"
  shows "clock_run edge inp n s = s"
  using assms busy_edge [of s x] by (induction n) simp_all

end

end
