(* ===== verification/Fpga_Divider.thy ===== *)
theory Fpga_Divider
  imports Tdma_Prelude Clocked
begin

text \<open>
  The sequential divider of the FPGA middleware (\<open>simple_divider.v\<close>): one clock edge as a
  function on the registers, the run of the machine over an arbitrary sequence of inputs, and
  the proof that 68 edges after an accepted request the outputs hold the quotient and the
  remainder. \<open>tdma_control.v\<close> uses the remainder to draw a random candidate slot.

  The five codes of \<open>status\<close> are constructors; \<open>s_default\<close> stands for every other value of the
  6-bit register. Blocking assignments (\<open>temp_a\<close>, \<open>temp_b\<close>) and non-blocking ones are to
  distinct registers within a branch, so a branch is one record update.
\<close>

section \<open>Registers and clock edge\<close>

datatype div_status = s_idle | s_init | s_calc1 | s_calc2 | s_done | s_default

record divider =
  status :: div_status
  iter :: u32
  tempa :: u32
  tempb :: u32
  temp_a :: u64
  temp_b :: u64
  yshang :: u32
  yyushu :: u32
  div_done :: bool

record div_input =
  rst_n :: bool
  enable :: bool
  div_a :: u32
  div_b :: u32

text \<open>\<open>temp_a[63:32]\<close> and \<open>temp_a[31:0]\<close>\<close>

definition hi32 :: "u64 \<Rightarrow> u32" where
  "hi32 w = ucast (drop_bit 32 w)"

definition lo32 :: "u64 \<Rightarrow> u32" where
  "lo32 w = ucast w"

definition div_clear :: "divider \<Rightarrow> divider" where
  "div_clear d = d\<lparr>iter := 0, tempa := 1, tempb := 1, yshang := 1, yyushu := 1,
                  div_done := False, status := s_idle\<rparr>"

definition div_edge :: "div_input \<Rightarrow> divider \<Rightarrow> divider" where
  "div_edge x d =
     (if \<not> rst_n x then div_clear d
      else (case status d of
        s_idle \<Rightarrow> (if enable x then d\<lparr>tempa := div_a x, tempb := div_b x, status := s_init\<rparr>
                   else div_clear d)
      | s_init \<Rightarrow> d\<lparr>temp_a := ucast (tempa d), temp_b := push_bit 32 (ucast (tempb d)),
                    status := s_calc1\<rparr>
      | s_calc1 \<Rightarrow> (if iter d < 32 then d\<lparr>temp_a := push_bit 1 (temp_a d), status := s_calc2\<rparr>
                    else d\<lparr>status := s_done\<rparr>)
      | s_calc2 \<Rightarrow> (if tempb d \<le> hi32 (temp_a d)
                    then d\<lparr>temp_a := temp_a d - temp_b d + 1, iter := iter d + 1, status := s_calc1\<rparr>
                    else d\<lparr>iter := iter d + 1, status := s_calc1\<rparr>)
      | s_done \<Rightarrow> d\<lparr>yshang := lo32 (temp_a d), yyushu := hi32 (temp_a d), div_done := True,
                    iter := 0, status := s_idle\<rparr>
      | s_default \<Rightarrow> d\<lparr>status := s_idle\<rparr>))"

text \<open>\<open>n\<close> clock edges; \<open>inp k\<close> is sampled at edge \<open>k\<close>\<close>

abbreviation div_run :: "(nat \<Rightarrow> div_input) \<Rightarrow> nat \<Rightarrow> divider \<Rightarrow> divider" where
  "div_run \<equiv> clock_run div_edge"

section \<open>The shift-and-subtract invariant\<close>

text \<open>
  After \<open>k\<close> rounds the upper half of \<open>temp_a\<close> is the remainder and the low \<open>k\<close> bits are the
  quotient of the top \<open>k\<close> bits of the dividend; the bits between them are the rest of it. The
  quotient for the divisor 0, which the comparison accepts in every round, is all ones.
\<close>

definition div_inv :: "nat \<Rightarrow> nat \<Rightarrow> nat \<Rightarrow> nat \<Rightarrow> bool" where
  "div_inv a b k t \<longleftrightarrow>
     (\<exists>tp rest q r. a = tp * 2 ^ (32 - k) + rest \<and> rest < 2 ^ (32 - k) \<and> tp = q * b + r
        \<and> tp < 2 ^ k \<and> q < 2 ^ k \<and> (b \<noteq> 0 \<longrightarrow> r < b) \<and> (b = 0 \<longrightarrow> q = 2 ^ k - 1)
        \<and> t = r * 2 ^ 32 + rest * 2 ^ k + q)"

lemma div_invI:
  assumes "a = tp * 2 ^ (32 - k) + rest" "rest < 2 ^ (32 - k)" "tp = q * b + r" "tp < 2 ^ k"
    "q < 2 ^ k" "b \<noteq> 0 \<longrightarrow> r < b" "b = 0 \<longrightarrow> q = 2 ^ k - 1" "t = r * 2 ^ 32 + rest * 2 ^ k + q"
  shows "div_inv a b k t"
  using assms unfolding div_inv_def by blast

lemma div_inv_init: "a < 2 ^ 32 \<Longrightarrow> div_inv a b 0 a"
  unfolding div_inv_def by (intro exI [of _ 0] exI [of _ a]) simp

lemma div_inv_shift:
  fixes a b k t :: nat
  assumes inv: "div_inv a b k t" and k: "k < 32"
  obtains tp rest q r where
    "a = tp * 2 ^ (32 - Suc k) + rest" "rest < 2 ^ (32 - Suc k)" "2 * t = r * 2 ^ 32 + (rest * 2 ^ Suc k + 2 * q)"
    "rest * 2 ^ Suc k + 2 * q + 1 < 2 ^ 32" "r < 2 ^ 32" "tp < 2 ^ Suc k" "2 * q + 1 < 2 ^ Suc k"
    "tp = 2 * q * b + r" "b \<noteq> 0 \<longrightarrow> r < 2 * b" "b = 0 \<longrightarrow> 2 * q + 1 = 2 ^ Suc k - 1"
proof -
  define e where "e = 32 - Suc k"
  have e: "32 - k = Suc e" "k + Suc e = 32" using k by (auto simp: e_def)
  obtain tp rest q r where 1: "a = tp * 2 ^ (32 - k) + rest" "rest < 2 ^ (32 - k)"
    "tp = q * b + r" "tp < 2 ^ k" "q < 2 ^ k" "b \<noteq> 0 \<longrightarrow> r < b" "b = 0 \<longrightarrow> q = 2 ^ k - 1"
    and t: "t = r * 2 ^ 32 + rest * 2 ^ k + q"
    using inv unfolding div_inv_def by blast
  define bt where "bt = rest div 2 ^ e"
  define rs where "rs = rest mod 2 ^ e"
  have rest: "rest = bt * 2 ^ e + rs" unfolding bt_def rs_def by (rule div_mult_mod_eq [symmetric])
  have rs: "rs < 2 ^ e" by (simp add: rs_def)
  have bt: "bt < 2" using 1(2) e by (simp add: bt_def less_mult_imp_div_less)
  have p32: "(2::nat) ^ e * 2 ^ Suc k = 2 ^ 32"
    using e by (metis add.commute add_Suc_right power_add)
  have "2 * t = (2 * r + bt) * 2 ^ 32 + (rs * 2 ^ Suc k + 2 * q)"
    using p32 by (simp add: t rest algebra_simps)
  moreover have "a = (2 * tp + bt) * 2 ^ (32 - Suc k) + rs"
    using 1(1) unfolding e(1) e_def [symmetric] by (simp add: rest algebra_simps)
  moreover have "rs * 2 ^ Suc k + 2 * q + 1 < 2 ^ 32"
  proof -
    have "Suc rs * 2 ^ Suc k \<le> 2 ^ e * 2 ^ Suc k" using rs by (intro mult_right_mono) auto
    then show ?thesis using 1(5) by (simp only: p32) simp
  qed
  moreover have tb: "2 * tp + bt < 2 ^ Suc k" using 1(4) bt by simp
  moreover have "2 * r + bt < 2 ^ 32"
  proof -
    have "2 * r + bt \<le> 2 * tp + bt" using 1(3) by simp
    also have "... < 2 ^ Suc k" by (fact tb)
    also have "... \<le> 2 ^ 32" using k by (intro power_increasing) auto
    finally show ?thesis .
  qed
  moreover have "2 * q + 1 < 2 ^ Suc k" using 1(5) by simp
  moreover have "2 * tp + bt = 2 * q * b + (2 * r + bt)" using 1(3) by simp
  moreover have "b \<noteq> 0 \<longrightarrow> 2 * r + bt < 2 * b" using 1(6) bt by auto
  moreover have "b = 0 \<longrightarrow> 2 * q + 1 = 2 ^ Suc k - 1"
  proof
    assume "b = 0"
    then have "q = 2 ^ k - 1" using 1(7) by simp
    moreover have "(1::nat) \<le> 2 ^ k" by simp
    ultimately show "2 * q + 1 = 2 ^ Suc k - 1" by (simp only: power_Suc)
  qed
  moreover have "rs < 2 ^ (32 - Suc k)" using rs by (simp only: e_def)
  ultimately show thesis by (intro that [of "2 * tp + bt" rs "2 * r + bt" q])
qed

lemma div_inv_step:
  fixes a b k t :: nat
  assumes inv: "div_inv a b k t" and k: "k < 32"
  shows "2 * t < 2 ^ 64"
    and "div_inv a b (Suc k) (if b \<le> 2 * t div 2 ^ 32 then 2 * t - b * 2 ^ 32 + 1 else 2 * t)"
    and "b \<le> 2 * t div 2 ^ 32 \<Longrightarrow> b * 2 ^ 32 \<le> 2 * t \<and> 2 * t - b * 2 ^ 32 + 1 < 2 ^ 64"
proof -
  obtain tp rest q r where *:
    "a = tp * 2 ^ (32 - Suc k) + rest" "rest < 2 ^ (32 - Suc k)" "2 * t = r * 2 ^ 32 + (rest * 2 ^ Suc k + 2 * q)"
    "rest * 2 ^ Suc k + 2 * q + 1 < 2 ^ 32" "r < 2 ^ 32" "tp < 2 ^ Suc k" "2 * q + 1 < 2 ^ Suc k"
    "tp = 2 * q * b + r" "b \<noteq> 0 \<longrightarrow> r < 2 * b" "b = 0 \<longrightarrow> 2 * q + 1 = 2 ^ Suc k - 1"
    by (rule div_inv_shift [OF inv k])
  obtain l where l: "2 * t = r * 2 ^ 32 + l" "l + 1 < 2 ^ 32" using *(3,4) by metis
  have r: "2 * t div 2 ^ 32 = r" unfolding l(1) using l(2) by simp
  show less: "2 * t < 2 ^ 64" using l *(5) by simp
  show sub: "b * 2 ^ 32 \<le> 2 * t \<and> 2 * t - b * 2 ^ 32 + 1 < 2 ^ 64" if "b \<le> 2 * t div 2 ^ 32"
    using that l *(5) unfolding r by simp
  show "div_inv a b (Suc k) (if b \<le> 2 * t div 2 ^ 32 then 2 * t - b * 2 ^ 32 + 1 else 2 * t)"
  proof (cases "b \<le> r")
    case True
    then obtain r' where r': "r = b + r'" using le_Suc_ex by blast
    have "2 * t - b * 2 ^ 32 + 1 = r' * 2 ^ 32 + rest * 2 ^ Suc k + (2 * q + 1)"
      unfolding *(3) by (simp add: r' algebra_simps)
    moreover have "tp = (2 * q + 1) * b + r'" using *(8) by (simp add: r' algebra_simps)
    moreover have "b \<noteq> 0 \<longrightarrow> r' < b" using *(9) r' by simp
    ultimately have "div_inv a b (Suc k) (2 * t - b * 2 ^ 32 + 1)"
      using *(1,2,6,7,10) by (intro div_invI [of a tp "Suc k" rest "2 * q + 1" b r'])
    then show ?thesis using True by (simp only: r if_True)
  next
    case False
    then have "b \<noteq> 0" "r < b" by auto
    then have "div_inv a b (Suc k) (2 * t)"
      using *(1-3,6-8) by (intro div_invI [of a tp "Suc k" rest "2 * q" b r]) linarith+
    then show ?thesis using False by (simp only: r if_False)
  qed
qed

lemma div_inv_final:
  assumes "div_inv a b 32 t"
  shows "t div 2 ^ 32 = (if b = 0 then a else a mod b)"
    and "t mod 2 ^ 32 = (if b = 0 then 2 ^ 32 - 1 else a div b)"
proof -
  obtain q r where *: "a = q * b + r" "q < 2 ^ 32" "b \<noteq> 0 \<longrightarrow> r < b" "b = 0 \<longrightarrow> q = 2 ^ 32 - 1"
    "t = r * 2 ^ 32 + q"
    using assms unfolding div_inv_def by auto
  show "t div 2 ^ 32 = (if b = 0 then a else a mod b)" using * by auto
  show "t mod 2 ^ 32 = (if b = 0 then 2 ^ 32 - 1 else a div b)" using * by auto
qed

lemma unat_hi32: "unat (hi32 w) = unat w div 2 ^ 32"
proof -
  have "unat w div 2 ^ 32 < 2 ^ 32"
    using unsigned_less [of w, where ?'a = nat] by (intro less_mult_imp_div_less) simp
  then show ?thesis
    by (simp add: hi32_def unsigned_ucast_eq drop_bit_eq_div take_bit_eq_mod unat_div)
qed

lemma unat_lo32: "unat (lo32 w) = unat w mod 2 ^ 32"
  by (simp add: lo32_def unsigned_ucast_eq take_bit_eq_mod)

text \<open>One round on the registers: the shift of \<open>s_calc1\<close> and the subtraction of \<open>s_calc2\<close>\<close>

definition div_round :: "u32 \<Rightarrow> u64 \<Rightarrow> u64" where
  "div_round b w = (let v = push_bit 1 w in
     if b \<le> hi32 v then v - push_bit 32 (ucast b) + 1 else v)"

lemma div_round_inv:
  assumes inv: "div_inv a (unat b) k (unat w)" and k: "k < 32"
  shows "div_inv a (unat b) (Suc k) (unat (div_round b w))"
proof -
  note st = div_inv_step [OF inv k]
  define v where "v = push_bit 1 w"
  define c :: u64 where "c = push_bit 32 (ucast b)"
  have v: "unat v = 2 * unat w"
    using st(1) by (simp add: v_def push_bit_eq_mult unat_word_ariths)
  have c: "unat c = unat b * 2 ^ 32"
    using unsigned_less [of b, where ?'a = nat]
    by (simp add: c_def push_bit_eq_mult unat_word_ariths take_bit_eq_mod unsigned_ucast_eq)
  have round: "div_round b w = (if unat b \<le> 2 * unat w div 2 ^ 32 then v - c + 1 else v)"
    unfolding div_round_def v_def [symmetric] c_def [symmetric] Let_def word_le_nat_alt unat_hi32 v ..
  show ?thesis
  proof (cases "unat b \<le> 2 * unat w div 2 ^ 32")
    case True
    have "unat (v - c) = 2 * unat w - unat b * 2 ^ 32"
      using st(3) [OF True] by (subst unat_sub) (simp_all only: word_le_nat_alt v c)
    moreover from this have "unat (v - c + 1) = unat (v - c) + 1"
      using st(3) [OF True] by (subst unat_add_lem [THEN iffD1]) simp_all
    ultimately show ?thesis using st(2) True by (simp only: round if_True)
  next
    case False
    then show ?thesis using st(2) by (simp only: round v if_False)
  qed
qed

section \<open>Runs\<close>

text \<open>The machine between two rounds, working on \<open>a / b\<close> after \<open>k\<close> rounds\<close>

definition div_busy :: "u32 \<Rightarrow> u32 \<Rightarrow> nat \<Rightarrow> divider \<Rightarrow> bool" where
  "div_busy a b k d \<longleftrightarrow> status d = s_calc1 \<and> iter d = of_nat k \<and> tempb d = b
     \<and> temp_b d = push_bit 32 (ucast b) \<and> div_inv (unat a) (unat b) k (unat (temp_a d))"

lemma div_busy_round:
  assumes busy: "div_busy a b k d" and k: "k < 32" and "rst_n x" "rst_n y"
  shows "div_busy a b (Suc k) (div_edge y (div_edge x d))"
    and "div_done (div_edge x d) = div_done d" "div_done (div_edge y (div_edge x d)) = div_done d"
proof -
  have lt: "(of_nat k :: u32) < 32" using k by (simp add: word_less_nat_alt unsigned_of_nat take_bit_nat_eq_self)
  have d: "status d = s_calc1" "iter d = of_nat k" "tempb d = b" "temp_b d = push_bit 32 (ucast b)"
    using busy by (auto simp: div_busy_def)
  have e: "div_edge y (div_edge x d) =
      d\<lparr>temp_a := div_round b (temp_a d), iter := of_nat (Suc k), status := s_calc1\<rparr>"
    using assms(3,4) lt d by (simp add: div_edge_def div_round_def Let_def ac_simps)
  show "div_busy a b (Suc k) (div_edge y (div_edge x d))"
    using busy div_round_inv [OF _ k] unfolding e div_busy_def by simp
  show "div_done (div_edge x d) = div_done d" "div_done (div_edge y (div_edge x d)) = div_done d"
    unfolding e using assms(3) lt d by (simp_all add: div_edge_def)
qed

lemma div_busy_run:
  assumes "\<And>n. rst_n (inp n)" "div_busy a b 0 d" "k \<le> 32"
  shows "div_busy a b k (div_run inp (2 * k) d)
     \<and> (\<forall>j \<le> 2 * k. div_done (div_run inp j d) = div_done d)"
  using assms(3)
proof (induction k)
  case (Suc k)
  then have IH: "div_busy a b k (div_run inp (2 * k) d)" "\<forall>j \<le> 2 * k. div_done (div_run inp j d) = div_done d"
    and k: "k < 32" by auto
  note r = div_busy_round [OF IH(1) k assms(1) assms(1)]
  have "div_done (div_run inp j d) = div_done d" if "j \<le> 2 * Suc k" for j
    using IH(2) r(2,3) that by (cases "j \<le> 2 * k") (auto simp: le_Suc_eq)
  then show ?case using r(1) by simp
qed (use assms(2) in auto)

text \<open>
  The answer for \<open>a / b\<close>: what the outputs hold while \<open>done\<close> is high. A division by zero is not
  flagged; its quotient is all ones and its remainder the dividend.
\<close>

definition div_result :: "u32 \<Rightarrow> u32 \<Rightarrow> divider \<Rightarrow> bool" where
  "div_result a b d \<longleftrightarrow> div_done d \<and> status d = s_idle \<and> iter d = 0
     \<and> yshang d = (if b = 0 then - 1 else a div b) \<and> yyushu d = (if b = 0 then a else a mod b)"

lemma div_finish:
  assumes "div_busy a b 32 d" "rst_n x" "rst_n y"
  shows "div_result a b (div_edge y (div_edge x d))" "div_done (div_edge x d) = div_done d"
proof -
  note f = div_inv_final [of "unat a" "unat b" "unat (temp_a d)"]
  have inv: "div_inv (unat a) (unat b) 32 (unat (temp_a d))" using assms(1) by (simp add: div_busy_def)
  have b0: "unat b = 0 \<longleftrightarrow> b = 0" by (rule unsigned_eq_0_iff)
  have hi: "hi32 (temp_a d) = (if b = 0 then a else a mod b)"
    unfolding word_unat_eq_iff unat_hi32 f(1) [OF inv] b0 by (simp add: unat_mod)
  have m1: "unat (- 1 :: u32) = 2 ^ 32 - 1"
    by (simp add: unsigned_minus_1_eq_mask mask_eq_exp_minus_1)
  have lo: "lo32 (temp_a d) = (if b = 0 then - 1 else a div b)"
    unfolding word_unat_eq_iff unat_lo32 f(2) [OF inv] b0 using m1 by (simp add: unat_div)
  have e: "div_edge y (div_edge x d) = d\<lparr>yshang := lo32 (temp_a d), yyushu := hi32 (temp_a d),
      div_done := True, iter := 0, status := s_idle\<rparr>"
    using assms by (simp add: div_edge_def div_busy_def)
  show "div_result a b (div_edge y (div_edge x d))" unfolding e div_result_def by (simp add: hi lo)
  show "div_done (div_edge x d) = div_done d" using assms by (simp add: div_edge_def div_busy_def)
qed

lemma div_accept:
  assumes "\<And>n. rst_n (inp n)" "enable (inp 0)" "status d = s_idle" "iter d = 0"
  shows "div_busy (div_a (inp 0)) (div_b (inp 0)) 0 (div_run inp 2 d)"
    "div_done (div_run inp 1 d) = div_done d" "div_done (div_run inp 2 d) = div_done d"
proof -
  let ?a = "div_a (inp 0)"
  have lt: "unat ?a < 2 ^ 32" using unsigned_less [of ?a, where ?'a = nat] by simp
  have "unat (ucast ?a :: u64) = unat ?a"
    using lt by (simp add: unsigned_ucast_eq take_bit_nat_eq_self)
  then show "div_busy ?a (div_b (inp 0)) 0 (div_run inp 2 d)"
    "div_done (div_run inp 1 d) = div_done d" "div_done (div_run inp 2 d) = div_done d"
    using assms div_inv_init [OF lt] by (simp_all add: numeral_2_eq_2 div_edge_def div_busy_def)
qed

text \<open>
  C28: a request accepted by the idle divider is answered after exactly 68 clock edges: the
  quotient register holds \<open>a div b\<close> and the remainder register \<open>a mod b\<close> of the operands sampled
  at the first edge (all ones and \<open>a\<close> when \<open>b\<close> is 0), whatever the inputs do in between, and
  \<open>done\<close> does not change before the last edge. No intermediate shift loses a bit, also for
  divisors above \<open>2 ^ 31\<close>.
\<close>

theorem simple_divider_correct:
  assumes "\<And>n. rst_n (inp n)" "enable (inp 0)" "status d = s_idle" "iter d = 0"
  shows "div_result (div_a (inp 0)) (div_b (inp 0)) (div_run inp 68 d)
     \<and> (\<forall>n < 68. div_done (div_run inp n d) = div_done d)"
proof -
  let ?d = "div_run inp 2 d" and ?i = "\<lambda>k. inp (2 + k)"
  note acc = div_accept [of inp d, OF assms]
  note run = div_busy_run [of ?i, OF assms(1) acc(1) order_refl]
  have split: "div_run inp (2 + n) d = div_run ?i n ?d" for n by (rule clock_run_add)
  have 68: "div_run inp 68 d = div_edge (?i 65) (div_edge (?i 64) (div_run ?i 64 ?d))"
    using split [of 66] by (simp add: numeral_eq_Suc)
  have 67: "div_run inp 67 d = div_edge (?i 64) (div_run ?i 64 ?d)"
    using split [of 65] by (simp add: numeral_eq_Suc)
  have b64: "div_busy (div_a (inp 0)) (div_b (inp 0)) 32 (div_run ?i 64 ?d)"
    and d64: "j \<le> 64 \<Longrightarrow> div_done (div_run ?i j ?d) = div_done d" for j
    using run acc(3) by simp_all
  note fin = div_finish [of _ _ "div_run ?i 64 ?d" "?i 64" "?i 65", OF b64 assms(1) assms(1)]
  have "div_done (div_run inp n d) = div_done d" if "n < 68" for n
  proof (cases "n < 2")
    case True
    then show ?thesis using acc(2) by (auto simp: less_Suc_eq numeral_2_eq_2)
  next
    case False
    then obtain m where m: "n = 2 + m" "m < 66" using \<open>n < 68\<close> le_Suc_ex [of 2 n] by auto
    show ?thesis
    proof (cases "m \<le> 64")
      case True then show ?thesis unfolding m(1) split by (rule d64)
    next
      case False
      then have "n = 67" using m by simp
      then show ?thesis using fin(2) d64 [of 64] by (simp only: 67)
    qed
  qed
  then show ?thesis using fin(1) unfolding 68 by blast
qed

theorem simple_divider_correct_witness:
  "let x = \<lparr>rst_n = True, enable = True, div_a = 4294967295, div_b = 2147483649\<rparr>;
       d = \<lparr>status = s_idle, iter = 0, tempa = 1, tempb = 1, temp_a = 0, temp_b = 0, yshang = 1,
            yyushu = 1, div_done = False\<rparr>
   in yshang (div_run (\<lambda>_. x) 68 d) = 1 \<and> yyushu (div_run (\<lambda>_. x) 68 d) = 2147483646"
  using simple_divider_correct
    [of "\<lambda>_. \<lparr>rst_n = True, enable = True, div_a = 4294967295, div_b = 2147483649\<rparr>"
        "\<lparr>status = s_idle, iter = 0, tempa = 1, tempb = 1, temp_a = 0, temp_b = 0, yshang = 1,
            yyushu = 1, div_done = False\<rparr>"]
  by (simp add: div_result_def)

end
