(* ===== verification/Fpga_Slot.thy ===== *)
theory Fpga_Slot
  imports Tdma_Prelude
begin

text \<open>
  Data of the FPGA middleware (\<open>src/real/axi_tdma_ath9k_middleware_project/src\<close>): the 64-bit
  slot status words that \<open>tdma_control.v\<close> and \<open>desc_processor.v\<close> keep in a dual-port block memory,
  the 14-bit slot entries of an FI packet, and the block memories themselves.

  The sources address the status word by the bit ranges that their \<open>localparam\<close>s name, so it is a
  record with one field per range and the width of that range; bits 0 to 4 and 47 to 63 are never
  read. Arithmetic on a field wraps at its width, as the Verilog assignment to the range does.
\<close>

section \<open>Slot status words\<close>

record hw_slot =
  h_busy :: "2 word"
  h_sid :: u8
  h_c2hop :: u8
  h_c3hop :: "9 word"
  h_psf :: "2 word"
  h_life :: "10 word"
  h_c3hop_n :: bool
  h_locker :: bool
  h_existed :: bool

text \<open>
  The two assignments that occur all over the sources: the slot is taken by this node, and the
  slot is given up and locked until the next frame.
\<close>

definition hw_own :: "u8 \<Rightarrow> 2 word \<Rightarrow> hw_slot \<Rightarrow> hw_slot" where
  "hw_own sid psf t = t\<lparr>h_busy := 2, h_sid := sid, h_psf := psf, h_c2hop := 1, h_c3hop := 1,
     h_c3hop_n := False, h_locker := False\<rparr>"

definition hw_free :: "hw_slot \<Rightarrow> hw_slot" where
  "hw_free t = t\<lparr>h_busy := 0, h_sid := 0, h_psf := 0, h_c2hop := 0, h_c3hop := 0,
     h_c3hop_n := False, h_locker := True\<rparr>"

text \<open>The guard by which a node may use the slot it has chosen\<close>

definition hw_usable :: "u8 \<Rightarrow> hw_slot \<Rightarrow> bool" where
  "hw_usable sid t \<longleftrightarrow> sid = h_sid t \<and> h_busy t = 2 \<or> h_sid t = 0"

text \<open>Well-formed words: a slot is free exactly when it has no occupier.\<close>

definition slot_word_ok :: "hw_slot \<Rightarrow> bool" where
  "slot_word_ok t \<longleftrightarrow> (h_busy t = 0 \<longleftrightarrow> h_sid t = 0)"

section \<open>Slot entries of an FI packet\<close>

type_synonym fi_entry = "14 word"

definition fi_busy :: "fi_entry \<Rightarrow> 2 word" where "fi_busy w = ucast w"
definition fi_sid :: "fi_entry \<Rightarrow> u8" where "fi_sid w = ucast (drop_bit 2 w)"
definition fi_count :: "fi_entry \<Rightarrow> 2 word" where "fi_count w = ucast (drop_bit 10 w)"
definition fi_psf :: "fi_entry \<Rightarrow> 2 word" where "fi_psf w = ucast (drop_bit 12 w)"

text \<open>\<open>w[k] = v\<close>\<close>

definition put_bit :: "nat \<Rightarrow> bool \<Rightarrow> 'a::len word \<Rightarrow> 'a word" where
  "put_bit k v w = (if v then Bit_Operations.set_bit k w else unset_bit k w)"

lemma bit_put_bit: "bit (put_bit k v w) i \<longleftrightarrow> (if i = k \<and> i < LENGTH('a) then v else bit w i)"
  for w :: "'a::len word"
  by (auto simp: put_bit_def bit_simps dest: bit_imp_le_length)

text \<open>The entry that a node sends for a slot: \<open>FI_LOOP_1\<close>; the count saturates at 3.\<close>

definition hw_entry :: "hw_slot \<Rightarrow> fi_entry" where
  "hw_entry t = (ucast (h_busy t) OR push_bit 2 (ucast (h_sid t))
     OR push_bit 10 (ucast (if 3 < h_c2hop t then 3 else ucast (h_c2hop t) :: 2 word))
     OR push_bit 12 (ucast (h_psf t)))"

lemma hw_entry_fields:
  "fi_busy (hw_entry t) = h_busy t" "fi_sid (hw_entry t) = h_sid t" "fi_psf (hw_entry t) = h_psf t"
  "fi_count (hw_entry t) = (if 3 < h_c2hop t then 3 else ucast (h_c2hop t))"
  unfolding hw_entry_def fi_busy_def fi_sid_def fi_count_def fi_psf_def
  by (rule bit_word_eqI; auto simp: bit_simps dest: bit_imp_le_length)+

section \<open>Block memories\<close>

text \<open>
  One port of \<open>blk_mem_64bit_128dept_TD\<close>: synchronous read without an output register, in mode
  \<open>WRITE_FIRST\<close>, always enabled.
\<close>

definition bram_write :: "bool \<Rightarrow> 7 word \<Rightarrow> 'a \<Rightarrow> 'a list \<Rightarrow> 'a list" where
  "bram_write we addr din mem = (if we then mem[unat addr := din] else mem)"

definition bram_read :: "bool \<Rightarrow> 7 word \<Rightarrow> 'a \<Rightarrow> 'a list \<Rightarrow> 'a" where
  "bram_read we addr din mem = (if we then din else mem ! unat addr)"

end
