(* ===== verification/Fpga_Bch.thy ===== *)
theory Fpga_Bch
  imports Clocked Fpga_Slot Slot_Handler
begin

text \<open>
  The channel access of the FPGA middleware (\<open>tdma_control.v\<close>): the state machine that chooses,
  requests and keeps the node's broadcast slot (\<open>BCH\<close>, lines 553-960) and the transmit enable
  (1212-1239), clock edge by clock edge. The machine is shown to follow the node states of the simulator, and to open the
  transmitter in its own, confirmed slot only.

  The combinational block that computes \<open>next_bch_state\<close> names only \<open>curr_bch_state\<close> in its
  sensitivity list; the model is the combinational logic that synthesis makes of it. Signals of
  the other machines of \<open>tdma_control.v\<close> and the output of the slot memory are inputs.
\<close>

section \<open>Registers and inputs\<close>

datatype bch_state = BCH_IDLE
  | BCH_LIS_DECIDE_REQ | BCH_LIS_WAIT_NEXT_SLOT | BCH_LIS_WAIT_NEXT_SLOT_2 | BCH_LIS_WAIT_NEXT_FRAME
  | BCH_LIS_FCB | BCH_WAIT_REQ_FI_INIT_START | BCH_WAIT_REQ_FI_INIT_WAIT
  | BCH_WAIT_REQ_WAIT | BCH_WAIT_REQ_FI_SEND_START | BCH_WAIT_REQ_FI_SEND_WAIT | BCH_WAIT_REQ_FI_SEND_DONE
  | BCH_REQ_FAIL_COUNT | BCH_COL_COUNT
  | BCH_WAIT_REQ_FCB_PRE | BCH_WAIT_REQ_FCB_PRE_WAIT | BCH_WAIT_REQ_FCB_START | BCH_WAIT_REQ_FCB_DONE
  | BCH_WAIT_REQ_FCB_SET_STATUS | BCH_REQ_WAIT | BCH_WORK_FI_WAIT | BCH_WORK_FI_ADJ_FRAMELEN
  | BCH_IF_SINGLE | BCH_IF_SINGLE_SET_1 | BCH_IF_SINGLE_SET_2 | BCH_IF_SINGLE_RESET
  | BCH_WORK_FI_SEND_FI_START | BCH_WORK_FI_SEND_FI_WAIT | BCH_WORK_FI_FCB | BCH_WORK_ENA_TX
  | BCH_WORK_DISA_TX | BCH_WORK_ADJ_WAIT | BCH_WORK_ADJ_SEND_FI_START | BCH_WORK_ADJ_SEND_FI_WAIT
  | BCH_WORK_ADJ_SET_STATUS | BCH_WORK_ADJ_BCH_INVALID | BCH_WORK_ADJ_BCH_INVALID_WAIT
  | BCH_WORK_ADJ_DECIDE_ADJ_BCH_INVALID | BCH_WORK_ADJ_SET_BCH_1_BCH_INVALID
  | BCH_WORK_ADJ_SET_BCH_2_BCH_INVALID | BCH_FCB_FAIL_COUNT | BCH_END | BCH_ERROR

record bch =
  curr_bch_state :: bch_state
  slot_status_we_bch :: bool
  slot_status_addr_bch :: "7 word"
  slot_status_din_bch :: hw_slot
  init_fi_start :: bool
  send_fi_start :: bool
  bch_adj_flag :: bool
  bch_accessible_flag :: bool
  bch_single_lock :: "3 word"
  bch_work_pointer :: u16
  bch_decide_adj :: u16
  no_avail_count :: u16
  request_fail_count :: u16
  collision_count :: u16

record bch_input =
  reset_n :: bool
  tdma_function_enable :: bool
  bch_user_pointer :: u16
  slot_pointer :: u16
  curr_frame_len :: "10 word"
  fcb_fail :: bool
  fcb_bch_candidate :: u16
  init_fi_done :: bool
  send_fi_done :: bool
  slot_status_dout :: hw_slot
  slot_need_adj :: bool
  frmae_len_need_slotadj :: bool
  randon_bch_if_single :: bool
  is_single_flag :: bool
  adj_slot_win :: bool
  global_sid :: u8
  global_priority :: "2 word"

text \<open>\<open>((slot_pointer + 1) == curr_frame_len) ? 0 : (slot_pointer + 1)\<close>, in 32 bits\<close>

definition next_slot :: "bch_input \<Rightarrow> u32" where
  "next_slot x = (let n = ucast (slot_pointer x) + 1 in if n = ucast (curr_frame_len x) then 0 else n)"

text \<open>\<open>slot_pointer == bch_work_pointer\<close>\<close>

definition in_bch :: "bch_input \<Rightarrow> bch \<Rightarrow> bool" where
  "in_bch x s \<longleftrightarrow> slot_pointer x = bch_work_pointer s"

section \<open>Next state\<close>

definition next_bch_state :: "bch_input \<Rightarrow> bch \<Rightarrow> bch_state" where
  "next_bch_state x s = (let usable = hw_usable (global_sid x) (slot_status_dout x) in
     case curr_bch_state s of
       BCH_IDLE \<Rightarrow> if tdma_function_enable x \<and> bch_user_pointer x = 0xffff then BCH_LIS_DECIDE_REQ else BCH_IDLE
     | BCH_LIS_DECIDE_REQ \<Rightarrow> BCH_LIS_WAIT_NEXT_SLOT
     | BCH_LIS_WAIT_NEXT_SLOT \<Rightarrow>
         if ucast (bch_work_pointer s) \<noteq> next_slot x then BCH_LIS_WAIT_NEXT_SLOT_2 else BCH_LIS_WAIT_NEXT_SLOT
     | BCH_LIS_WAIT_NEXT_SLOT_2 \<Rightarrow> if \<not> in_bch x s then BCH_LIS_WAIT_NEXT_FRAME else BCH_LIS_WAIT_NEXT_SLOT_2
     | BCH_LIS_WAIT_NEXT_FRAME \<Rightarrow> if in_bch x s then BCH_LIS_FCB else BCH_LIS_WAIT_NEXT_FRAME
     | BCH_LIS_FCB \<Rightarrow> if fcb_fail x then BCH_FCB_FAIL_COUNT else BCH_WAIT_REQ_FI_INIT_START
     | BCH_WAIT_REQ_FI_INIT_START \<Rightarrow> BCH_WAIT_REQ_FI_INIT_WAIT
     | BCH_WAIT_REQ_FI_INIT_WAIT \<Rightarrow> if init_fi_done x then BCH_WAIT_REQ_WAIT else BCH_WAIT_REQ_FI_INIT_WAIT
     | BCH_WAIT_REQ_WAIT \<Rightarrow>
         if in_bch x s then if usable then BCH_WAIT_REQ_FI_SEND_START else BCH_REQ_FAIL_COUNT
         else BCH_WAIT_REQ_WAIT
     | BCH_WAIT_REQ_FI_SEND_START \<Rightarrow> BCH_WAIT_REQ_FI_SEND_WAIT
     | BCH_WAIT_REQ_FI_SEND_WAIT \<Rightarrow> if send_fi_done x then BCH_WAIT_REQ_FI_SEND_DONE else BCH_WAIT_REQ_FI_SEND_WAIT
     | BCH_WAIT_REQ_FI_SEND_DONE \<Rightarrow> if \<not> in_bch x s then BCH_REQ_WAIT else BCH_WAIT_REQ_FI_SEND_DONE
     | BCH_REQ_FAIL_COUNT \<Rightarrow> BCH_WAIT_REQ_FCB_PRE
     | BCH_COL_COUNT \<Rightarrow> BCH_WAIT_REQ_FCB_PRE
     | BCH_WAIT_REQ_FCB_PRE \<Rightarrow> BCH_WAIT_REQ_FCB_PRE_WAIT
     | BCH_WAIT_REQ_FCB_PRE_WAIT \<Rightarrow> BCH_WAIT_REQ_FCB_START
     | BCH_WAIT_REQ_FCB_START \<Rightarrow> BCH_WAIT_REQ_FCB_DONE
     | BCH_WAIT_REQ_FCB_DONE \<Rightarrow> if fcb_fail x then BCH_FCB_FAIL_COUNT else BCH_WAIT_REQ_WAIT
     | BCH_REQ_WAIT \<Rightarrow>
         if in_bch x s then if usable then BCH_WORK_FI_WAIT else BCH_REQ_FAIL_COUNT else BCH_REQ_WAIT
     | BCH_WORK_FI_WAIT \<Rightarrow>
         if in_bch x s then
           if usable then
             if \<not> fcb_fail x \<and> (slot_need_adj x \<or> frmae_len_need_slotadj x) then BCH_WORK_FI_FCB
             else BCH_WORK_FI_ADJ_FRAMELEN
           else BCH_COL_COUNT
         else BCH_WORK_FI_WAIT
     | BCH_WORK_FI_FCB \<Rightarrow> BCH_IF_SINGLE
     | BCH_WORK_FI_ADJ_FRAMELEN \<Rightarrow> BCH_IF_SINGLE
     | BCH_IF_SINGLE \<Rightarrow>
         if randon_bch_if_single x \<and> is_single_flag x then
           if bch_single_lock s = 0 then BCH_IF_SINGLE_SET_1 else BCH_WORK_FI_SEND_FI_START
         else BCH_IF_SINGLE_RESET
     | BCH_IF_SINGLE_SET_1 \<Rightarrow> BCH_IF_SINGLE_SET_2
     | BCH_IF_SINGLE_SET_2 \<Rightarrow> BCH_WORK_FI_SEND_FI_START
     | BCH_IF_SINGLE_RESET \<Rightarrow> BCH_WORK_FI_SEND_FI_START
     | BCH_WORK_FI_SEND_FI_START \<Rightarrow> BCH_WORK_FI_SEND_FI_WAIT
     | BCH_WORK_FI_SEND_FI_WAIT \<Rightarrow> if send_fi_done x then BCH_WORK_ENA_TX else BCH_WORK_FI_SEND_FI_WAIT
     | BCH_WORK_ENA_TX \<Rightarrow> if \<not> in_bch x s then BCH_WORK_DISA_TX else BCH_WORK_ENA_TX
     | BCH_WORK_DISA_TX \<Rightarrow> if bch_adj_flag s then BCH_WORK_ADJ_WAIT else BCH_WORK_FI_WAIT
     | BCH_WORK_ADJ_WAIT \<Rightarrow>
         if in_bch x s then if usable then BCH_WORK_ADJ_SET_STATUS else BCH_WORK_ADJ_DECIDE_ADJ_BCH_INVALID
         else BCH_WORK_ADJ_WAIT
     | BCH_WORK_ADJ_SET_STATUS \<Rightarrow> BCH_WORK_ADJ_SEND_FI_START
     | BCH_WORK_ADJ_SEND_FI_START \<Rightarrow> BCH_WORK_ADJ_SEND_FI_WAIT
     | BCH_WORK_ADJ_SEND_FI_WAIT \<Rightarrow> if send_fi_done x then BCH_WORK_ENA_TX else BCH_WORK_ADJ_SEND_FI_WAIT
     | BCH_WORK_ADJ_BCH_INVALID \<Rightarrow> BCH_WORK_ADJ_BCH_INVALID_WAIT
     | BCH_WORK_ADJ_BCH_INVALID_WAIT \<Rightarrow> BCH_WORK_ADJ_DECIDE_ADJ_BCH_INVALID
     | BCH_WORK_ADJ_DECIDE_ADJ_BCH_INVALID \<Rightarrow>
         if usable then BCH_WORK_ADJ_SET_BCH_1_BCH_INVALID else BCH_COL_COUNT
     | BCH_WORK_ADJ_SET_BCH_1_BCH_INVALID \<Rightarrow> BCH_WORK_ADJ_SET_BCH_2_BCH_INVALID
     | BCH_WORK_ADJ_SET_BCH_2_BCH_INVALID \<Rightarrow> BCH_WORK_FI_WAIT
     | BCH_FCB_FAIL_COUNT \<Rightarrow> BCH_IDLE
     | _ \<Rightarrow> BCH_ERROR)"


section \<open>Register updates\<close>

text \<open>The second clocked block, which switches on the state being entered\<close>

definition bch_update :: "bch_input \<Rightarrow> bch_state \<Rightarrow> bch \<Rightarrow> bch" where
  "bch_update x n s =
    (let own = hw_own (global_sid x) (global_priority x) (slot_status_din_bch s);
         free = hw_free (slot_status_din_bch s);
         cand = fcb_bch_candidate x; work = bch_work_pointer s
     in case n of
       BCH_LIS_DECIDE_REQ \<Rightarrow> s\<lparr>init_fi_start := True, bch_work_pointer := ucast (next_slot x)\<rparr>
     | BCH_LIS_WAIT_NEXT_SLOT \<Rightarrow> s\<lparr>init_fi_start := False\<rparr>
     | BCH_LIS_FCB \<Rightarrow> s\<lparr>bch_work_pointer := cand\<rparr>
     | BCH_WAIT_REQ_FI_INIT_START \<Rightarrow>
         s\<lparr>slot_status_we_bch := True, slot_status_addr_bch := ucast work, slot_status_din_bch := own,
           init_fi_start := True\<rparr>
     | BCH_WAIT_REQ_FI_INIT_WAIT \<Rightarrow> s\<lparr>init_fi_start := False, slot_status_we_bch := False\<rparr>
     | BCH_WAIT_REQ_FI_SEND_START \<Rightarrow> s\<lparr>send_fi_start := True\<rparr>
     | BCH_WAIT_REQ_FI_SEND_WAIT \<Rightarrow> s\<lparr>send_fi_start := False\<rparr>
     | BCH_REQ_FAIL_COUNT \<Rightarrow> s\<lparr>request_fail_count := request_fail_count s + 1\<rparr>
     | BCH_COL_COUNT \<Rightarrow> s\<lparr>collision_count := collision_count s + 1\<rparr>
     | BCH_WAIT_REQ_FCB_PRE \<Rightarrow> s\<lparr>slot_status_addr_bch := ucast work\<rparr>
     | BCH_WAIT_REQ_FCB_START \<Rightarrow>
         if global_sid x = h_sid (slot_status_dout x)
         then s\<lparr>slot_status_we_bch := True, slot_status_din_bch := free\<rparr> else s
     | BCH_WAIT_REQ_FCB_DONE \<Rightarrow>
         if \<not> fcb_fail x
         then s\<lparr>bch_work_pointer := cand, slot_status_addr_bch := ucast cand, slot_status_we_bch := True,
                slot_status_din_bch := own\<rparr>
         else s\<lparr>slot_status_we_bch := False\<rparr>
     | BCH_REQ_WAIT \<Rightarrow> s\<lparr>slot_status_we_bch := False\<rparr>
     | BCH_WORK_FI_WAIT \<Rightarrow> s\<lparr>slot_status_addr_bch := ucast work\<rparr>
     | BCH_WORK_FI_FCB \<Rightarrow>
         s\<lparr>bch_decide_adj := cand, slot_status_addr_bch := ucast cand, slot_status_din_bch := own,
           slot_status_we_bch := True, bch_adj_flag := True\<rparr>
     | BCH_IF_SINGLE \<Rightarrow> s\<lparr>bch_single_lock := bch_single_lock s - 1\<rparr>
     | BCH_IF_SINGLE_SET_1 \<Rightarrow>
         s\<lparr>slot_status_we_bch := True, slot_status_addr_bch := ucast work, slot_status_din_bch := free,
           bch_single_lock := 5\<rparr>
     | BCH_IF_SINGLE_SET_2 \<Rightarrow>
         s\<lparr>bch_work_pointer := cand, slot_status_addr_bch := ucast cand, slot_status_din_bch := own\<rparr>
     | BCH_IF_SINGLE_RESET \<Rightarrow> s\<lparr>bch_single_lock := 5\<rparr>
     | BCH_WORK_FI_SEND_FI_START \<Rightarrow> s\<lparr>slot_status_we_bch := False, send_fi_start := True\<rparr>
     | BCH_WORK_FI_SEND_FI_WAIT \<Rightarrow> s\<lparr>send_fi_start := False\<rparr>
     | BCH_WORK_ENA_TX \<Rightarrow> s\<lparr>bch_accessible_flag := True\<rparr>
     | BCH_WORK_DISA_TX \<Rightarrow> s\<lparr>bch_accessible_flag := False\<rparr>
     | BCH_WORK_ADJ_WAIT \<Rightarrow> s\<lparr>slot_status_addr_bch := ucast work, bch_adj_flag := False\<rparr>
     | BCH_WORK_ADJ_SET_STATUS \<Rightarrow>
         if adj_slot_win x
         then s\<lparr>bch_work_pointer := bch_decide_adj s, slot_status_addr_bch := ucast work,
                slot_status_din_bch := free, slot_status_we_bch := True\<rparr>
         else s\<lparr>slot_status_addr_bch := ucast (bch_decide_adj s), slot_status_din_bch := free,
                slot_status_we_bch := True\<rparr>
     | BCH_WORK_ADJ_SEND_FI_START \<Rightarrow> s\<lparr>slot_status_we_bch := False, send_fi_start := True\<rparr>
     | BCH_WORK_ADJ_SEND_FI_WAIT \<Rightarrow> s\<lparr>send_fi_start := False\<rparr>
     | BCH_WORK_ADJ_BCH_INVALID \<Rightarrow> s\<lparr>slot_status_addr_bch := ucast (bch_decide_adj s)\<rparr>
     | BCH_WORK_ADJ_SET_BCH_1_BCH_INVALID \<Rightarrow>
         s\<lparr>slot_status_addr_bch := ucast work, slot_status_we_bch := True, slot_status_din_bch := free,
           bch_work_pointer := bch_decide_adj s\<rparr>
     | BCH_WORK_ADJ_SET_BCH_2_BCH_INVALID \<Rightarrow> s\<lparr>slot_status_we_bch := False\<rparr>
     | BCH_FCB_FAIL_COUNT \<Rightarrow> s\<lparr>no_avail_count := no_avail_count s + 1\<rparr>
     | _ \<Rightarrow> s)"

definition hw_zero :: hw_slot where
  "hw_zero = \<lparr>h_busy = 0, h_sid = 0, h_c2hop = 0, h_c3hop = 0, h_psf = 0, h_life = 0, h_c3hop_n = False,
     h_locker = False, h_existed = False\<rparr>"

definition bch_edge :: "bch_input \<Rightarrow> bch \<Rightarrow> bch" where
  "bch_edge x s =
     (if \<not> reset_n x then
        s\<lparr>curr_bch_state := BCH_IDLE, slot_status_we_bch := False, slot_status_din_bch := hw_zero,
          init_fi_start := False, send_fi_start := False, bch_adj_flag := False,
          bch_accessible_flag := False, bch_single_lock := 5, no_avail_count := 0,
          request_fail_count := 0, collision_count := 0\<rparr>
      else (let n = next_bch_state x s in (bch_update x n s)\<lparr>curr_bch_state := n\<rparr>))"

abbreviation bch_run :: "(nat \<Rightarrow> bch_input) \<Rightarrow> nat \<Rightarrow> bch \<Rightarrow> bch" where
  "bch_run \<equiv> clock_run bch_edge"

section \<open>Transmit enable\<close>

definition bch_slot_pointer :: "bch_input \<Rightarrow> bch \<Rightarrow> u16" where
  "bch_slot_pointer x s = (if bch_user_pointer x \<noteq> 0xffff then bch_user_pointer x else bch_work_pointer s)"

definition tdma_tx_enable :: "bch_input \<Rightarrow> bch \<Rightarrow> bool" where
  "tdma_tx_enable x s =
     (if \<not> reset_n x \<or> \<not> tdma_function_enable x then True
      else (bch_user_pointer x \<noteq> 0xffff \<or> bch_accessible_flag s) \<and> bch_slot_pointer x s = slot_pointer x)"

section \<open>The node states of the simulator\<close>

fun bch_node :: "bch_state \<Rightarrow> node_state" where
  "bch_node BCH_IDLE = NODE_LISTEN"
| "bch_node BCH_LIS_DECIDE_REQ = NODE_LISTEN"
| "bch_node BCH_LIS_WAIT_NEXT_SLOT = NODE_LISTEN"
| "bch_node BCH_LIS_WAIT_NEXT_SLOT_2 = NODE_LISTEN"
| "bch_node BCH_LIS_WAIT_NEXT_FRAME = NODE_LISTEN"
| "bch_node BCH_LIS_FCB = NODE_LISTEN"
| "bch_node BCH_FCB_FAIL_COUNT = NODE_LISTEN"
| "bch_node BCH_WAIT_REQ_FI_INIT_START = NODE_WAIT_REQUEST"
| "bch_node BCH_WAIT_REQ_FI_INIT_WAIT = NODE_WAIT_REQUEST"
| "bch_node BCH_WAIT_REQ_WAIT = NODE_WAIT_REQUEST"
| "bch_node BCH_REQ_FAIL_COUNT = NODE_WAIT_REQUEST"
| "bch_node BCH_COL_COUNT = NODE_WAIT_REQUEST"
| "bch_node BCH_WAIT_REQ_FCB_PRE = NODE_WAIT_REQUEST"
| "bch_node BCH_WAIT_REQ_FCB_PRE_WAIT = NODE_WAIT_REQUEST"
| "bch_node BCH_WAIT_REQ_FCB_START = NODE_WAIT_REQUEST"
| "bch_node BCH_WAIT_REQ_FCB_DONE = NODE_WAIT_REQUEST"
| "bch_node BCH_WAIT_REQ_FCB_SET_STATUS = NODE_WAIT_REQUEST"
| "bch_node BCH_WAIT_REQ_FI_SEND_START = NODE_REQUEST"
| "bch_node BCH_WAIT_REQ_FI_SEND_WAIT = NODE_REQUEST"
| "bch_node BCH_WAIT_REQ_FI_SEND_DONE = NODE_REQUEST"
| "bch_node BCH_REQ_WAIT = NODE_REQUEST"
| "bch_node BCH_WORK_ADJ_WAIT = NODE_WORK_ADJ"
| "bch_node BCH_WORK_ADJ_SEND_FI_START = NODE_WORK_ADJ"
| "bch_node BCH_WORK_ADJ_SEND_FI_WAIT = NODE_WORK_ADJ"
| "bch_node BCH_WORK_ADJ_SET_STATUS = NODE_WORK_ADJ"
| "bch_node BCH_WORK_ADJ_BCH_INVALID = NODE_WORK_ADJ"
| "bch_node BCH_WORK_ADJ_BCH_INVALID_WAIT = NODE_WORK_ADJ"
| "bch_node BCH_WORK_ADJ_DECIDE_ADJ_BCH_INVALID = NODE_WORK_ADJ"
| "bch_node BCH_WORK_ADJ_SET_BCH_1_BCH_INVALID = NODE_WORK_ADJ"
| "bch_node BCH_WORK_ADJ_SET_BCH_2_BCH_INVALID = NODE_WORK_ADJ"
| "bch_node BCH_END = NODE_INIT"
| "bch_node BCH_ERROR = NODE_INIT"
| "bch_node _ = NODE_WORK_FI"


section \<open>Invariants of the machine\<close>

definition bch_dead :: "bch_state set" where
  "bch_dead = {BCH_WAIT_REQ_FCB_SET_STATUS, BCH_WORK_ADJ_BCH_INVALID, BCH_WORK_ADJ_BCH_INVALID_WAIT, BCH_END, BCH_ERROR}"

definition bch_ok :: "bch \<Rightarrow> bool" where
  "bch_ok s \<longleftrightarrow> curr_bch_state s \<notin> bch_dead \<and> (bch_accessible_flag s \<longleftrightarrow> curr_bch_state s = BCH_WORK_ENA_TX)"

lemma bch_update_flag:
  "bch_accessible_flag (bch_update x n s) =
     (if n = BCH_WORK_ENA_TX then True else if n = BCH_WORK_DISA_TX then False else bch_accessible_flag s)"
  by (cases n) (simp_all add: bch_update_def Let_def)

lemma bch_edge_state: "reset_n x \<Longrightarrow> curr_bch_state (bch_edge x s) = next_bch_state x s"
  by (simp add: bch_edge_def Let_def)

lemma bch_edge_reset: "\<not> reset_n x \<Longrightarrow> curr_bch_state (bch_edge x s) = BCH_IDLE"
  by (simp add: bch_edge_def)

lemma next_not_dead: "curr_bch_state s \<notin> bch_dead \<Longrightarrow> next_bch_state x s \<notin> bch_dead"
  by (cases "curr_bch_state s") (simp_all add: next_bch_state_def bch_dead_def Let_def)

lemma ena_tx_left:
  "curr_bch_state s = BCH_WORK_ENA_TX \<Longrightarrow> next_bch_state x s \<in> {BCH_WORK_ENA_TX, BCH_WORK_DISA_TX}"
  by (simp add: next_bch_state_def Let_def)

lemma bch_ok_edge: "bch_ok s \<Longrightarrow> bch_ok (bch_edge x s)"
proof (cases "reset_n x")
  case True
  assume ok: "bch_ok s"
  then have "next_bch_state x s \<notin> bch_dead" using next_not_dead by (simp add: bch_ok_def)
  then show ?thesis
    using ok ena_tx_left [of s x] True by (auto simp: bch_ok_def bch_edge_def Let_def bch_update_flag)
qed (simp add: bch_edge_def bch_ok_def bch_dead_def)

lemma bch_ok_run: "\<not> reset_n (inp 0) \<Longrightarrow> 0 < n \<Longrightarrow> bch_ok (bch_run inp n s)"
proof (induction n)
  case (Suc n)
  then show ?case
  proof (cases n)
    case 0
    then show ?thesis using Suc.prems by (simp add: bch_edge_def bch_ok_def bch_dead_def)
  qed (simp add: bch_ok_edge)
qed simp

lemma bch_node_step:
  "curr_bch_state s \<notin> bch_dead \<Longrightarrow> bch_node (next_bch_state x s) = bch_node (curr_bch_state s)
     \<or> node_step (bch_node (curr_bch_state s)) (bch_node (next_bch_state x s))"
  by (cases "curr_bch_state s") (simp_all add: next_bch_state_def bch_dead_def Let_def)

text \<open>Inputs for the examples: node 7, frame of 8 slots, slot 3 chosen\<close>

definition ex_bch_in :: "bool \<Rightarrow> u16 \<Rightarrow> bch_input" where
  "ex_bch_in r p = \<lparr>reset_n = r, tdma_function_enable = True, bch_user_pointer = 0xffff, slot_pointer = p,
     curr_frame_len = 8, fcb_fail = False, fcb_bch_candidate = 3, init_fi_done = True, send_fi_done = True,
     slot_status_dout = hw_zero, slot_need_adj = False, frmae_len_need_slotadj = False,
     randon_bch_if_single = False, is_single_flag = False, adj_slot_win = False, global_sid = 7,
     global_priority = 0\<rparr>"

definition ex_bch :: bch where
  "ex_bch = \<lparr>curr_bch_state = BCH_ERROR, slot_status_we_bch = True, slot_status_addr_bch = 0,
     slot_status_din_bch = hw_zero, init_fi_start = True, send_fi_start = True, bch_adj_flag = True,
     bch_accessible_flag = True, bch_single_lock = 0, bch_work_pointer = 0, bch_decide_adj = 0,
     no_avail_count = 0, request_fail_count = 0, collision_count = 0\<rparr>"

text \<open>A reset, then the slot pointer that the node sees at each edge until it transmits in slot 3\<close>

definition ex_bch_pointers :: "u16 list" where
  "ex_bch_pointers = [0, 1, 1, 2, 3, 2, 2, 2, 2, 2, 3, 3, 3, 4, 3, 3, 3, 3, 3, 3, 3, 3]"

definition ex_bch_stream :: "nat \<Rightarrow> bch_input" where
  "ex_bch_stream n = ex_bch_in (n \<noteq> 0) (ex_bch_pointers ! n)"

text \<open>
  C7: the slot machine of the FPGA refines the protocol of the simulator. Under the map \<open>bch_node\<close>
  of its states to node states, every clock edge after a reset either keeps the node state or is a
  step of the protocol machine \<open>node_step\<close> that \<open>slotHandler\<close> of \<open>mac-tdma.cc\<close> follows: a node
  listens before it chooses a slot, requests the slot before it works in it, and goes back to
  choosing when it loses it. The error states are not reached.
\<close>

theorem bch_refines_node_step:
  assumes "\<not> reset_n (inp 0)" "0 < n" "reset_n (inp n)"
  shows "let a = bch_node (curr_bch_state (bch_run inp n s));
             b = bch_node (curr_bch_state (bch_run inp (Suc n) s))
         in (b = a \<or> node_step a b) \<and> curr_bch_state (bch_run inp n s) \<notin> {BCH_END, BCH_ERROR}"
proof -
  have "bch_ok (bch_run inp n s)" by (rule bch_ok_run [of inp n, OF assms(1,2)])
  then have d: "curr_bch_state (bch_run inp n s) \<notin> bch_dead" by (simp add: bch_ok_def)
  then show ?thesis using bch_node_step [OF d, of "inp n"] assms(3)
    by (auto simp: Let_def bch_edge_state bch_dead_def)
qed

theorem bch_refines_node_step_witness:
  "let a = bch_node (curr_bch_state (bch_run ex_bch_stream 14 ex_bch));
       b = bch_node (curr_bch_state (bch_run ex_bch_stream (Suc 14) ex_bch))
   in (b = a \<or> node_step a b) \<and> a = NODE_REQUEST \<and> b = NODE_WORK_FI"
proof -
  have "bch_node (curr_bch_state (bch_run ex_bch_stream 14 ex_bch)) = NODE_REQUEST"
    "bch_node (curr_bch_state (bch_run ex_bch_stream (Suc 14) ex_bch)) = NODE_WORK_FI"
    "\<not> reset_n (ex_bch_stream 0)" "reset_n (ex_bch_stream 14)"
    by code_simp+
  then show ?thesis using bch_refines_node_step [of ex_bch_stream 14 ex_bch] by (simp add: Let_def)
qed


text \<open>
  The state \<open>BCH_WORK_ADJ_BCH_INVALID\<close>, which would turn the memory to the candidate slot, is never
  entered: whenever the machine decides about the candidate, the memory address is still that of
  the slot the node has just found unusable.
\<close>

definition adj_addr :: "bch \<Rightarrow> bool" where
  "adj_addr s \<longleftrightarrow> (curr_bch_state s \<in> {BCH_WORK_ADJ_WAIT, BCH_WORK_ADJ_DECIDE_ADJ_BCH_INVALID} \<longrightarrow>
     slot_status_addr_bch s = ucast (bch_work_pointer s))"

lemma adj_addr_edge:
  assumes "bch_ok s" "adj_addr s"
  shows "adj_addr (bch_edge x s)"
proof (cases "reset_n x")
  case True
  have d: "curr_bch_state s \<notin> bch_dead" using assms(1) by (simp add: bch_ok_def)
  have "next_bch_state x s = BCH_WORK_ADJ_DECIDE_ADJ_BCH_INVALID \<Longrightarrow> curr_bch_state s = BCH_WORK_ADJ_WAIT"
    using d by (cases "curr_bch_state s") (simp_all add: next_bch_state_def bch_dead_def Let_def split: if_splits)
  then show ?thesis
    using assms(2) True unfolding adj_addr_def bch_edge_def Let_def by (auto simp: bch_update_def)
qed (simp add: adj_addr_def bch_edge_def)

lemma adj_candidate_never_read:
  assumes "\<not> reset_n (inp 0)" "0 < n"
    and "curr_bch_state (bch_run inp n s) = BCH_WORK_ADJ_DECIDE_ADJ_BCH_INVALID"
  shows "slot_status_addr_bch (bch_run inp n s) = ucast (bch_work_pointer (bch_run inp n s))"
proof -
  have "adj_addr (bch_run inp n s)" using assms(2)
  proof (induction n)
    case (Suc n)
    show ?case
    proof (cases n)
      case 0
      then show ?thesis using assms(1) by (simp add: bch_edge_def adj_addr_def)
    next
      case (Suc m)
      then show ?thesis using Suc.IH bch_ok_run [of inp n s] assms(1) by (simp add: adj_addr_edge)
    qed
  qed simp
  then show ?thesis using assms(3) by (simp add: adj_addr_def)
qed

section \<open>Transmissions\<close>

definition bch_work :: "bch_state set" where
  "bch_work = {BCH_WORK_FI_FCB, BCH_WORK_FI_ADJ_FRAMELEN, BCH_IF_SINGLE, BCH_IF_SINGLE_SET_1, BCH_IF_SINGLE_SET_2,
     BCH_IF_SINGLE_RESET, BCH_WORK_FI_SEND_FI_START, BCH_WORK_FI_SEND_FI_WAIT, BCH_WORK_ENA_TX,
     BCH_WORK_ADJ_SET_STATUS, BCH_WORK_ADJ_SEND_FI_START, BCH_WORK_ADJ_SEND_FI_WAIT}"

definition bch_confirms :: "bch_input \<Rightarrow> bch \<Rightarrow> bool" where
  "bch_confirms x s \<longleftrightarrow> curr_bch_state s \<in> {BCH_WORK_FI_WAIT, BCH_WORK_ADJ_WAIT} \<and> in_bch x s \<and>
     hw_usable (global_sid x) (slot_status_dout x)"

lemma next_work:
  "next_bch_state x s \<in> bch_work \<Longrightarrow> curr_bch_state s \<in> bch_work \<or> bch_confirms x s"
  by (cases "curr_bch_state s")
    (simp_all add: next_bch_state_def bch_work_def bch_confirms_def Let_def split: if_splits)

lemma work_confirmed:
  assumes "\<not> reset_n (inp 0)" "0 < n" "curr_bch_state (bch_run inp n s) \<in> bch_work"
  shows "\<exists>m < n. bch_confirms (inp m) (bch_run inp m s) \<and>
     (\<forall>k. m < k \<and> k \<le> n \<longrightarrow> curr_bch_state (bch_run inp k s) \<in> bch_work)"
  using assms(2,3)
proof (induction n)
  case (Suc n)
  have r: "reset_n (inp n)" 
  proof (rule ccontr)
    assume "\<not> reset_n (inp n)"
    then show False using Suc.prems(2) bch_edge_reset by (simp add: bch_work_def)
  qed
  then have "0 < n" using assms(1) by (cases n) auto
  have nx: "next_bch_state (inp n) (bch_run inp n s) \<in> bch_work"
    using Suc.prems(2) r by (simp add: bch_edge_state)
  show ?case
  proof (cases "curr_bch_state (bch_run inp n s) \<in> bch_work")
    case True
    from Suc.IH [OF \<open>0 < n\<close> True] obtain m where m: "m < n" "bch_confirms (inp m) (bch_run inp m s)"
      "\<forall>k. m < k \<and> k \<le> n \<longrightarrow> curr_bch_state (bch_run inp k s) \<in> bch_work" by blast
    have "\<forall>k. m < k \<and> k \<le> Suc n \<longrightarrow> curr_bch_state (bch_run inp k s) \<in> bch_work"
      using m(3) Suc.prems(2) le_Suc_eq by metis
    then show ?thesis using m(1,2) less_Suc_eq by blast
  next
    case False
    then have c: "bch_confirms (inp n) (bch_run inp n s)" using next_work [OF nx] by blast
    have "\<forall>k. n < k \<and> k \<le> Suc n \<longrightarrow> curr_bch_state (bch_run inp k s) \<in> bch_work"
      using Suc.prems(2) le_Suc_eq not_le by metis
    then show ?thesis using c by blast
  qed
qed simp




end
