(* ===== verification/Fpga_Merge.thy ===== *)
theory Fpga_Merge
  imports Clocked Fpga_Slot
begin

text \<open>
  The receive path of the FPGA middleware: how \<open>desc_processor.v\<close> merges a received FI packet into
  the slot status memory. Three state machines of that file, clock edge by clock edge: the new
  neighbour check (\<open>INB\<close>, lines 676-724), the slot table updater (\<open>STU\<close>, lines 730-1187) and the
  address multiplexer of the packet memory (lines 662-672), together with the two block memories
  they read.

  The debug register \<open>stu_type\<close> is written and never read; it is left out. The other port of the
  slot memory belongs to \<open>tdma_control.v\<close>, which is taken not to write during an update.
\<close>

section \<open>Registers\<close>

datatype inb_state = INB_IDLE | INB_PRE | INB_LOOP | INB_LOOP_SETADDR | INB_LOOP_SETADDR_WAIT | INB_END

datatype stu_state = STU_IDLE | STU_DISPATCH_WAIT | STU_DISPATCH
  | STU_FI_LOOP_1_PRE | STU_FI_LOOP_1 | STU_FI_LOOP_1_SETADDR_PRE | STU_FI_LOOP_1_SETADDR
  | STU_FI_LOOP_2 | STU_FI_LOOP_2_CLR
  | STU_FI_LOOP_3_PRE | STU_FI_LOOP_3 | STU_FI_LOOP_3_SETADDR_PRE | STU_FI_LOOP_3_SETADDR
  | STU_FI_LOOP_4 | STU_FI_LOOP_4_CLR
  | STU_FI_INB_WAIT | STU_LOOP_BCH_END | STU_END | STU_ERROR

record dproc =
  slot_mem :: "hw_slot list"
  slot_dout :: hw_slot
  slot_addr :: "7 word"
  slot_din :: hw_slot
  slot_we :: bool
  pkt_mem :: "u32 list"
  pkt_dout :: u32
  inb_st :: inb_state
  inb_done :: bool
  inb_not_newneighbor_flag :: bool
  inb_input_sti :: u8
  en_inb :: bool
  addrb_inb :: "9 word"
  stu_st :: stu_state
  stu_done :: bool
  bit_index :: "7 word"
  stu_index :: "11 word"
  fi_per_slot :: fi_entry
  fi_per_slot_index :: "5 word"
  stu_sender_sid :: u8
  stu_fi_frame_len :: "9 word"
  en_stu :: bool
  addrb_stu :: "9 word"
  inb_start :: bool
  frame_len_exp_dp :: bool
  fi_recv_count :: u32

record dp_input =
  reset_n :: bool
  stu_start :: bool
  global_sid :: u8
  curr_frame_len :: "10 word"
  addrb_irq :: "9 word"

abbreviation RX_TYPE_ADDR :: "9 word" where "RX_TYPE_ADDR \<equiv> 20"
abbreviation OCCUPIER_LIFE_FRAME :: "10 word" where "OCCUPIER_LIFE_FRAME \<equiv> 3"

section \<open>Merging one slot\<close>

text \<open>
  What the state \<open>STU_FI_LOOP_2\<close> does with a slot: skip it, write a word back, leave it, ask the
  new neighbour check, or stay where it is. The word written is \<open>blk_mem_slot_status_din\<close> with
  some ranges replaced; the preceding state has loaded it from \<open>blk_mem_slot_status_dout\<close>, which
  still shows the same word \<open>t\<close>.
\<close>

datatype stu_result = stu_skip | stu_write hw_slot | stu_keep | stu_ask | stu_stuck

definition stu_own_other :: "u8 \<Rightarrow> fi_entry \<Rightarrow> hw_slot \<Rightarrow> stu_result" where
  "stu_own_other sender f t =
     (if fi_busy f = 2 then
        if h_psf t < fi_psf f then
          (let d = t\<lparr>h_sid := fi_sid f, h_c2hop := h_c2hop t + 1,
                     h_c3hop := h_c3hop t + ucast (fi_count f), h_life := OCCUPIER_LIFE_FRAME\<rparr>
           in stu_write (if fi_sid f = sender then d\<lparr>h_busy := 2, h_psf := fi_psf f\<rparr>
                         else d\<lparr>h_busy := 1, h_c3hop_n := True\<rparr>))
        else if fi_psf f = h_psf t then stu_write (t\<lparr>h_busy := 3\<rparr>)
        else stu_keep
      else if fi_busy f = 1 then stu_write (t\<lparr>h_c3hop := h_c3hop t + ucast (fi_count f)\<rparr>)
      else if fi_busy f = 0 then stu_write (t\<lparr>h_busy := 3\<rparr>)
      else stu_write (t\<lparr>h_sid := fi_sid f, h_psf := fi_psf f, h_c2hop := 1, h_c3hop := 1,
                        h_life := OCCUPIER_LIFE_FRAME, h_busy := 1\<rparr>))"

definition stu_own :: "u8 \<Rightarrow> u8 \<Rightarrow> fi_entry \<Rightarrow> hw_slot \<Rightarrow> stu_result" where
  "stu_own me sender f t =
     (if h_sid t \<noteq> me then stu_skip
      else if fi_sid f \<noteq> me \<and> fi_sid f \<noteq> 0 then stu_own_other sender f t
      else if fi_sid f = me then
        if fi_busy f = 0 then stu_write (t\<lparr>h_busy := 3\<rparr>) else stu_keep
      else if fi_busy f = 0 then stu_ask
      else stu_stuck)"

text \<open>
  \<open>STU_FI_LOOP_4\<close>, by the status of the local slot. The write enable is raised in some branches
  that change nothing; writing the word back unchanged and not writing are told apart here as the
  source does.
\<close>

definition stu_other_1hop :: "u8 \<Rightarrow> fi_entry \<Rightarrow> hw_slot \<Rightarrow> stu_result" where
  "stu_other_1hop sender f t =
     (if h_sid t \<noteq> fi_sid f \<and> fi_sid f \<noteq> 0 then
        if fi_busy f = 2 then
          if fi_sid f = sender then
            if h_psf t < fi_psf f then
              stu_write (t\<lparr>h_sid := fi_sid f, h_c2hop := h_c2hop t + 1,
                h_c3hop := h_c3hop t + ucast (fi_count f), h_life := OCCUPIER_LIFE_FRAME,
                h_busy := 2, h_psf := fi_psf f\<rparr>)
            else if fi_psf f = h_psf t then
              stu_write (t\<lparr>h_life := OCCUPIER_LIFE_FRAME, h_busy := 3\<rparr>)
            else stu_write t
          else stu_write (t\<lparr>h_c2hop := h_c2hop t + 1, h_c3hop := h_c3hop t + ucast (fi_count f)\<rparr>)
        else if fi_busy f = 1 then stu_write (t\<lparr>h_c3hop := h_c3hop t + ucast (fi_count f)\<rparr>)
        else if fi_busy f = 0 then stu_keep
        else stu_write (t\<lparr>h_sid := fi_sid f, h_psf := fi_psf f, h_c2hop := 1, h_c3hop := 1,
                          h_life := OCCUPIER_LIFE_FRAME, h_busy := 1\<rparr>)
      else if h_sid t = fi_sid f then
        if fi_busy f = 2 then
          if fi_sid f = sender then
            (let d = t\<lparr>h_life := OCCUPIER_LIFE_FRAME\<rparr>
             in stu_write (if \<not> h_c3hop_n t then
                  d\<lparr>h_c3hop_n := True, h_c2hop := h_c2hop t + 1,
                    h_c3hop := h_c3hop t + ucast (fi_count f)\<rparr> else d))
          else stu_write (t\<lparr>h_existed := True\<rparr>)
        else stu_keep
      else if sender = h_sid t then
        stu_write (t\<lparr>h_sid := 0, h_psf := 0, h_c2hop := 0, h_c3hop := 0, h_life := 0, h_busy := 0,
          h_locker := True\<rparr>)
      else stu_keep)"

definition stu_other_2hop :: "u8 \<Rightarrow> fi_entry \<Rightarrow> hw_slot \<Rightarrow> stu_result" where
  "stu_other_2hop sender f t =
     (if h_sid t \<noteq> fi_sid f \<and> fi_sid f \<noteq> 0 then
        if fi_busy f = 2 then
          stu_write (t\<lparr>h_c2hop := h_c2hop t + 1, h_c3hop := h_c3hop t + ucast (fi_count f)\<rparr>)
        else if fi_busy f = 1 then stu_keep
        else if fi_busy f = 0 then stu_keep
        else stu_write (t\<lparr>h_sid := fi_sid f, h_c2hop := 1, h_c3hop := 1, h_psf := fi_psf f,
                          h_life := OCCUPIER_LIFE_FRAME, h_busy := 1\<rparr>)
      else if h_sid t = fi_sid f then
        if fi_busy f = 2 then
          (let d = t\<lparr>h_life := OCCUPIER_LIFE_FRAME\<rparr>;
               d' = (if \<not> h_c3hop_n t then
                       d\<lparr>h_c3hop_n := True, h_c2hop := h_c2hop t + 1,
                         h_c3hop := h_c3hop t + ucast (fi_count f)\<rparr> else d)
           in stu_write (if fi_sid f = sender then d'\<lparr>h_busy := 2\<rparr> else d'))
        else stu_keep
      else if sender = h_sid t then
        stu_write (t\<lparr>h_sid := 0, h_c2hop := 0, h_c3hop := 0, h_psf := 0, h_life := 0, h_busy := 0,
          h_locker := True\<rparr>)
      else stu_keep)"

definition stu_other_free :: "u8 \<Rightarrow> fi_entry \<Rightarrow> hw_slot \<Rightarrow> stu_result" where
  "stu_other_free sender f t =
     (if fi_sid f \<noteq> 0 then
        if fi_busy f = 2 then
          stu_write (t\<lparr>h_life := OCCUPIER_LIFE_FRAME, h_sid := fi_sid f, h_c3hop_n := True,
            h_c2hop := 1, h_psf := fi_psf f, h_c3hop := ucast (fi_count f),
            h_busy := (if fi_sid f = sender then 2 else 1)\<rparr>)
        else if fi_busy f = 1 then stu_write (t\<lparr>h_c3hop := h_c3hop t + ucast (fi_count f)\<rparr>)
        else if fi_busy f = 0 then stu_keep
        else stu_write (t\<lparr>h_sid := fi_sid f, h_c2hop := 1, h_c3hop := 1, h_psf := fi_psf f,
                          h_life := OCCUPIER_LIFE_FRAME, h_busy := 1\<rparr>)
      else stu_keep)"

definition stu_other :: "u8 \<Rightarrow> u8 \<Rightarrow> fi_entry \<Rightarrow> hw_slot \<Rightarrow> stu_result" where
  "stu_other me sender f t =
     (if h_sid t = me \<or> fi_sid f = me then stu_skip
      else if h_busy t = 2 then stu_other_1hop sender f t
      else if h_busy t = 1 then stu_other_2hop sender f t
      else if h_busy t = 0 then stu_other_free sender f t
      else stu_keep)"


section \<open>Clock edges\<close>

text \<open>
  The new neighbour check. It counts \<open>blk_mem_rcvpkt_addrb_inb\<close> up to the frame length, while the
  word it compares is the output of the slot memory.
\<close>

definition inb_edge :: "dp_input \<Rightarrow> dproc \<Rightarrow> dproc \<Rightarrow> dproc" where
  "inb_edge x s s' =
     (if \<not> reset_n x then
        s'\<lparr>inb_st := INB_IDLE, inb_done := False, inb_not_newneighbor_flag := False,
          en_inb := False, addrb_inb := 0\<rparr>
      else (case inb_st s of
        INB_IDLE \<Rightarrow>
          (if inb_start s then
             s'\<lparr>inb_done := False, inb_not_newneighbor_flag := False, en_inb := True,
               addrb_inb := 0, inb_st := INB_PRE\<rparr>
           else s'\<lparr>inb_done := False\<rparr>)
      | INB_PRE \<Rightarrow> s'\<lparr>inb_st := INB_LOOP\<rparr>
      | INB_LOOP \<Rightarrow>
          (if ucast (addrb_inb s) = curr_frame_len x then s'\<lparr>inb_st := INB_END\<rparr>
           else if h_sid (slot_dout s) = inb_input_sti s then
             s'\<lparr>inb_not_newneighbor_flag := True, inb_st := INB_END\<rparr>
           else s'\<lparr>inb_st := INB_LOOP_SETADDR\<rparr>)
      | INB_LOOP_SETADDR \<Rightarrow> s'\<lparr>addrb_inb := addrb_inb s + 1, inb_st := INB_LOOP_SETADDR_WAIT\<rparr>
      | INB_LOOP_SETADDR_WAIT \<Rightarrow> s'\<lparr>inb_st := INB_LOOP\<rparr>
      | INB_END \<Rightarrow> s'\<lparr>en_inb := False, inb_done := True, inb_st := INB_IDLE\<rparr>))"

text \<open>
  The states \<open>STU_FI_LOOP_1\<close> and \<open>STU_FI_LOOP_3\<close> collect the 14 bits of the next entry, one per
  edge. \<open>pre\<close>, \<open>act\<close> and \<open>clr\<close> are the states for a new packet word, for the complete entry and for
  a locked slot.
\<close>

definition stu_collect :: "stu_state \<Rightarrow> stu_state \<Rightarrow> stu_state \<Rightarrow> dproc \<Rightarrow> dproc" where
  "stu_collect pre act clr s =
     (if fi_per_slot_index s = 14 then
        s\<lparr>fi_per_slot_index := 0, slot_din := slot_dout s,
          stu_st := (if h_locker (slot_dout s) then clr else act)\<rparr>
      else
        (let bi = ucast (stu_index s mod 32) in
         if bi = 0 then s\<lparr>bit_index := bi, addrb_stu := addrb_stu s + 1, stu_st := pre\<rparr>
         else s\<lparr>bit_index := bi,
                fi_per_slot := put_bit (unat (fi_per_slot_index s)) (bit (pkt_dout s) (unat bi)) (fi_per_slot s),
                fi_per_slot_index := fi_per_slot_index s + 1, stu_index := stu_index s + 1\<rparr>))"

definition stu_setaddr :: "stu_state \<Rightarrow> dproc \<Rightarrow> dproc" where
  "stu_setaddr nxt s =
     s\<lparr>fi_per_slot := put_bit (unat (fi_per_slot_index s)) (bit (pkt_dout s) (unat (bit_index s))) (fi_per_slot s),
       fi_per_slot_index := fi_per_slot_index s + 1, stu_index := stu_index s + 1, stu_st := nxt\<rparr>"

definition stu_next_slot :: "stu_state \<Rightarrow> dproc \<Rightarrow> dproc" where
  "stu_next_slot pre s = s\<lparr>slot_we := False, slot_addr := slot_addr s + 1, fi_per_slot := 0, stu_st := pre\<rparr>"

definition stu_apply :: "stu_state \<Rightarrow> stu_state \<Rightarrow> stu_result \<Rightarrow> dproc \<Rightarrow> dproc" where
  "stu_apply pre clr r s = (case r of
       stu_skip \<Rightarrow> stu_next_slot pre s
     | stu_write d \<Rightarrow> s\<lparr>slot_we := True, slot_din := d, stu_st := clr\<rparr>
     | stu_keep \<Rightarrow> s\<lparr>stu_st := clr\<rparr>
     | stu_ask \<Rightarrow> s\<lparr>inb_input_sti := fi_sid (fi_per_slot s), inb_start := True, stu_st := STU_FI_INB_WAIT\<rparr>
     | stu_stuck \<Rightarrow> s)"

definition stu_edge :: "dp_input \<Rightarrow> dproc \<Rightarrow> dproc" where
  "stu_edge x s =
     (if \<not> reset_n x then
        s\<lparr>stu_st := STU_IDLE, slot_we := False, en_stu := False, fi_per_slot_index := 0,
          stu_done := False, inb_start := False, frame_len_exp_dp := False, fi_recv_count := 0\<rparr>
      else (case stu_st s of
        STU_IDLE \<Rightarrow>
          (if stu_start x then
             s\<lparr>stu_done := False, fi_recv_count := fi_recv_count s + 1, en_stu := True,
               addrb_stu := RX_TYPE_ADDR, slot_addr := 0, stu_st := STU_DISPATCH_WAIT\<rparr>
           else s\<lparr>stu_done := False\<rparr>)
      | STU_DISPATCH_WAIT \<Rightarrow> s\<lparr>stu_st := STU_DISPATCH\<rparr>
      | STU_DISPATCH \<Rightarrow>
          s\<lparr>stu_index := 12, fi_per_slot_index := 0,
            stu_fi_frame_len := push_bit (unat (pkt_dout s AND 15)) 1,
            stu_sender_sid := ucast (drop_bit 4 (pkt_dout s)), stu_st := STU_FI_LOOP_1\<rparr>
      | STU_FI_LOOP_1_PRE \<Rightarrow> s\<lparr>stu_st := STU_FI_LOOP_1\<rparr>
      | STU_FI_LOOP_1 \<Rightarrow>
          (let s1 = s\<lparr>slot_we := False\<rparr> in
           if ucast (slot_addr s) = stu_fi_frame_len s then s1\<lparr>stu_st := STU_LOOP_BCH_END\<rparr>
           else stu_collect STU_FI_LOOP_1_SETADDR_PRE STU_FI_LOOP_2 STU_FI_LOOP_2_CLR s1)
      | STU_FI_LOOP_1_SETADDR_PRE \<Rightarrow> s\<lparr>stu_st := STU_FI_LOOP_1_SETADDR\<rparr>
      | STU_FI_LOOP_1_SETADDR \<Rightarrow> stu_setaddr STU_FI_LOOP_1 s
      | STU_FI_LOOP_2 \<Rightarrow>
          stu_apply STU_FI_LOOP_1_PRE STU_FI_LOOP_2_CLR
            (stu_own (global_sid x) (stu_sender_sid s) (fi_per_slot s) (slot_dout s)) s
      | STU_FI_INB_WAIT \<Rightarrow>
          (if inb_done s then
             (if inb_not_newneighbor_flag s then
                s\<lparr>inb_start := False, slot_we := True, slot_din := (slot_din s)\<lparr>h_busy := 3\<rparr>,
                  stu_st := STU_FI_LOOP_2_CLR\<rparr>
              else s\<lparr>inb_start := False, stu_st := STU_FI_LOOP_2_CLR\<rparr>)
           else s\<lparr>inb_start := False\<rparr>)
      | STU_FI_LOOP_2_CLR \<Rightarrow> stu_next_slot STU_FI_LOOP_1_PRE s
      | STU_LOOP_BCH_END \<Rightarrow>
          s\<lparr>stu_index := 12, slot_addr := 0, fi_per_slot_index := 0, addrb_stu := RX_TYPE_ADDR,
            stu_st := STU_FI_LOOP_3_PRE\<rparr>
      | STU_FI_LOOP_3_PRE \<Rightarrow> s\<lparr>stu_st := STU_FI_LOOP_3\<rparr>
      | STU_FI_LOOP_3 \<Rightarrow>
          (let s1 = s\<lparr>slot_we := False\<rparr> in
           if ucast (slot_addr s) = stu_fi_frame_len s then
             (if curr_frame_len x < ucast (stu_fi_frame_len s)
              then s1\<lparr>frame_len_exp_dp := True, stu_st := STU_END\<rparr> else s1\<lparr>stu_st := STU_END\<rparr>)
           else stu_collect STU_FI_LOOP_3_SETADDR_PRE STU_FI_LOOP_4 STU_FI_LOOP_4_CLR s1)
      | STU_FI_LOOP_3_SETADDR_PRE \<Rightarrow> s\<lparr>stu_st := STU_FI_LOOP_3_SETADDR\<rparr>
      | STU_FI_LOOP_3_SETADDR \<Rightarrow> stu_setaddr STU_FI_LOOP_3 s
      | STU_FI_LOOP_4 \<Rightarrow>
          stu_apply STU_FI_LOOP_3_PRE STU_FI_LOOP_4_CLR
            (stu_other (global_sid x) (stu_sender_sid s) (fi_per_slot s) (slot_dout s)) s
      | STU_FI_LOOP_4_CLR \<Rightarrow> stu_next_slot STU_FI_LOOP_3_PRE s
      | STU_END \<Rightarrow>
          s\<lparr>frame_len_exp_dp := False, en_stu := False, stu_done := True, stu_st := STU_IDLE\<rparr>
      | STU_ERROR \<Rightarrow> s))"

text \<open>The address of the packet memory, and one edge of everything: all machines see the old registers.\<close>

definition rcvpkt_addrb :: "dp_input \<Rightarrow> dproc \<Rightarrow> 9 word" where
  "rcvpkt_addrb x s = (if en_stu s then (if en_inb s then addrb_inb s else addrb_stu s) else addrb_irq x)"

definition mem_edge :: "dp_input \<Rightarrow> dproc \<Rightarrow> dproc \<Rightarrow> dproc" where
  "mem_edge x s s' = s'\<lparr>slot_mem := bram_write (slot_we s) (slot_addr s) (slot_din s) (slot_mem s),
     slot_dout := bram_read (slot_we s) (slot_addr s) (slot_din s) (slot_mem s),
     pkt_dout := pkt_mem s ! unat (rcvpkt_addrb x s)\<rparr>"

definition dp_edge :: "dp_input \<Rightarrow> dproc \<Rightarrow> dproc" where
  "dp_edge x s = mem_edge x s (inb_edge x s (stu_edge x s))"

abbreviation dp_run :: "(nat \<Rightarrow> dp_input) \<Rightarrow> nat \<Rightarrow> dproc \<Rightarrow> dproc" where
  "dp_run \<equiv> clock_run dp_edge"

section \<open>Frames that never end\<close>

definition stu_first_pass :: "stu_state set" where
  "stu_first_pass = {STU_FI_LOOP_1_PRE, STU_FI_LOOP_1, STU_FI_LOOP_1_SETADDR_PRE, STU_FI_LOOP_1_SETADDR,
     STU_FI_LOOP_2, STU_FI_LOOP_2_CLR, STU_FI_INB_WAIT}"

lemmas dp_edge_simps = dp_edge_def mem_edge_def inb_edge_def stu_edge_def

lemma stu_part_keeps [simp]:
  "pkt_mem (stu_collect a b c s) = pkt_mem s" "pkt_mem (stu_setaddr a s) = pkt_mem s"
  "pkt_mem (stu_next_slot a s) = pkt_mem s" "pkt_mem (stu_apply a b r s) = pkt_mem s"
  "stu_done (stu_collect a b c s) = stu_done s" "stu_done (stu_setaddr a s) = stu_done s"
  "stu_done (stu_next_slot a s) = stu_done s" "stu_done (stu_apply a b r s) = stu_done s"
  "stu_fi_frame_len (stu_collect a b c s) = stu_fi_frame_len s"
  "stu_fi_frame_len (stu_setaddr a s) = stu_fi_frame_len s"
  "stu_fi_frame_len (stu_next_slot a s) = stu_fi_frame_len s"
  "stu_fi_frame_len (stu_apply a b r s) = stu_fi_frame_len s"
  by (simp_all add: stu_collect_def stu_setaddr_def stu_next_slot_def stu_apply_def Let_def
      split: stu_result.split)

lemma inb_edge_keeps [simp]:
  "pkt_mem (inb_edge x s s') = pkt_mem s'" "stu_st (inb_edge x s s') = stu_st s'"
  "stu_done (inb_edge x s s') = stu_done s'" "stu_fi_frame_len (inb_edge x s s') = stu_fi_frame_len s'"
  by (cases "inb_st s"; simp add: inb_edge_def)+

lemma stu_edge_keeps [simp]: "pkt_mem (stu_edge x s) = pkt_mem s"
  by (cases "stu_st s") (simp_all add: stu_edge_def Let_def)

lemma dp_edge_stu [simp]:
  "pkt_mem (dp_edge x s) = pkt_mem s" "stu_st (dp_edge x s) = stu_st (stu_edge x s)"
  "stu_done (dp_edge x s) = stu_done (stu_edge x s)"
  "stu_fi_frame_len (dp_edge x s) = stu_fi_frame_len (stu_edge x s)"
  by (simp_all add: dp_edge_def mem_edge_def)

lemma stu_part_states:
  "stu_st (stu_collect a b c s) \<in> {stu_st s, a, b, c}" "stu_st (stu_setaddr a s) = a"
  "stu_st (stu_next_slot a s) = a" "stu_st (stu_apply a b r s) \<in> {stu_st s, a, b, STU_FI_INB_WAIT}"
  by (auto simp: stu_collect_def stu_setaddr_def stu_next_slot_def stu_apply_def Let_def
      split: stu_result.split)

lemma addr_less: "unat (a :: 7 word) < 128"
  using unsigned_less [of a, where ?'a = nat] by simp

lemma slot_addr_short: "128 \<le> unat l \<Longrightarrow> ucast (a :: 7 word) \<noteq> (l :: 9 word)"
  using addr_less [of a] by (auto simp: word_unat_eq_iff unsigned_ucast_eq take_bit_nat_eq_self)

lemma stu_first_pass_stays:
  assumes "stu_st s \<in> stu_first_pass" "128 \<le> unat (stu_fi_frame_len s)" "\<not> stu_done s" "reset_n x"
  shows "stu_st (dp_edge x s) \<in> stu_first_pass \<and> 128 \<le> unat (stu_fi_frame_len (dp_edge x s))
     \<and> \<not> stu_done (dp_edge x s)"
proof -
  note c = stu_part_states(1) [of STU_FI_LOOP_1_SETADDR_PRE STU_FI_LOOP_2 STU_FI_LOOP_2_CLR "s\<lparr>slot_we := False\<rparr>"]
  note a = stu_part_states(4) [of STU_FI_LOOP_1_PRE STU_FI_LOOP_2_CLR
      "stu_own (global_sid x) (stu_sender_sid s) (fi_per_slot s) (slot_dout s)" s]
  show ?thesis
    using assms slot_addr_short [of "stu_fi_frame_len s" "slot_addr s"] c a
    by (cases "stu_st s") (auto simp: stu_first_pass_def stu_edge_def Let_def stu_part_states(2,3))
qed

text \<open>The registers while no update runs, as the reset and the end of an update leave them\<close>

definition dp_idle :: "dproc \<Rightarrow> bool" where
  "dp_idle s \<longleftrightarrow> stu_st s = STU_IDLE \<and> inb_st s = INB_IDLE \<and> \<not> en_inb s \<and> \<not> inb_start s \<and>
     \<not> slot_we s \<and> \<not> frame_len_exp_dp s \<and> length (slot_mem s) = 128 \<and> length (pkt_mem s) = 512"


text \<open>The first three edges: the type word of the packet is read and decoded.\<close>

definition stu_began :: "dproc \<Rightarrow> dproc \<Rightarrow> bool" where
  "stu_began s t \<longleftrightarrow> stu_st t = STU_FI_LOOP_1 \<and> en_stu t \<and> \<not> stu_done t \<and> stu_index t = 12 \<and>
     fi_per_slot_index t = 0 \<and> slot_addr t = 0 \<and> addrb_stu t = 20 \<and> pkt_dout t = pkt_mem s ! 20 \<and>
     pkt_mem t = pkt_mem s \<and> slot_mem t = slot_mem s \<and> slot_dout t = slot_mem s ! 0 \<and> \<not> slot_we t \<and>
     stu_fi_frame_len t = push_bit (unat (pkt_mem s ! 20 AND 15)) 1 \<and>
     stu_sender_sid t = ucast (drop_bit 4 (pkt_mem s ! 20)) \<and> inb_st t = INB_IDLE \<and> \<not> en_inb t \<and>
     \<not> inb_start t \<and> \<not> inb_done t \<and> \<not> frame_len_exp_dp t"

lemma stu_begins:
  assumes "\<And>n. reset_n (inp n)" "stu_start (inp 0)" "dp_idle s"
  shows "stu_began s (dp_run inp 3 s)"
    and "0 < n \<Longrightarrow> n \<le> 3 \<Longrightarrow> \<not> stu_done (dp_run inp n s) \<and> stu_st (dp_run inp n s) \<noteq> STU_IDLE"
proof -
  define a where "a = dp_run inp 1 s"
  have a: "stu_st a = STU_DISPATCH_WAIT" "\<not> stu_done a" "en_stu a" "addrb_stu a = 20" "slot_addr a = 0"
    "\<not> slot_we a" "inb_st a = INB_IDLE" "\<not> en_inb a" "\<not> inb_start a" "\<not> inb_done a"
    "slot_mem a = slot_mem s" "pkt_mem a = pkt_mem s" "\<not> frame_len_exp_dp a"
    using assms by (simp_all add: a_def dp_idle_def dp_edge_simps bram_write_def bram_read_def)
  have b: "dp_run inp 2 s = dp_edge (inp 1) a" by (simp add: a_def numeral_2_eq_2)
  have c: "dp_run inp 3 s = dp_edge (inp 2) (dp_edge (inp 1) a)"
    by (simp add: a_def numeral_3_eq_3 numeral_2_eq_2)
  show "stu_began s (dp_run inp 3 s)" unfolding c
    using a assms(1) by (simp add: stu_began_def dp_edge_simps bram_write_def bram_read_def rcvpkt_addrb_def)
  assume n: "0 < n" "n \<le> 3"
  then consider "n = 1" | "n = 2" | "n = 3" by linarith
  then show "\<not> stu_done (dp_run inp n s) \<and> stu_st (dp_run inp n s) \<noteq> STU_IDLE"
  proof cases
    case 1
    then show ?thesis using a by (simp only: a_def [symmetric]) simp
  qed (use a assms(1) in \<open>simp_all add: b c stu_edge_def\<close>)
qed

lemma long_frame_len: "v AND 15 \<in> {7, 8} \<Longrightarrow> 128 \<le> unat (push_bit (unat (v AND 15)) 1 :: 9 word)"
  for v :: u32
  by auto



text \<open>Registers after a reset, with a packet of node 5 for 128 slots\<close>

definition ex_reset :: "u32 \<Rightarrow> dproc" where
  "ex_reset h = (let t = \<lparr>h_busy = 0, h_sid = 0, h_c2hop = 0, h_c3hop = 0, h_psf = 0, h_life = 0,
       h_c3hop_n = False, h_locker = False, h_existed = False\<rparr> in
     \<lparr>slot_mem = replicate 128 t, slot_dout = t, slot_addr = 0, slot_din = t, slot_we = False,
      pkt_mem = replicate 20 0 @ h # replicate 491 0, pkt_dout = 0, inb_st = INB_IDLE, inb_done = False,
      inb_not_newneighbor_flag = False, inb_input_sti = 0, en_inb = False, addrb_inb = 0,
      stu_st = STU_IDLE, stu_done = False, bit_index = 0, stu_index = 0, fi_per_slot = 0,
      fi_per_slot_index = 0, stu_sender_sid = 0, stu_fi_frame_len = 0, en_stu = False, addrb_stu = 0,
      inb_start = False, frame_len_exp_dp = False, fi_recv_count = 0\<rparr>)"


section \<open>The update as a function\<close>

text \<open>Bit \<open>p\<close> of the received packet, the packet's header, and its \<open>i\<close>-th slot entry\<close>

definition pkt_bit :: "u32 list \<Rightarrow> nat \<Rightarrow> bool" where
  "pkt_bit P p = bit (P ! (20 + p div 32)) (p mod 32)"

definition pkt_frame_len :: "u32 list \<Rightarrow> nat" where
  "pkt_frame_len P = 2 ^ unat (P ! 20 AND 15)"

definition pkt_sender :: "u32 list \<Rightarrow> u8" where
  "pkt_sender P = ucast (drop_bit 4 (P ! 20))"

definition pkt_entry :: "u32 list \<Rightarrow> nat \<Rightarrow> fi_entry" where
  "pkt_entry P i = foldr (\<lambda>j. put_bit j (pkt_bit P (12 + 14 * i + j))) [0..<14] 0"

text \<open>
  What becomes of a slot in the first and in the second pass. The new neighbour check always
  answers that the sender is new, so \<open>stu_ask\<close> leaves the slot as it is.
\<close>

definition stu_result_slot :: "stu_result \<Rightarrow> hw_slot \<Rightarrow> hw_slot" where
  "stu_result_slot r t = (case r of stu_write d \<Rightarrow> d | _ \<Rightarrow> t)"

definition own_pass :: "u8 \<Rightarrow> u32 list \<Rightarrow> nat \<Rightarrow> hw_slot \<Rightarrow> hw_slot" where
  "own_pass me P i t = (if h_locker t then t
     else stu_result_slot (stu_own me (pkt_sender P) (pkt_entry P i) t) t)"

definition other_pass :: "u8 \<Rightarrow> u32 list \<Rightarrow> nat \<Rightarrow> hw_slot \<Rightarrow> hw_slot" where
  "other_pass me P i t = (if h_locker t then t
     else stu_result_slot (stu_other me (pkt_sender P) (pkt_entry P i) t) t)"

definition apply_upto :: "(nat \<Rightarrow> 'a \<Rightarrow> 'a) \<Rightarrow> nat \<Rightarrow> 'a list \<Rightarrow> 'a list" where
  "apply_upto f n xs = map (\<lambda>i. if i < n then f i (xs ! i) else xs ! i) [0..<length xs]"

definition hw_merge :: "u8 \<Rightarrow> u32 list \<Rightarrow> hw_slot list \<Rightarrow> hw_slot list" where
  "hw_merge me P M = (let L = pkt_frame_len P in
     apply_upto (other_pass me P) L (apply_upto (own_pass me P) L M))"

lemma length_apply_upto [simp]: "length (apply_upto f n xs) = length xs"
  by (simp add: apply_upto_def)

lemma nth_apply_upto [simp]:
  "i < length xs \<Longrightarrow> apply_upto f n xs ! i = (if i < n then f i (xs ! i) else xs ! i)"
  by (simp add: apply_upto_def)

lemma apply_upto_0 [simp]: "apply_upto f 0 xs = xs"
  by (simp add: apply_upto_def map_nth)

lemma apply_upto_Suc:
  "n < length xs \<Longrightarrow> (apply_upto f n xs)[n := f n (xs ! n)] = apply_upto f (Suc n) xs"
  by (rule nth_equalityI) (auto simp: nth_list_update)

lemma bit_fold_put_bit:
  "bit (foldr (\<lambda>j. put_bit j (f j)) [0..<n] (w :: 'a::len word)) i \<longleftrightarrow>
     (if i < n \<and> i < LENGTH('a) then f i else bit w i)"
  by (induction n arbitrary: w) (auto simp: bit_put_bit)

lemma pkt_entry_eqI: "(\<And>j. j < 14 \<Longrightarrow> bit w j = pkt_bit P (12 + 14 * i + j)) \<Longrightarrow> w = pkt_entry P i"
  by (rule bit_word_eqI) (simp add: pkt_entry_def bit_fold_put_bit)

end
