(* ===== verification/Fpga_Update.thy ===== *)
theory Fpga_Update
  imports Fpga_Merge
begin

text \<open>
  The slot table update of \<open>desc_processor.v\<close>, from the clock edge that starts it to the edge that
  signals \<open>stu_done\<close>: the state machines of \<open>Fpga_Merge\<close> compute the function \<open>hw_merge\<close> on the slot
  memory, within a bounded number of edges, or stop for ever at a malformed entry.
\<close>

section \<open>Bounded reachability\<close>

definition busy_dp :: "dproc \<Rightarrow> bool" where
  "busy_dp s \<longleftrightarrow> stu_st s \<noteq> STU_IDLE \<and> en_stu s \<and> \<not> stu_done s"

abbreviation dp_reaches :: "dp_input \<Rightarrow> nat \<Rightarrow> dproc \<Rightarrow> (dproc \<Rightarrow> bool) \<Rightarrow> bool" where
  "dp_reaches \<equiv> reaches dp_edge busy_dp"

section \<open>Reading an entry\<close>

definition settled :: "u32 list \<Rightarrow> hw_slot list \<Rightarrow> nat \<Rightarrow> dproc \<Rightarrow> bool" where
  "settled P M i s \<longleftrightarrow> slot_addr s = of_nat i \<and> slot_mem s = M \<and> slot_dout s = M ! i \<and> pkt_mem s = P \<and>
     \<not> slot_we s \<and> en_stu s \<and> \<not> stu_done s \<and> inb_st s = INB_IDLE \<and> \<not> en_inb s \<and> \<not> inb_start s \<and>
     \<not> inb_done s \<and> stu_fi_frame_len s = of_nat (pkt_frame_len P) \<and> stu_sender_sid s = pkt_sender P \<and>
     \<not> frame_len_exp_dp s"

definition word_at :: "nat \<Rightarrow> nat \<Rightarrow> nat" where
  "word_at i j = 20 + (11 + 14 * i + j) div 32"

definition on_word :: "u32 list \<Rightarrow> nat \<Rightarrow> nat \<Rightarrow> dproc \<Rightarrow> bool" where
  "on_word P i j s \<longleftrightarrow> stu_index s = of_nat (12 + 14 * i + j) \<and> addrb_stu s = of_nat (word_at i j) \<and>
     pkt_dout s = P ! word_at i j"

definition collecting :: "bool \<Rightarrow> u32 list \<Rightarrow> hw_slot list \<Rightarrow> nat \<Rightarrow> nat \<Rightarrow> dproc \<Rightarrow> bool" where
  "collecting first P M i j s \<longleftrightarrow> settled P M i s \<and> on_word P i j s \<and>
     stu_st s = (if first then STU_FI_LOOP_1 else STU_FI_LOOP_3) \<and> fi_per_slot_index s = of_nat j \<and>
     (\<forall>l < j. bit (fi_per_slot s) l = pkt_bit P (12 + 14 * i + l))"

lemma addr_neq_len: "i < l \<Longrightarrow> l \<le> 64 \<Longrightarrow> ucast (of_nat i :: 7 word) \<noteq> (of_nat l :: 9 word)"
  by (auto simp: word_unat_eq_iff unsigned_ucast_eq unsigned_of_nat take_bit_nat_eq_self)

lemma addr_eq_len: "l \<le> 64 \<Longrightarrow> ucast (of_nat l :: 7 word) = (of_nat l :: 9 word)"
  by (auto simp: word_unat_eq_iff unsigned_ucast_eq unsigned_of_nat take_bit_nat_eq_self)

lemma stu_index_mod:
  assumes "p < 1000"
  shows "unat (ucast ((of_nat p :: 11 word) mod 32) :: 7 word) = p mod 32"
proof -
  have "unat ((of_nat p :: 11 word) mod 32) = p mod 32"
    using assms by (simp add: unat_mod unsigned_of_nat take_bit_nat_eq_self)
  moreover have "p mod 32 < 128" using mod_less_divisor [of 32 p] by linarith
  ultimately show ?thesis by (simp add: unsigned_ucast_eq take_bit_nat_eq_self)
qed

lemma small_index: "j < 14 \<Longrightarrow> (of_nat j :: 5 word) \<noteq> 14 \<and> unat (of_nat j :: 5 word) = j"
  by (auto simp: word_unat_eq_iff unsigned_of_nat take_bit_nat_eq_self)

lemma word_at_Suc:
  "word_at i (Suc j) = (if (12 + 14 * i + j) mod 32 = 0 then Suc (word_at i j) else word_at i j)"
proof -
  have p: "12 + 14 * i + j = Suc (11 + 14 * i + j)" "11 + 14 * i + Suc j = Suc (11 + 14 * i + j)" by simp_all
  show ?thesis unfolding word_at_def p div_Suc by simp
qed

lemma pkt_bit_word: "pkt_bit P (12 + 14 * i + j) = bit (P ! word_at i (Suc j)) ((12 + 14 * i + j) mod 32)"
proof -
  have p: "11 + 14 * i + Suc j = 12 + 14 * i + j" by simp
  show ?thesis unfolding pkt_bit_def word_at_def p ..
qed

lemma word_at_le: "i \<le> 64 \<Longrightarrow> j \<le> 14 \<Longrightarrow> word_at i j < 512"
  by (simp add: word_at_def)


text \<open>An edge while the new neighbour check rests and nothing is written\<close>

definition quiet :: "dproc \<Rightarrow> bool" where
  "quiet s \<longleftrightarrow> \<not> slot_we s \<and> en_stu s \<and> inb_st s = INB_IDLE \<and> \<not> en_inb s \<and> \<not> inb_start s"

lemma quiet_edge:
  assumes "quiet s" "reset_n x"
  shows "dp_edge x s = (stu_edge x s)\<lparr>inb_done := False, slot_dout := slot_mem s ! unat (slot_addr s),
     slot_mem := slot_mem s, pkt_dout := pkt_mem s ! unat (addrb_stu s)\<rparr>"
  using assms by (simp add: quiet_def dp_edge_def mem_edge_def inb_edge_def bram_read_def bram_write_def
      rcvpkt_addrb_def)

lemma settled_quiet: "settled P M i s \<Longrightarrow> quiet s"
  by (simp add: settled_def quiet_def)

lemma unat_small:
  "i \<le> 64 \<Longrightarrow> unat (of_nat i :: 7 word) = i" "n < 512 \<Longrightarrow> unat (of_nat n :: 9 word) = n"
  by (simp_all add: unsigned_of_nat take_bit_nat_eq_self)

text \<open>Waiting for the packet memory to deliver the next word\<close>

definition fetching :: "u32 list \<Rightarrow> hw_slot list \<Rightarrow> nat \<Rightarrow> nat \<Rightarrow> dproc \<Rightarrow> bool" where
  "fetching P M i j s \<longleftrightarrow> settled P M i s \<and> stu_index s = of_nat (12 + 14 * i + j) \<and>
     addrb_stu s = of_nat (word_at i (Suc j)) \<and> bit_index s = 0 \<and> fi_per_slot_index s = of_nat j \<and>
     (\<forall>l < j. bit (fi_per_slot s) l = pkt_bit P (12 + 14 * i + l))"

lemma collect_bit:
  assumes c: "collecting first P M i j s" and i: "i < pkt_frame_len P" and l: "pkt_frame_len P \<le> 64"
    and j: "j < 14" and x: "reset_n x"
  shows "dp_reaches x 3 s (collecting first P M i (Suc j))"
proof -
  let ?p = "12 + 14 * i + j"
  have set: "settled P M i s" and w: "stu_index s = of_nat ?p" "addrb_stu s = of_nat (word_at i j)"
      "pkt_dout s = P ! word_at i j"
    and st: "stu_st s = (if first then STU_FI_LOOP_1 else STU_FI_LOOP_3)" "fi_per_slot_index s = of_nat j"
    and fi: "\<forall>l < j. bit (fi_per_slot s) l = pkt_bit P (12 + 14 * i + l)"
    using c by (auto simp: collecting_def on_word_def)
  have pb: "?p < 1000" using i l j by simp
  note ix = stu_index_mod [OF pb] and sm = small_index [OF j]
  have neq: "ucast (slot_addr s) \<noteq> stu_fi_frame_len s"
    using addr_neq_len [OF i l] set by (simp add: settled_def)
  have wl: "word_at i j < 512" "word_at i (Suc j) < 512" using word_at_le [of i] i l j by simp_all
  let ?b = "ucast (stu_index s mod 32) :: 7 word"
  have b: "unat ?b = ?p mod 32" unfolding w(1) by (rule ix)
  have busy: "busy_dp s" using set st by (simp add: busy_dp_def settled_def)
  note e = quiet_edge [OF settled_quiet [OF set] x]
  have ul: "unat (of_nat i :: 7 word) = i" using unat_small(1) [of i] i l by simp
  note set' = set [unfolded settled_def]
  show ?thesis
  proof (cases "?p mod 32 = 0")
    case False
    then have nz: "?b \<noteq> 0" using b by (metis unsigned_0)
    have "stu_edge x s = s\<lparr>slot_we := False, bit_index := ?b,
        fi_per_slot := put_bit j (bit (P ! word_at i j) (?p mod 32)) (fi_per_slot s),
        fi_per_slot_index := of_nat (Suc j), stu_index := of_nat (Suc ?p)\<rparr>"
      using st x neq nz sm b w by (simp add: stu_edge_def stu_collect_def Let_def ac_simps)
    moreover have "word_at i (Suc j) = word_at i j" using False by (simp add: word_at_Suc)
    moreover have "pkt_bit P ?p = bit (P ! word_at i j) (?p mod 32)"
      using False unfolding pkt_bit_word word_at_Suc by simp
    ultimately have "collecting first P M i (Suc j) (dp_edge x s)"
      using set' st w fi ul unat_small(2) [OF wl(1)] j unfolding e
      by (auto simp: collecting_def settled_def on_word_def bit_put_bit less_Suc_eq)
    then show ?thesis using busy by (simp add: numeral_3_eq_3)
  next
    case True
    then have z: "?b = 0" using b by (metis unsigned_eq_0_iff)
    have nx: "word_at i (Suc j) = Suc (word_at i j)" using True by (simp add: word_at_Suc)
    define s1 where "s1 = dp_edge x s"
    have "stu_edge x s = s\<lparr>slot_we := False, bit_index := 0, addrb_stu := of_nat (Suc (word_at i j)),
        stu_st := (if first then STU_FI_LOOP_1_SETADDR_PRE else STU_FI_LOOP_3_SETADDR_PRE)\<rparr>"
      using st x neq z sm w by (simp add: stu_edge_def stu_collect_def Let_def ac_simps)
    then have 1: "fetching P M i j s1"
      "stu_st s1 = (if first then STU_FI_LOOP_1_SETADDR_PRE else STU_FI_LOOP_3_SETADDR_PRE)"
      using set' st w fi ul unfolding s1_def e by (auto simp: fetching_def settled_def nx)
    define s2 where "s2 = dp_edge x s1"
    have "stu_edge x s1 = s1\<lparr>stu_st := (if first then STU_FI_LOOP_1_SETADDR else STU_FI_LOOP_3_SETADDR)\<rparr>"
      using 1(2) x by (simp add: stu_edge_def)
    then have 2: "fetching P M i j s2" "pkt_dout s2 = P ! word_at i (Suc j)"
      "stu_st s2 = (if first then STU_FI_LOOP_1_SETADDR else STU_FI_LOOP_3_SETADDR)"
      using 1 ul unat_small(2) [OF wl(2)] unfolding s2_def
      by (auto simp: fetching_def settled_def quiet_edge [OF settled_quiet x, of P M i] x)
    have "stu_edge x s2 = s2\<lparr>fi_per_slot := put_bit j (pkt_bit P ?p) (fi_per_slot s2),
        fi_per_slot_index := of_nat (Suc j), stu_index := of_nat (Suc ?p),
        stu_st := (if first then STU_FI_LOOP_1 else STU_FI_LOOP_3)\<rparr>"
      using 2 x sm True unfolding pkt_bit_word
      by (simp add: stu_edge_def stu_setaddr_def fetching_def ac_simps)
    then have "collecting first P M i (Suc j) (dp_edge x s2)"
      using 2 ul unat_small(2) [OF wl(2)] j
      by (auto simp: collecting_def fetching_def settled_def on_word_def bit_put_bit less_Suc_eq
          quiet_edge [OF settled_quiet x, of P M i])
    moreover have "busy_dp s1" "busy_dp s2" using 1 2 by (auto simp: busy_dp_def fetching_def settled_def)
    ultimately show ?thesis using busy by (simp add: numeral_3_eq_3 s1_def s2_def)
  qed
qed

lemma collect_entry:
  assumes "collecting first P M i 0 s" "i < pkt_frame_len P" "pkt_frame_len P \<le> 64" "reset_n x"
  shows "dp_reaches x 42 s (collecting first P M i 14)"
proof -
  have "j \<le> 14 \<Longrightarrow> dp_reaches x (3 * j) s (collecting first P M i j)" for j
  proof (induction j)
    case (Suc j)
    then have "dp_reaches x (3 * j + 3) s (collecting first P M i (Suc j))"
      by (intro reaches_trans [of dp_edge busy_dp x "3 * j" s "collecting first P M i j" 3] collect_bit assms(2-4)) auto
    then show ?case by (simp add: add.commute)
  qed (simp add: assms(1))
  from this [of 14] show ?thesis by simp
qed

section \<open>Leaving a slot\<close>

definition base :: "u32 list \<Rightarrow> dproc \<Rightarrow> bool" where
  "base P s \<longleftrightarrow> pkt_mem s = P \<and> en_stu s \<and> \<not> stu_done s \<and> inb_st s = INB_IDLE \<and> \<not> en_inb s \<and>
     \<not> inb_start s \<and> stu_fi_frame_len s = of_nat (pkt_frame_len P) \<and> stu_sender_sid s = pkt_sender P \<and>
     \<not> frame_len_exp_dp s"

definition moved :: "bool \<Rightarrow> u32 list \<Rightarrow> hw_slot list \<Rightarrow> nat \<Rightarrow> dproc \<Rightarrow> bool" where
  "moved first P M i s \<longleftrightarrow> base P s \<and> on_word P i 14 s \<and> fi_per_slot_index s = 0 \<and> slot_mem s = M \<and>
     \<not> slot_we s \<and> slot_addr s = of_nat (Suc i) \<and>
     stu_st s = (if first then STU_FI_LOOP_1_PRE else STU_FI_LOOP_3_PRE)"

definition closing :: "bool \<Rightarrow> u32 list \<Rightarrow> hw_slot list \<Rightarrow> hw_slot \<Rightarrow> nat \<Rightarrow> dproc \<Rightarrow> bool" where
  "closing first P M d i s \<longleftrightarrow> base P s \<and> on_word P i 14 s \<and> fi_per_slot_index s = 0 \<and> slot_mem s = M \<and>
     (if slot_we s then slot_din s = d else d = M ! i) \<and> slot_addr s = of_nat i \<and>
     stu_st s = (if first then STU_FI_LOOP_2_CLR else STU_FI_LOOP_4_CLR)"

definition deciding :: "bool \<Rightarrow> u32 list \<Rightarrow> hw_slot list \<Rightarrow> nat \<Rightarrow> dproc \<Rightarrow> bool" where
  "deciding first P M i s \<longleftrightarrow> settled P M i s \<and> on_word P i 14 s \<and> fi_per_slot_index s = 0 \<and>
     fi_per_slot s = pkt_entry P i \<and> slot_din s = M ! i \<and>
     stu_st s = (if first then STU_FI_LOOP_2 else STU_FI_LOOP_4)"

lemma moved_next:
  assumes "moved first P M i s" "i < 64" "reset_n x"
  shows "dp_reaches x 1 s (collecting first P M (Suc i) 0)"
proof -
  have q: "quiet s" "busy_dp s" using assms(1) by (auto simp: moved_def base_def quiet_def busy_dp_def)
  have "stu_edge x s = s\<lparr>stu_st := (if first then STU_FI_LOOP_1 else STU_FI_LOOP_3)\<rparr>"
    using assms by (simp add: moved_def stu_edge_def)
  moreover have "word_at (Suc i) 0 = word_at i 14" by (simp add: word_at_def)
  ultimately have "collecting first P M (Suc i) 0 (dp_edge x s)"
    using assms unat_small(1) [of "Suc i"] unat_small(2) [OF word_at_le [of i 14]]
    unfolding quiet_edge [OF q(1) assms(3)]
    by (simp add: moved_def collecting_def base_def settled_def on_word_def)
  then show ?thesis using q by simp
qed

lemma closing_next:
  assumes c: "closing first P M d i s" and "i < 64" "reset_n x"
  shows "dp_reaches x 2 s (collecting first P (M[i := d]) (Suc i) 0)"
proof -
  have i: "unat (of_nat i :: 7 word) = i" using assms(2) unat_small by simp
  have "moved first P (M[i := d]) i (dp_edge x s)"
    using assms i unat_small(2) [OF word_at_le [of i 14]]
    by (auto simp: closing_def moved_def base_def on_word_def dp_edge_simps stu_next_slot_def rcvpkt_addrb_def
        bram_write_def bram_read_def list_update_id)
  moreover have "busy_dp s" using c by (auto simp: closing_def base_def busy_dp_def)
  ultimately show ?thesis using moved_next [OF _ assms(2,3)] reaches_step [of busy_dp s dp_edge x 1] by (simp add: numeral_2_eq_2)
qed

lemma collected:
  assumes c: "collecting first P M i 14 s" and i: "i < pkt_frame_len P" and l: "pkt_frame_len P \<le> 64"
    and x: "reset_n x"
  shows "dp_reaches x 1 s (\<lambda>t. if h_locker (M ! i) then closing first P M (M ! i) i t else deciding first P M i t)"
proof -
  have "settled P M i s" and c': "collecting first P M i 14 s" using c by (simp_all add: collecting_def)
  note e = quiet_edge [OF settled_quiet [OF this(1)] x]
  have fi: "fi_per_slot s = pkt_entry P i" using c by (intro pkt_entry_eqI) (simp add: collecting_def)
  have "ucast (slot_addr s) \<noteq> stu_fi_frame_len s"
    using addr_neq_len [OF i l] c by (simp add: collecting_def settled_def)
  then have "stu_edge x s = s\<lparr>slot_we := False, fi_per_slot_index := 0, slot_din := slot_dout s,
      stu_st := (if h_locker (M ! i) then if first then STU_FI_LOOP_2_CLR else STU_FI_LOOP_4_CLR
                 else if first then STU_FI_LOOP_2 else STU_FI_LOOP_4)\<rparr>"
    using c x by (simp add: stu_edge_def stu_collect_def collecting_def settled_def Let_def)
  then have "if h_locker (M ! i) then closing first P M (M ! i) i (dp_edge x s) else deciding first P M i (dp_edge x s)"
    using c fi i l unat_small(1) [of i] unat_small(2) [OF word_at_le [of i 14]] unfolding e
    by (simp add: closing_def deciding_def base_def collecting_def settled_def on_word_def)
  moreover have "busy_dp s" using c by (auto simp: collecting_def settled_def busy_dp_def)
  ultimately show ?thesis by simp
qed


section \<open>The new neighbour check\<close>

text \<open>
  While the check runs the slot address does not move, so it compares the node's own slot with
  the identifier 0 until its counter reaches the frame length.
\<close>

definition asking :: "u32 list \<Rightarrow> hw_slot list \<Rightarrow> nat \<Rightarrow> inb_state \<Rightarrow> nat \<Rightarrow> dproc \<Rightarrow> bool" where
  "asking P M i st a s \<longleftrightarrow> stu_st s = STU_FI_INB_WAIT \<and> inb_st s = st \<and> addrb_inb s = of_nat a \<and> en_inb s \<and>
     \<not> inb_start s \<and> \<not> inb_done s \<and> \<not> inb_not_newneighbor_flag s \<and> inb_input_sti s = 0 \<and>
     slot_addr s = of_nat i \<and> slot_mem s = M \<and> slot_dout s = M ! i \<and> \<not> slot_we s \<and> pkt_mem s = P \<and>
     en_stu s \<and> \<not> stu_done s \<and> stu_fi_frame_len s = of_nat (pkt_frame_len P) \<and>
     stu_sender_sid s = pkt_sender P \<and> \<not> frame_len_exp_dp s \<and> fi_per_slot_index s = 0 \<and>
     stu_index s = of_nat (12 + 14 * i + 14) \<and> addrb_stu s = of_nat (word_at i 14)"

lemma asking_busy: "asking P M i st a s \<Longrightarrow> busy_dp s"
  by (simp add: asking_def busy_dp_def)

lemma asking_edge:
  assumes "asking P M i st a s" "i < 64" "reset_n x"
  shows "dp_edge x s = inb_edge x s (s\<lparr>pkt_dout := P ! unat (addrb_inb s)\<rparr>)"
proof -
  have "unat (of_nat i :: 7 word) = i" using assms(2) unat_small by simp
  then show ?thesis
    using assms by (intro dproc.equality)
      (cases st; simp add: asking_def dp_edge_simps rcvpkt_addrb_def bram_read_def bram_write_def)+
qed

lemma inb_counter: "a < 512 \<Longrightarrow> (ucast (of_nat a :: 9 word) = (f :: 10 word)) \<longleftrightarrow> a = unat f"
  by (simp add: word_unat_eq_iff unsigned_ucast_eq unsigned_of_nat take_bit_nat_eq_self)

lemma asking_loop:
  assumes "asking P M i INB_LOOP a s" "i < 64" "reset_n x" "h_sid (M ! i) \<noteq> 0" "a \<le> unat (curr_frame_len x)"
    "unat (curr_frame_len x) < 512"
  shows "dp_reaches x (3 * (unat (curr_frame_len x) - a) + 1) s (asking P M i INB_END (unat (curr_frame_len x)))"
  using assms(1,5)
proof (induction "unat (curr_frame_len x) - a" arbitrary: a s)
  case 0
  then have "asking P M i INB_END (unat (curr_frame_len x)) (dp_edge x s)"
    using asking_edge [OF 0(2) assms(2,3)] assms inb_counter [of a "curr_frame_len x"]
    by (auto simp: asking_def inb_edge_def)
  then show ?case using asking_busy [OF 0(2)] by (simp add: reaches_now)
next
  case (Suc n)
  then have a: "a < unat (curr_frame_len x)" "a < 512" using assms(6) by linarith+
  define s1 where "s1 = dp_edge x s"
  define s2 where "s2 = dp_edge x s1"
  define s3 where "s3 = dp_edge x s2"
  have 1: "asking P M i INB_LOOP_SETADDR a s1"
    using asking_edge [OF Suc(3) assms(2,3)] Suc(3) a assms(3,4) inb_counter [of a "curr_frame_len x"]
    by (auto simp: asking_def inb_edge_def s1_def)
  have 2: "asking P M i INB_LOOP_SETADDR_WAIT (Suc a) s2"
    using asking_edge [OF 1 assms(2,3)] 1 assms(3) by (simp add: asking_def inb_edge_def s2_def ac_simps)
  have 3: "asking P M i INB_LOOP (Suc a) s3"
    using asking_edge [OF 2 assms(2,3)] 2 assms(3) by (simp add: asking_def inb_edge_def s3_def)
  have "dp_reaches x (3 * n + 1) s3 (asking P M i INB_END (unat (curr_frame_len x)))"
  proof -
    have n: "n = unat (curr_frame_len x) - Suc a" using Suc(2) by linarith
    show ?thesis using Suc(1) [OF n 3] a n by (simp only: Suc_leI)
  qed
  then have "dp_reaches x (Suc (Suc (Suc (3 * n + 1)))) s (asking P M i INB_END (unat (curr_frame_len x)))"
    using asking_busy [OF 1] asking_busy [OF 2] asking_busy [OF Suc(3)] by (simp add: s1_def s2_def s3_def)
  then show ?case unfolding Suc(2) [symmetric] by (rule reaches_le) simp
qed

lemma asked:
  assumes d: "deciding True P M i s" and i: "i < 64" and x: "reset_n x" "unat (curr_frame_len x) < 512"
    and r: "stu_own (global_sid x) (pkt_sender P) (pkt_entry P i) (M ! i) = stu_ask" and me: "global_sid x \<noteq> 0"
  shows "dp_reaches x (3 * unat (curr_frame_len x) + 6) s (closing True P M (M ! i) i)"
proof -
  have own: "h_sid (M ! i) = global_sid x" "fi_sid (pkt_entry P i) = 0"
    using r by (auto simp: stu_own_def stu_own_other_def Let_def split: if_splits)
  have set: "settled P M i s" using d by (simp add: deciding_def)
  have ui: "unat (of_nat i :: 7 word) = i" using i unat_small by simp
  note wi = unat_small(2) [OF word_at_le [of i 14]]
  define s1 where "s1 = dp_edge x s"
  define s2 where "s2 = dp_edge x s1"
  have "stu_edge x s = s\<lparr>inb_input_sti := 0, inb_start := True, stu_st := STU_FI_INB_WAIT\<rparr>"
    using d x r own by (simp add: deciding_def settled_def stu_edge_def stu_apply_def)
  then have 1: "s1 = s\<lparr>inb_input_sti := 0, inb_start := True, stu_st := STU_FI_INB_WAIT\<rparr>"
    using d i ui wi unfolding s1_def quiet_edge [OF settled_quiet [OF set] x(1)]
    by (auto simp: deciding_def settled_def on_word_def intro: dproc.equality)
  have 2: "asking P M i INB_PRE 0 s2"
    using d ui x unfolding s2_def 1
    by (simp add: deciding_def settled_def on_word_def asking_def dp_edge_simps bram_read_def bram_write_def)
  have 3: "asking P M i INB_LOOP 0 (dp_edge x s2)"
    using asking_edge [OF 2 i x(1)] 2 x(1) by (simp add: asking_def inb_edge_def)
  have busy: "busy_dp s" "busy_dp s1" "busy_dp s2"
    using d asking_busy [OF 2] by (auto simp: deciding_def settled_def busy_dp_def 1)
  have fin: "dp_reaches x 2 t (closing True P M (M ! i) i)" if t: "asking P M i INB_END a t" for a t
  proof -
    have "closing True P M (M ! i) i (dp_edge x (dp_edge x t))"
      using t ui wi i x(1) unfolding asking_edge [OF t i x(1)]
      by (simp add: asking_def closing_def base_def on_word_def dp_edge_simps rcvpkt_addrb_def bram_read_def
          bram_write_def)
    moreover have "busy_dp t" "busy_dp (dp_edge x t)"
      using t unfolding asking_edge [OF t i x(1)] by (simp_all add: asking_def busy_dp_def inb_edge_def x(1))
    ultimately show ?thesis by (simp add: numeral_2_eq_2)
  qed
  have "dp_reaches x (3 * unat (curr_frame_len x) + 1 + 2) (dp_edge x s2) (closing True P M (M ! i) i)"
    using asking_loop [OF 3 i x(1) _ _ x(2)] own me by (intro reaches_trans [OF _ fin]) auto
  then have "dp_reaches x (Suc (Suc (Suc (3 * unat (curr_frame_len x) + 1 + 2)))) s (closing True P M (M ! i) i)"
    using busy by (simp add: s1_def s2_def)
  then show ?thesis by (rule reaches_le) simp
qed


section \<open>One slot, one pass\<close>

definition slot_pass :: "bool \<Rightarrow> dp_input \<Rightarrow> u32 list \<Rightarrow> nat \<Rightarrow> hw_slot \<Rightarrow> hw_slot" where
  "slot_pass first x P = (if first then own_pass (global_sid x) P else other_pass (global_sid x) P)"

text \<open>An entry that reports the node's own slot as empty and busy at once\<close>

definition malformed :: "u8 \<Rightarrow> u32 list \<Rightarrow> nat \<Rightarrow> hw_slot \<Rightarrow> bool" where
  "malformed me P i t \<longleftrightarrow> \<not> h_locker t \<and> h_sid t = me \<and> me \<noteq> 0 \<and>
     fi_sid (pkt_entry P i) = 0 \<and> fi_busy (pkt_entry P i) \<noteq> 0"

definition decision :: "bool \<Rightarrow> dp_input \<Rightarrow> u32 list \<Rightarrow> nat \<Rightarrow> hw_slot \<Rightarrow> stu_result" where
  "decision first x P i t = (if first then stu_own (global_sid x) (pkt_sender P) (pkt_entry P i) t
     else stu_other (global_sid x) (pkt_sender P) (pkt_entry P i) t)"

lemma stu_own_other_writes: "stu_own_other sender f t \<noteq> stu_ask" "stu_own_other sender f t \<noteq> stu_stuck"
  by (auto simp: stu_own_other_def Let_def)

lemma stu_other_writes: "stu_other me sender f t \<noteq> stu_ask" "stu_other me sender f t \<noteq> stu_stuck"
  by (auto simp: stu_other_def stu_other_1hop_def stu_other_2hop_def stu_other_free_def Let_def)

lemma decision_stuck:
  "decision first x P i t = stu_stuck \<Longrightarrow> global_sid x \<noteq> 0 \<Longrightarrow> \<not> h_locker t \<Longrightarrow>
     first \<and> malformed (global_sid x) P i t"
  using stu_own_other_writes stu_other_writes
  by (auto simp: decision_def malformed_def stu_own_def split: if_splits)

lemma decided_edge:
  assumes d: "deciding first P M i s" and i: "i < 64" and x: "reset_n x"
  shows "case decision first x P i (M ! i) of
      stu_skip \<Rightarrow> moved first P M i (dp_edge x s)
    | stu_write t \<Rightarrow> closing first P M t i (dp_edge x s)
    | stu_keep \<Rightarrow> closing first P M (M ! i) i (dp_edge x s)
    | _ \<Rightarrow> True"
proof -
  have set: "settled P M i s" using d by (simp add: deciding_def)
  have "stu_edge x s = stu_apply (if first then STU_FI_LOOP_1_PRE else STU_FI_LOOP_3_PRE)
      (if first then STU_FI_LOOP_2_CLR else STU_FI_LOOP_4_CLR) (decision first x P i (M ! i)) s"
    using d x by (simp add: deciding_def settled_def stu_edge_def decision_def)
  then show ?thesis
    using d i unat_small(2) [OF word_at_le [of i 14]] unfolding quiet_edge [OF settled_quiet [OF set] x]
    by (simp add: stu_apply_def stu_next_slot_def deciding_def settled_def moved_def closing_def base_def
        on_word_def ac_simps split: stu_result.split)
qed

lemma decided:
  assumes d: "deciding first P M i s" and i: "i < 64" and x: "reset_n x" "unat (curr_frame_len x) < 512"
    and me: "global_sid x \<noteq> 0" and ns: "decision first x P i (M ! i) \<noteq> stu_stuck"
  shows "dp_reaches x (3 * unat (curr_frame_len x) + 8) s
     (collecting first P (M[i := stu_result_slot (decision first x P i (M ! i)) (M ! i)]) (Suc i) 0)"
proof -
  note e = decided_edge [OF d i x(1)]
  have busy: "busy_dp s" using d by (simp add: deciding_def settled_def busy_dp_def)
  note step = reaches_le [OF reaches_step [of busy_dp s, OF busy]]
  show ?thesis
  proof (cases "decision first x P i (M ! i)")
    case stu_skip
    then show ?thesis using e moved_next [OF _ i x(1)] by (intro step [of dp_edge x 1]) (simp_all add: stu_result_slot_def)
  next
    case (stu_write t)
    then show ?thesis using e closing_next [OF _ i x(1)] by (intro step [of dp_edge x 2]) (simp_all add: stu_result_slot_def)
  next
    case stu_keep
    then show ?thesis using e closing_next [OF _ i x(1), of first P M "M ! i"]
      by (intro step [of dp_edge x 2]) (simp_all add: stu_result_slot_def)
  next
    case stu_ask
    then have f: first "stu_own (global_sid x) (pkt_sender P) (pkt_entry P i) (M ! i) = stu_ask"
      using stu_other_writes by (auto simp: decision_def split: if_splits)
    have "dp_reaches x (3 * unat (curr_frame_len x) + 6 + 2) s (collecting True P (M[i := M ! i]) (Suc i) 0)"
      using d f i x me by (intro reaches_trans [OF asked closing_next]) auto
    then show ?thesis using f stu_ask by (simp add: stu_result_slot_def add.commute)
  next
    case stu_stuck
    then show ?thesis using ns by simp
  qed
qed

lemma slot_step:
  assumes c: "collecting first P M i 0 s" and i: "i < pkt_frame_len P" "pkt_frame_len P \<le> 64"
    and x: "reset_n x" "unat (curr_frame_len x) < 512" "global_sid x \<noteq> 0"
    and ok: "first \<Longrightarrow> \<not> malformed (global_sid x) P i (M ! i)"
  shows "dp_reaches x (3 * unat (curr_frame_len x) + 51) s (collecting first P (M[i := slot_pass first x P i (M ! i)]) (Suc i) 0)"
proof -
  let ?Q = "\<lambda>t. if h_locker (M ! i) then closing first P M (M ! i) i t else deciding first P M i t"
  let ?R = "collecting first P (M[i := slot_pass first x P i (M ! i)]) (Suc i) 0"
  have i64: "i < 64" using i by simp
  have dec: "dp_reaches x (3 * unat (curr_frame_len x) + 8) t ?R" if t: "?Q t" for t
  proof (cases "h_locker (M ! i)")
    case True
    then have p: "slot_pass first x P i (M ! i) = M ! i"
      by (simp add: slot_pass_def own_pass_def other_pass_def)
    have "closing first P M (M ! i) i t" using t True by (simp only: if_True)
    from closing_next [OF this i64 x(1)] show ?thesis unfolding p by (rule reaches_le) simp
  next
    case False
    then have ns: "decision first x P i (M ! i) \<noteq> stu_stuck" using decision_stuck x(3) ok by blast
    have p: "slot_pass first x P i (M ! i) = stu_result_slot (decision first x P i (M ! i)) (M ! i)"
      using False by (simp add: slot_pass_def own_pass_def other_pass_def decision_def)
    have "deciding first P M i t" using t False by (simp only: if_False)
    from decided [OF this i64 x ns] show ?thesis unfolding p .
  qed
  have "dp_reaches x (1 + (3 * unat (curr_frame_len x) + 8)) t ?R" if t: "collecting first P M i 14 t" for t
    using dec by (rule reaches_trans [OF collected [OF t i x(1)]])
  then have "dp_reaches x (42 + (1 + (3 * unat (curr_frame_len x) + 8))) s ?R"
    by (rule reaches_trans [OF collect_entry [OF c i x(1)]])
  then show ?thesis by (rule reaches_le) simp
qed


text \<open>The clock edges that one slot can take: 14 bits, each with a memory fetch, and the new neighbour check\<close>

definition slot_edges :: "dp_input \<Rightarrow> nat" where
  "slot_edges x = 3 * unat (curr_frame_len x) + 51"

definition inputs_ok :: "dp_input \<Rightarrow> u32 list \<Rightarrow> bool" where
  "inputs_ok x P \<longleftrightarrow> reset_n x \<and> unat (curr_frame_len x) < 512 \<and> global_sid x \<noteq> 0 \<and> pkt_frame_len P \<le> 64"

lemma pass_loop:
  assumes c: "collecting first P M 0 0 s" and x: "inputs_ok x P" and len: "64 \<le> length M"
    and n: "n \<le> pkt_frame_len P"
    and ok: "\<And>i. first \<Longrightarrow> i < n \<Longrightarrow> \<not> malformed (global_sid x) P i (M ! i)"
  shows "dp_reaches x (n * slot_edges x) s (collecting first P (apply_upto (slot_pass first x P) n M) n 0)"
  using n ok
proof (induction n)
  case (Suc n)
  let ?M = "apply_upto (slot_pass first x P) n M"
  have n: "n < pkt_frame_len P" "n < length M" using Suc.prems(1) len x by (auto simp: inputs_ok_def)
  have nth: "?M ! n = M ! n" using n(2) by simp
  have step: "dp_reaches x (slot_edges x) t (collecting first P (apply_upto (slot_pass first x P) (Suc n) M) (Suc n) 0)"
    if t: "collecting first P ?M n 0 t" for t
    using slot_step [OF t n(1), of x] x Suc.prems(2) unfolding nth apply_upto_Suc [OF n(2)] slot_edges_def
    by (simp add: inputs_ok_def)
  have "dp_reaches x (n * slot_edges x + slot_edges x) s
      (collecting first P (apply_upto (slot_pass first x P) (Suc n) M) (Suc n) 0)"
    using Suc by (intro reaches_trans [OF _ step]) auto
  then show ?case by (rule reaches_le) simp
qed (simp add: c)

lemma first_pass_end:
  assumes c: "collecting True P M (pkt_frame_len P) 0 s" and x: "inputs_ok x P"
  shows "dp_reaches x 3 s (collecting False P M 0 0)"
proof -
  have l: "pkt_frame_len P \<le> 64" and x': "reset_n x" using x by (auto simp: inputs_ok_def)
  define s1 where "s1 = dp_edge x s"
  define s2 where "s2 = dp_edge x s1"
  have set: "settled P M (pkt_frame_len P) s" using c by (simp add: collecting_def)
  have "stu_edge x s = s\<lparr>slot_we := False, stu_st := STU_LOOP_BCH_END\<rparr>"
    using c x' addr_eq_len [OF l] by (simp add: collecting_def settled_def stu_edge_def)
  then have 1: "settled P M (pkt_frame_len P) s1" "stu_st s1 = STU_LOOP_BCH_END"
    using set unat_small(1) [OF l] unfolding s1_def quiet_edge [OF settled_quiet [OF set] x']
    by (simp_all add: settled_def)
  have "stu_edge x s1 = s1\<lparr>stu_index := 12, slot_addr := 0, fi_per_slot_index := 0, addrb_stu := 20,
      stu_st := STU_FI_LOOP_3_PRE\<rparr>"
    using 1 x' by (simp add: stu_edge_def)
  then have 2: "base P s2" "quiet s2" "slot_mem s2 = M" "slot_addr s2 = 0" "addrb_stu s2 = 20" "stu_index s2 = 12"
    "fi_per_slot_index s2 = 0" "stu_st s2 = STU_FI_LOOP_3_PRE"
    using 1 unfolding s2_def quiet_edge [OF settled_quiet [OF 1(1)] x']
    by (simp_all add: settled_def base_def quiet_def)
  have "stu_edge x s2 = s2\<lparr>stu_st := STU_FI_LOOP_3\<rparr>" using 2 x' by (simp add: stu_edge_def)
  then have "collecting False P M 0 0 (dp_edge x s2)"
    using 2 unfolding quiet_edge [OF 2(2) x']
    by (simp add: collecting_def settled_def base_def quiet_def on_word_def word_at_def)
  moreover have "busy_dp s" "busy_dp s1" "busy_dp s2"
    using c 1 2 by (auto simp: collecting_def settled_def base_def busy_dp_def)
  ultimately show ?thesis by (simp add: numeral_3_eq_3 s1_def s2_def)
qed

definition finished :: "hw_slot list \<Rightarrow> dproc \<Rightarrow> bool" where
  "finished M s \<longleftrightarrow> stu_st s = STU_IDLE \<and> stu_done s \<and> slot_mem s = M \<and> inb_st s = INB_IDLE \<and> \<not> en_inb s \<and>
     \<not> inb_start s \<and> \<not> slot_we s \<and> \<not> frame_len_exp_dp s"

lemma second_pass_end:
  assumes c: "collecting False P M (pkt_frame_len P) 0 s" and x: "inputs_ok x P"
  shows "dp_reaches x 2 s (finished M)"
proof -
  have l: "pkt_frame_len P \<le> 64" and x': "reset_n x" using x by (auto simp: inputs_ok_def)
  define s1 where "s1 = dp_edge x s"
  have set: "settled P M (pkt_frame_len P) s" using c by (simp add: collecting_def)
  have "stu_edge x s = s\<lparr>slot_we := False,
      frame_len_exp_dp := curr_frame_len x < ucast (stu_fi_frame_len s), stu_st := STU_END\<rparr>"
    using c x' addr_eq_len [OF l]
    by (auto simp: collecting_def settled_def stu_edge_def Let_def intro!: dproc.equality)
  then have 1: "quiet s1" "stu_st s1 = STU_END" "slot_mem s1 = M" "busy_dp s1"
    using set unfolding s1_def quiet_edge [OF settled_quiet [OF set] x'] quiet_def busy_dp_def
    by (simp_all add: settled_def)
  have "stu_edge x s1 = s1\<lparr>frame_len_exp_dp := False, en_stu := False, stu_done := True, stu_st := STU_IDLE\<rparr>"
    using 1 x' by (simp add: stu_edge_def)
  then have "finished M (dp_edge x s1)"
    using 1 unfolding quiet_edge [OF 1(1) x'] by (simp add: finished_def quiet_def)
  moreover have "busy_dp s" using c by (simp add: collecting_def settled_def busy_dp_def)
  ultimately show ?thesis using 1(4) by (simp add: numeral_2_eq_2 s1_def)
qed

section \<open>The whole update\<close>

text \<open>The inputs that the machines look at while an update runs\<close>

definition same_inputs :: "dp_input \<Rightarrow> dp_input \<Rightarrow> bool" where
  "same_inputs x y \<longleftrightarrow> reset_n x = reset_n y \<and> global_sid x = global_sid y \<and> curr_frame_len x = curr_frame_len y"

lemma busy_edge_eq: "busy_dp s \<Longrightarrow> same_inputs x y \<Longrightarrow> dp_edge x s = dp_edge y s"
proof -
  assume b: "busy_dp s" and i: "same_inputs x y"
  have "stu_edge x s = stu_edge y s"
    using b i unfolding same_inputs_def busy_dp_def by (cases "stu_st s") (simp_all add: stu_edge_def Let_def)
  moreover have "inb_edge x s t = inb_edge y s t" for t
    using i unfolding same_inputs_def inb_edge_def by (simp only:)
  moreover have "mem_edge x s t = mem_edge y s t" for t
    using b unfolding busy_dp_def mem_edge_def rcvpkt_addrb_def by simp
  ultimately show "dp_edge x s = dp_edge y s" by (simp only: dp_edge_def)
qed

interpretation dp: clocked dp_edge busy_dp same_inputs
  by unfold_locales (rule busy_edge_eq)

lemma began_collecting:
  "stu_began s t \<Longrightarrow> length (pkt_mem s) = 512 \<Longrightarrow> pkt_frame_len (pkt_mem s) \<le> 64 \<Longrightarrow>
     collecting True (pkt_mem s) (slot_mem s) 0 0 t"
proof -
  assume b: "stu_began s t" and l: "pkt_frame_len (pkt_mem s) \<le> 64"
  have "push_bit k (1 :: 9 word) = of_nat (2 ^ k)" for k
    by (simp add: push_bit_eq_mult)
  then show "collecting True (pkt_mem s) (slot_mem s) 0 0 t"
    using b by (simp add: stu_began_def collecting_def settled_def on_word_def word_at_def pkt_frame_len_def pkt_sender_def)
qed


lemma update_reaches:
  assumes c: "collecting True P M 0 0 s" and x: "inputs_ok x P" and len: "length M = 128"
    and ok: "\<And>i. i < pkt_frame_len P \<Longrightarrow> \<not> malformed (global_sid x) P i (M ! i)"
  shows "dp_reaches x (2 * pkt_frame_len P * slot_edges x + 5) s (finished (hw_merge (global_sid x) P M))"
proof -
  let ?L = "pkt_frame_len P" and ?e = "slot_edges x"
  let ?M1 = "apply_upto (own_pass (global_sid x) P) ?L M"
  have m: "hw_merge (global_sid x) P M = apply_upto (other_pass (global_sid x) P) ?L ?M1"
    by (simp add: hw_merge_def Let_def)
  have "dp_reaches x (?L * ?e) s (collecting True P ?M1 ?L 0)"
    using pass_loop [OF c x _ order_refl] len ok by (simp add: slot_pass_def)
  moreover have "dp_reaches x (3 + ?L * ?e) t (collecting False P (hw_merge (global_sid x) P M) ?L 0)"
    if t: "collecting True P ?M1 ?L 0 t" for t
  proof (rule reaches_trans [OF first_pass_end [OF t x]])
    fix u assume u: "collecting False P ?M1 0 0 u"
    show "dp_reaches x (?L * ?e) u (collecting False P (hw_merge (global_sid x) P M) ?L 0)"
      using pass_loop [OF u x _ order_refl] len by (simp add: slot_pass_def m)
  qed
  ultimately have "dp_reaches x (?L * ?e + (3 + ?L * ?e)) s (collecting False P (hw_merge (global_sid x) P M) ?L 0)"
    by (rule reaches_trans)
  then have "dp_reaches x (?L * ?e + (3 + ?L * ?e) + 2) s (finished (hw_merge (global_sid x) P M))"
    by (rule reaches_trans) (rule second_pass_end [OF _ x])
  then show ?thesis by (rule reaches_le) simp
qed

definition update_edges :: "u32 list \<Rightarrow> dp_input \<Rightarrow> nat" where
  "update_edges P x = 2 * pkt_frame_len P * slot_edges x + 8"

lemma stu_update_run:
  assumes "\<And>n. same_inputs x (inp n)" "inputs_ok x (pkt_mem s)" "stu_start (inp 0)" "dp_idle s"
    and "\<And>i. i < pkt_frame_len (pkt_mem s) \<Longrightarrow> \<not> malformed (global_sid x) (pkt_mem s) i (slot_mem s ! i)"
  shows "\<exists>n \<le> update_edges (pkt_mem s) x.
     dp_idle (dp_run inp n s) \<and> stu_done (dp_run inp n s) \<and>
     slot_mem (dp_run inp n s) = hw_merge (global_sid x) (pkt_mem s) (slot_mem s) \<and>
     (\<forall>k. 0 < k \<and> k < n \<longrightarrow> \<not> stu_done (dp_run inp k s))"
proof -
  let ?t = "dp_run inp 3 s" and ?i = "\<lambda>k. inp (3 + k)" and ?M = "hw_merge (global_sid x) (pkt_mem s) (slot_mem s)"
  have r: "reset_n (inp n)" for n using assms(1) [of n] assms(2) by (simp add: same_inputs_def inputs_ok_def)
  note beg = stu_begins [of inp s, OF r assms(3,4)]
  have len: "length (slot_mem s) = 128" "length (pkt_mem s) = 512" using assms(4) by (simp_all add: dp_idle_def)
  have "collecting True (pkt_mem s) (slot_mem s) 0 0 ?t"
    using began_collecting [OF beg(1) len(2)] assms(2) by (simp add: inputs_ok_def)
  from dp.reaches_run [OF update_reaches [OF this assms(2) len(1) assms(5)], of ?i] assms(1)
  obtain k where k: "k \<le> 2 * pkt_frame_len (pkt_mem s) * slot_edges x + 5" "finished ?M (dp_run ?i k ?t)"
    "\<forall>j < k. \<not> stu_done (dp_run ?i j ?t)" unfolding busy_dp_def by blast
  have pkt: "pkt_mem (dp_run inp n s) = pkt_mem s" for n by (induction n) simp_all
  have "dp_idle (dp_run inp (3 + k) s) \<and> stu_done (dp_run inp (3 + k) s) \<and> slot_mem (dp_run inp (3 + k) s) = ?M"
    using k(2) pkt [of "3 + k"] len unfolding clock_run_add [symmetric]
    by (simp add: finished_def dp_idle_def hw_merge_def Let_def)
  moreover have "\<not> stu_done (dp_run inp j s)" if j: "0 < j" "j < 3 + k" for j
  proof (cases "j \<le> 3")
    case True
    then show ?thesis using beg(2) j by blast
  next
    case False
    then obtain m where "j = 3 + m" "m < k" using j le_Suc_ex [of 3 j] by auto
    then show ?thesis using k(3) by (auto simp only: clock_run_add)
  qed
  moreover have "3 + k \<le> update_edges (pkt_mem s) x" using k(1) by (simp add: update_edges_def)
  ultimately show ?thesis by blast
qed

text \<open>
  C6: the slot table updater of the FPGA implements the merge function. When an FI packet for a
  frame of at most 64 slots lies in the packet memory and \<open>stu_start\<close> is raised, \<open>stu_done\<close> is
  signalled after at most \<open>2 * L * (3 * F + 51) + 8\<close> clock edges (\<open>L\<close> the announced, \<open>F\<close> the current
  frame length), not earlier, with the machines idle again and \<open>hw_merge\<close> of the old slot memory
  in the slot memory: the bits of every entry are taken from the right packet words, across word
  boundaries, every slot is visited once in each pass, and no slot beyond the announced frame is
  touched. The packet must hold no malformed entry.
\<close>

theorem stu_update_correct:
  assumes "\<And>n. same_inputs x (inp n)" "inputs_ok x (pkt_mem s)" "stu_start (inp 0)" "dp_idle s"
    and "\<And>i. i < pkt_frame_len (pkt_mem s) \<Longrightarrow> \<not> malformed (global_sid x) (pkt_mem s) i (slot_mem s ! i)"
  shows "\<exists>n \<le> update_edges (pkt_mem s) x.
     dp_idle (dp_run inp n s) \<and> stu_done (dp_run inp n s) \<and>
     slot_mem (dp_run inp n s) = hw_merge (global_sid x) (pkt_mem s) (slot_mem s) \<and>
     (\<forall>k. 0 < k \<and> k < n \<longrightarrow> \<not> stu_done (dp_run inp k s))"
  by (rule stu_update_run [of x inp s, OF assms])


text \<open>A packet of node 5 for four empty slots, and the memory of node 7, which holds slot 1 and has node 5 in slot 2\<close>

definition ex_input :: dp_input where
  "ex_input = \<lparr>reset_n = True, stu_start = True, global_sid = 7, curr_frame_len = 4, addrb_irq = 0\<rparr>"

definition ex_slot :: "2 word \<Rightarrow> u8 \<Rightarrow> hw_slot" where
  "ex_slot b sid = \<lparr>h_busy = b, h_sid = sid, h_c2hop = 1, h_c3hop = 1, h_psf = 0, h_life = 3, h_c3hop_n = False,
     h_locker = False, h_existed = False\<rparr>"

definition ex_dproc :: dproc where
  "ex_dproc = (ex_reset 82)\<lparr>slot_mem := [ex_slot 0 0, ex_slot 2 7, ex_slot 2 5] @ replicate 125 (ex_slot 0 0)\<rparr>"

lemma ex_values:
  "pkt_frame_len (pkt_mem ex_dproc) = 4" "unat (curr_frame_len ex_input) = 4" "global_sid ex_input = 7"
  "list_all (\<lambda>i. \<not> malformed 7 (pkt_mem ex_dproc) i (slot_mem ex_dproc ! i)) [0..<4]"
  "h_sid (hw_merge 7 (pkt_mem ex_dproc) (slot_mem ex_dproc) ! 2) = 0"
  "hw_merge 7 (pkt_mem ex_dproc) (slot_mem ex_dproc) ! 1 = ex_slot 2 7"
  by code_simp+

theorem stu_update_correct_witness:
  "\<exists>n \<le> 512. stu_done (dp_run (\<lambda>_. ex_input) n ex_dproc) \<and>
     h_sid (slot_mem (dp_run (\<lambda>_. ex_input) n ex_dproc) ! 2) = 0 \<and>
     slot_mem (dp_run (\<lambda>_. ex_input) n ex_dproc) ! 1 = ex_slot 2 7"
proof -
  have ok: "\<And>i. i < 4 \<Longrightarrow> \<not> malformed 7 (pkt_mem ex_dproc) i (slot_mem ex_dproc ! i)"
    using ex_values(4) by (simp add: list_all_iff)
  have "update_edges (pkt_mem ex_dproc) ex_input = 512"
    by (simp add: update_edges_def slot_edges_def ex_values)
  then show ?thesis
    using stu_update_correct [of ex_input "\<lambda>_. ex_input" ex_dproc] ok ex_values
    by (auto simp: same_inputs_def inputs_ok_def ex_input_def ex_dproc_def ex_reset_def Let_def dp_idle_def)
qed


section \<open>Malformed entries\<close>

lemma malformed_stuck:
  assumes d: "deciding True P M i s" and m: "malformed (global_sid x) P i (M ! i)" and x: "inputs_ok x P" "i < 64"
  shows "dp_edge x s = s"
proof -
  have set: "settled P M i s" and x': "reset_n x" using d x by (simp_all add: deciding_def inputs_ok_def)
  have "stu_edge x s = s"
    using d m x' by (simp add: deciding_def settled_def stu_edge_def stu_own_def stu_apply_def malformed_def)
  then show ?thesis
    using d x unat_small(1) [of i] unat_small(2) [OF word_at_le [of i 14]]
    unfolding quiet_edge [OF settled_quiet [OF set] x']
    by (simp add: deciding_def settled_def on_word_def)
qed

lemma malformed_reaches:
  assumes c: "collecting True P M 0 0 s" and x: "inputs_ok x P" and len: "length M = 128"
    and i: "i < pkt_frame_len P" and m: "malformed (global_sid x) P i (M ! i)"
    and ok: "\<And>j. j < i \<Longrightarrow> \<not> malformed (global_sid x) P j (M ! j)"
  shows "\<exists>n M'. dp_reaches x n s (\<lambda>t. deciding True P M' i t \<and> malformed (global_sid x) P i (M' ! i))"
proof -
  let ?M = "apply_upto (slot_pass True x P) i M"
  have l: "pkt_frame_len P \<le> 64" "reset_n x" using x by (auto simp: inputs_ok_def)
  have nth: "?M ! i = M ! i" using i l len by simp
  have "dp_reaches x (i * slot_edges x) s (collecting True P ?M i 0)"
    using pass_loop [OF c x _ less_imp_le [OF i]] len ok by simp
  moreover have "dp_reaches x (42 + 1) t (deciding True P ?M i)" if t: "collecting True P ?M i 0 t" for t
  proof (rule reaches_trans [OF collect_entry [OF t i l]])
    fix u assume "collecting True P ?M i 14 u"
    from collected [OF this i l] show "dp_reaches x 1 u (deciding True P ?M i)"
      using m by (simp add: nth malformed_def)
  qed
  ultimately have "dp_reaches x (i * slot_edges x + (42 + 1)) s (deciding True P ?M i)"
    by (rule reaches_trans)
  then show ?thesis using m unfolding nth [symmetric] by (blast intro: reaches_mono)
qed

text \<open>
  C33: an FI packet with a malformed entry for one of the node's own slots (no occupier, but not
  free) stops the receive path for good: the source leaves this case without a next state, so the
  update stays in \<open>STU_FI_LOOP_2\<close> and \<open>stu_done\<close> is never signalled.
\<close>

theorem stu_malformed_entry_stops:
  assumes "\<And>n. same_inputs x (inp n)" "inputs_ok x (pkt_mem s)" "stu_start (inp 0)" "dp_idle s"
    and "i < pkt_frame_len (pkt_mem s)" "malformed (global_sid x) (pkt_mem s) i (slot_mem s ! i)" "0 < n"
  shows "\<not> stu_done (dp_run inp n s)"
proof -
  let ?P = "pkt_mem s" and ?t = "dp_run inp 3 s" and ?i = "\<lambda>k. inp (3 + k)"
  let ?m = "\<lambda>i. malformed (global_sid x) ?P i (slot_mem s ! i)"
  define a where "a = (LEAST i. ?m i)"
  have a: "?m a" "a \<le> i" "\<And>j. j < a \<Longrightarrow> \<not> ?m j"
    using assms(6) unfolding a_def by (auto intro: LeastI Least_le dest: not_less_Least)
  have r: "reset_n (inp n)" for n using assms(1) [of n] assms(2) by (simp add: same_inputs_def inputs_ok_def)
  note beg = stu_begins [of inp s, OF r assms(3,4)]
  have len: "length (slot_mem s) = 128" "length ?P = 512" using assms(4) by (simp_all add: dp_idle_def)
  have "collecting True ?P (slot_mem s) 0 0 ?t"
    using began_collecting [OF beg(1) len(2)] assms(2) by (simp add: inputs_ok_def)
  from malformed_reaches [OF this assms(2) len(1) _ a(1,3)] a(2) assms(5)
  obtain b M' where "dp_reaches x b ?t (\<lambda>t. deciding True ?P M' a t \<and> malformed (global_sid x) ?P a (M' ! a))"
    by auto
  from dp.reaches_run [OF this, of ?i] assms(1) obtain k where
    k: "deciding True ?P M' a (dp_run ?i k ?t)" "malformed (global_sid x) ?P a (M' ! a)"
      "\<forall>j < k. \<not> stu_done (dp_run ?i j ?t)" unfolding busy_dp_def by blast
  let ?u = "dp_run ?i k ?t"
  have "a < 64" using a(2) assms(2,5) by (simp add: inputs_ok_def)
  then have fixp: "dp_edge x ?u = ?u" by (rule malformed_stuck [OF k(1,2) assms(2)])
  have busy: "busy_dp ?u" using k(1) by (simp add: deciding_def settled_def busy_dp_def)
  have stay: "dp_run ?i (k + j) ?t = ?u" for j
    unfolding clock_run_add [of _ _ k] by (rule dp.stuck_run [OF busy fixp assms(1)])
  have "\<not> stu_done (dp_run ?i j ?t)" for j
  proof (cases "j < k")
    case False
    then obtain d where "j = k + d" using le_Suc_ex [of k j] by auto
    then show ?thesis using stay [of d] busy by (simp add: busy_dp_def)
  qed (use k(3) in blast)
  then have late: "\<not> stu_done (dp_run inp (3 + j) s)" for j by (simp only: clock_run_add) simp
  show ?thesis
  proof (cases "n \<le> 3")
    case True
    then show ?thesis using beg(2) assms(7) by blast
  next
    case False
    then obtain d where "n = 3 + d" using le_Suc_ex [of 3 n] by auto
    then show ?thesis using late by blast
  qed
qed


definition ex_bad :: dproc where
  "ex_bad = ex_dproc\<lparr>pkt_mem := replicate 20 0 @ 67108946 # replicate 491 0\<rparr>"

lemma ex_bad_values:
  "pkt_frame_len (pkt_mem ex_bad) = 4" "malformed 7 (pkt_mem ex_bad) 1 (slot_mem ex_bad ! 1)"
  by code_simp+

theorem stu_malformed_entry_stops_witness: "\<forall>n. \<not> stu_done (dp_run (\<lambda>_. ex_input) (Suc n) ex_bad)"
  using stu_malformed_entry_stops [of ex_input "\<lambda>_. ex_input" ex_bad 1] ex_bad_values ex_values(2,3)
  by (simp add: same_inputs_def inputs_ok_def ex_input_def ex_bad_def ex_dproc_def ex_reset_def Let_def dp_idle_def del: clock_run.simps)

end
