(* ===== verification/Fpga_Equiv.thy ===== *)
theory Fpga_Equiv
  imports Fpga_Update Merge_Fi
begin

text \<open>
  The FPGA and the simulator implement the same protocol. This theory relates the slot words of
  \<open>desc_processor.v\<close> with the slot tags of \<open>src/ns2/mac/mac-tdma.cc\<close>: the hardware merge of a
  received FI packet has, on every slot that is not the node's own, the effect of \<open>merge_fi\<close>, except
  for the priority field, which the hardware copies and the simulator does not.
\<close>

section \<open>Abstraction\<close>

definition abs_slot :: "hw_slot \<Rightarrow> slot_tag" where
  "abs_slot t = \<lparr>busy = ucast (h_busy t), count_2hop = uint (h_c2hop t),
     count_3hop = uint (h_c3hop t), life_time = uint (h_life t), existed = h_existed t,
     sti = ucast (h_sid t), psf = ucast (h_psf t), c3hop_flag = h_c3hop_n t, locker = h_locker t\<rparr>"

definition abs_entry :: "fi_entry \<Rightarrow> slot_tag" where
  "abs_entry f = new_slot_tag\<lparr>busy := ucast (fi_busy f), count_2hop := uint (fi_count f),
     sti := ucast (fi_sid f), psf := ucast (fi_psf f)\<rparr>"

definition abs_packet :: "u32 list \<Rightarrow> frame_info \<Rightarrow> bool" where
  "abs_packet P fi \<longleftrightarrow> fi_sti fi = ucast (pkt_sender P) \<and> frame_len fi = int (pkt_frame_len P) \<and>
     slot_describe fi = map (\<lambda>i. abs_entry (pkt_entry P i)) [0..<pkt_frame_len P]"

definition same_but_psf :: "slot_tag \<Rightarrow> slot_tag \<Rightarrow> bool" where
  "same_but_psf a b \<longleftrightarrow> busy a = busy b \<and> sti a = sti b \<and> count_2hop a = count_2hop b \<and>
     count_3hop a = count_3hop b \<and> life_time a = life_time b \<and> existed a = existed b \<and>
     c3hop_flag a = c3hop_flag b \<and> locker a = locker b"

text \<open>The counters have room for one more report.\<close>

definition counts_fit :: "hw_slot \<Rightarrow> bool" where
  "counts_fit t \<longleftrightarrow> unat (h_c2hop t) < 255 \<and> unat (h_c3hop t) < 509"

lemma unat_up:
  fixes a :: "'a::len word"
  assumes "LENGTH('a) \<le> LENGTH('b::len)"
  shows "unat (ucast a :: 'b word) = unat a"
proof -
  have "unat a < 2 ^ LENGTH('b)"
    using unsigned_less [of a, where ?'a = nat] power_increasing [OF assms, of "2 :: nat"] by linarith
  then show ?thesis by (simp add: unsigned_ucast_eq take_bit_nat_eq_self)
qed

lemma unat_ups [simp]:
  "unat (ucast (a :: 2 word) :: u8) = unat a" "unat (ucast (c :: u8) :: u32) = unat c"
  "unat (ucast (a :: 2 word) :: 9 word) = unat a"
  by (simp_all add: unat_up)

lemma uint_ups [simp]: "uint (ucast (a :: 2 word) :: 9 word) = uint a"
  by (metis of_nat_unat unat_ups(3))

lemma ucast_codes [simp]:
  "(ucast (a :: 2 word) = (ucast a' :: u8)) = (a = a')" "(ucast (c :: u8) = (ucast c' :: u32)) = (c = c')"
  "(ucast (a :: 2 word) < (ucast a' :: u8)) = (a < a')"
  "(ucast (c :: u8) = (0 :: u32)) = (c = 0)" "(ucast (a :: 2 word) = (0 :: u8)) = (a = 0)"
  "(ucast (a :: 2 word) = (1 :: u8)) = (a = 1)" "(ucast (a :: 2 word) = (2 :: u8)) = (a = 2)"
  "(ucast (a :: 2 word) = (3 :: u8)) = (a = 3)"
  by (simp_all add: word_unat_eq_iff word_less_nat_alt)

lemma busy_cases: "(a :: 2 word) = 0 \<or> a = 1 \<or> a = 2 \<or> a = 3"
proof -
  have "unat a < 4" using unsigned_less [of a, where ?'a = nat] by simp
  then show ?thesis by (auto simp: word_unat_eq_iff)
qed

lemma count_up:
  assumes c: "counts_fit t"
  shows "uint (h_c2hop t + 1) = uint (h_c2hop t) + 1"
    "uint (h_c3hop t + ucast (n :: 2 word)) = uint (h_c3hop t) + uint n"
proof -
  have "unat n < 4" using unsigned_less [of n, where ?'a = nat] by simp
  then have "unat (h_c2hop t + 1) = unat (h_c2hop t) + 1"
    "unat (h_c3hop t + ucast (n :: 2 word)) = unat (h_c3hop t) + unat n"
    using c by (simp_all add: counts_fit_def unat_word_ariths)
  from this [THEN arg_cong, of int] show "uint (h_c2hop t + 1) = uint (h_c2hop t) + 1"
    "uint (h_c3hop t + ucast (n :: 2 word)) = uint (h_c3hop t) + uint n" by simp_all
qed

section \<open>One slot\<close>

lemma abs_slot_fields [simp]:
  "busy (abs_slot t) = ucast (h_busy t)" "sti (abs_slot t) = ucast (h_sid t)" "psf (abs_slot t) = ucast (h_psf t)"
  "c3hop_flag (abs_slot t) = h_c3hop_n t" "locker (abs_slot t) = h_locker t"
  "count_2hop (abs_slot t) = uint (h_c2hop t)" "count_3hop (abs_slot t) = uint (h_c3hop t)"
  by (simp_all add: abs_slot_def)

lemma abs_entry_fields [simp]:
  "busy (abs_entry f) = ucast (fi_busy f)" "sti (abs_entry f) = ucast (fi_sid f)"
  "psf (abs_entry f) = ucast (fi_psf f)" "count_2hop (abs_entry f) = uint (fi_count f)"
  by (simp_all add: abs_entry_def)

lemma abs_slot_updates [simp]:
  "abs_slot (t\<lparr>h_busy := b\<rparr>) = (abs_slot t)\<lparr>busy := ucast b\<rparr>"
  "abs_slot (t\<lparr>h_sid := i\<rparr>) = (abs_slot t)\<lparr>sti := ucast i\<rparr>"
  "abs_slot (t\<lparr>h_c2hop := c\<rparr>) = (abs_slot t)\<lparr>count_2hop := uint c\<rparr>"
  "abs_slot (t\<lparr>h_c3hop := d\<rparr>) = (abs_slot t)\<lparr>count_3hop := uint d\<rparr>"
  "abs_slot (t\<lparr>h_psf := p\<rparr>) = (abs_slot t)\<lparr>psf := ucast p\<rparr>"
  "abs_slot (t\<lparr>h_life := l\<rparr>) = (abs_slot t)\<lparr>life_time := uint l\<rparr>"
  "abs_slot (t\<lparr>h_c3hop_n := n\<rparr>) = (abs_slot t)\<lparr>c3hop_flag := n\<rparr>"
  "abs_slot (t\<lparr>h_locker := k\<rparr>) = (abs_slot t)\<lparr>locker := k\<rparr>"
  "abs_slot (t\<lparr>h_existed := e\<rparr>) = (abs_slot t)\<lparr>existed := e\<rparr>"
  by (simp_all add: abs_slot_def)

lemma stu_result_slot_simps [simp]:
  "stu_result_slot (stu_write d) t = d" "stu_result_slot stu_keep t = t" "stu_result_slot stu_skip t = t"
  "stu_result_slot stu_ask t = t" "stu_result_slot stu_stuck t = t"
  by (simp_all add: stu_result_slot_def)

lemma same_but_psf_refl [simp]: "same_but_psf a a" "same_but_psf (a\<lparr>psf := p\<rparr>) a"
  by (simp_all add: same_but_psf_def)

lemma other_1hop_abs:
  assumes "slot_lifetime_frame_s2 cfg = 3" "counts_fit t"
  shows "same_but_psf (abs_slot (stu_result_slot (stu_other_1hop sender f t) t))
     (merge_1hop cfg (ucast sender) (abs_entry f) (abs_slot t))"
  using busy_cases [of "fi_busy f"]
  by (elim disjE)
    (simp_all add: stu_other_1hop_def merge_1hop_def Let_def same_but_psf_def assms count_up [OF assms(2)])

lemma other_2hop_abs:
  assumes "slot_lifetime_frame_s2 cfg = 3" "counts_fit t"
  shows "same_but_psf (abs_slot (stu_result_slot (stu_other_2hop sender f t) t))
     (merge_2hop cfg (ucast sender) (abs_entry f) (abs_slot t))"
  using busy_cases [of "fi_busy f"]
  by (elim disjE)
    (simp_all add: stu_other_2hop_def merge_2hop_def Let_def same_but_psf_def assms count_up [OF assms(2)], auto)

lemma other_free_abs:
  assumes "slot_lifetime_frame_s2 cfg = 3" "counts_fit t" "h_sid t = 0"
  shows "same_but_psf (abs_slot (stu_result_slot (stu_other_free sender f t) t))
     (merge_free cfg (ucast sender) (abs_entry f) (abs_slot t))"
  using busy_cases [of "fi_busy f"]
  by (elim disjE)
    (simp_all add: stu_other_free_def merge_free_def Let_def same_but_psf_def assms count_up [OF assms(2)])


lemma other_pass_abs:
  assumes cfg: "slot_lifetime_frame_s2 cfg = 3" and ok: "slot_word_ok t" and fit: "counts_fit t"
  shows "same_but_psf (abs_slot (other_pass me P i t))
     (merge_others_tag cfg (ucast me) (ucast (pkt_sender P)) (abs_entry (pkt_entry P i)) (abs_slot t))"
  using ok other_1hop_abs [OF cfg fit, of "pkt_sender P" "pkt_entry P i"]
    other_2hop_abs [OF cfg fit, of "pkt_sender P" "pkt_entry P i"]
    other_free_abs [OF cfg fit, of "pkt_sender P" "pkt_entry P i"]
  by (simp add: other_pass_def stu_other_def merge_others_tag_def merge_skips_def merge_other_tag_def slot_word_ok_def)

section \<open>The whole packet\<close>

lemma hw_merge_not_mine:
  assumes "i < length M" "i < pkt_frame_len P" "h_sid (M ! i) \<noteq> me"
  shows "hw_merge me P M ! i = other_pass me P i (M ! i)"
  using assms by (simp add: hw_merge_def Let_def own_pass_def stu_own_def)

text \<open>
  C5: the hardware merge agrees with the simulator. Let the slot memory of the FPGA and the slot
  table of \<open>mac-tdma.cc\<close> hold the same slots and let both receive the same FI packet. On every slot
  that is not the node's own, what \<open>desc_processor.v\<close> leaves in its memory is what \<open>merge_fi\<close> leaves
  in the table: the same status, occupier, counters, life time and flags, with a slot lifetime of
  3 frames, as long as the 8-bit and 9-bit counters have room. The two differ in the priority
  field alone.
\<close>

theorem fpga_merge_agrees_with_ns2:
  assumes "table_ok s" "slot_lifetime_frame_s2 cfg = 3" "global_sti s = ucast me" "length M = 128"
    and "abs_packet P fi" "pkt_frame_len P \<le> 64" "i < pkt_frame_len P"
    and "tags s ! i = abs_slot (M ! i)" "h_sid (M ! i) \<noteq> me" "slot_word_ok (M ! i)" "counts_fit (M ! i)"
  shows "\<exists>s'. merge_fi cfg fi s = Some s' \<and> same_but_psf (abs_slot (hw_merge me P M ! i)) (tags s' ! i)"
proof -
  have fi: "frame_ok fi" using assms(5,6,7) by (simp add: frame_ok_def abs_packet_def)
  have i: "int i < max_frame_len" using assms(6,7) by simp
  obtain s' where s': "merge_fi cfg fi s = Some s'" "merged_slot cfg fi s i (tags s' ! i)"
    using merge_fi_slot [OF assms(1) fi i] by blast
  have "sti (tags s ! i) \<noteq> global_sti s" using assms(3,8,9) by simp
  from merged_slot_not_mine [OF s'(2) this]
  have "tags s' ! i = merge_others_tag cfg (ucast me) (ucast (pkt_sender P)) (abs_entry (pkt_entry P i)) (abs_slot (M ! i))"
    using assms(3,5,7,8) by (simp add: abs_packet_def others_merged_def)
  then show ?thesis
    using s'(1) other_pass_abs [OF assms(2,10,11)] hw_merge_not_mine [of i M P me] assms(4,6,7,9) by simp
qed


text \<open>The FI packet of the example, its slots, and a simulator node with the same table\<close>

definition ex_fi :: frame_info where
  "ex_fi = example_fi 5 (map (\<lambda>i. abs_entry (pkt_entry (pkt_mem ex_dproc) i)) [0..<4])"

definition ex_node :: tdma where
  "ex_node = example_node 7 (map abs_slot (slot_mem ex_dproc))"

lemma ex_node_facts:
  "table_ok ex_node" "global_sti ex_node = ucast (7 :: u8)" "abs_packet (pkt_mem ex_dproc) ex_fi"
  "length (slot_mem ex_dproc) = 128" "i < 128 \<Longrightarrow> tags ex_node ! i = abs_slot (slot_mem ex_dproc ! i)"
proof -
  have "tag_ok (abs_slot t)" for t
    using busy_cases [of "h_busy t"] by (auto simp: tag_ok_def)
  moreover show "length (slot_mem ex_dproc) = 128" by (simp add: ex_dproc_def)
  ultimately show "table_ok ex_node" unfolding ex_node_def by (intro example_node_ok) auto
  show "global_sti ex_node = ucast (7 :: u8)" by (simp add: ex_node_def)
  have "pkt_sender (pkt_mem ex_dproc) = 5" by code_simp
  then show "abs_packet (pkt_mem ex_dproc) ex_fi"
    using ex_values(1) by (simp add: abs_packet_def ex_fi_def)
  show "i < 128 \<Longrightarrow> tags ex_node ! i = abs_slot (slot_mem ex_dproc ! i)"
    using \<open>length (slot_mem ex_dproc) = 128\<close> by (simp add: ex_node_def example_tags_nth)
qed

theorem fpga_merge_agrees_with_ns2_witness:
  "\<exists>s'. merge_fi (example_cfg\<lparr>slot_lifetime_frame_s2 := 3\<rparr>) ex_fi ex_node = Some s' \<and>
     same_but_psf (abs_slot (hw_merge 7 (pkt_mem ex_dproc) (slot_mem ex_dproc) ! 2)) (tags s' ! 2)"
  using fpga_merge_agrees_with_ns2 [of ex_node "example_cfg\<lparr>slot_lifetime_frame_s2 := 3\<rparr>" 7 "slot_mem ex_dproc"
      "pkt_mem ex_dproc" ex_fi 2] ex_node_facts ex_values(1)
  by (simp add: ex_dproc_def ex_slot_def slot_word_ok_def counts_fit_def)

text \<open>
  C32: the FPGA does not notice a collision that the simulator notices. A known neighbour whose
  packet shows the node's own slot as free and without occupier has not heard the node there:
  \<open>merge_fi\<close> marks the slot as \<open>SLOT_COLLISION\<close>, whereas the hardware leaves it as it is. Its new
  neighbour check is asked about the occupier of the entry, which is 0, instead of the sender, and
  compares the same slot again and again.
\<close>

theorem fpga_misses_collision:
  assumes "table_ok s" "global_sti s = ucast me" "me \<noteq> 0" "length M = 128"
    and "abs_packet P fi" "pkt_frame_len P \<le> 64" "i < pkt_frame_len P" "int i < max_slot_num s"
    and "tags s ! i = abs_slot (M ! i)" "h_sid (M ! i) = me"
    and "fi_sid (pkt_entry P i) = 0" "fi_busy (pkt_entry P i) = 0"
    and "pkt_sender P \<noteq> me" "knows_neighbor (fi_sti fi) s"
  shows "hw_merge me P M ! i = M ! i \<and>
     (\<exists>s'. merge_fi cfg fi s = Some s' \<and> tags s' ! i = (abs_slot (M ! i))\<lparr>busy := SLOT_COLLISION\<rparr>)"
proof
  show "hw_merge me P M ! i = M ! i"
    using assms(3,4,6,7,10-12) by (simp add: hw_merge_def Let_def own_pass_def other_pass_def stu_own_def stu_other_def)
  have fi: "frame_ok fi" "int i < frame_len fi" "fi_sti fi = ucast (pkt_sender P)"
    "slot_describe fi ! i = abs_entry (pkt_entry P i)"
    using assms(5-7) by (simp_all add: frame_ok_def abs_packet_def)
  have i: "int i < max_frame_len" using assms(6,7) by simp
  obtain s' where s': "merge_fi cfg fi s = Some s'" "merged_slot cfg fi s i (tags s' ! i)"
    using merge_fi_slot [OF assms(1) fi(1) i] by blast
  from merged_slot_mine [OF s'(2) _ assms(8) fi(2)] assms(2,9,10) obtain u where
    u: "own_merged cfg fi s i u" "tags s' ! i = others_merged cfg fi s (int i) u" by auto
  have "u = (abs_slot (M ! i))\<lparr>busy := SLOT_COLLISION\<rparr>"
    using u(1) assms(2,3,9-14) fi(3,4) by (auto simp: own_merged_def merge_own_tag_def)
  then have "tags s' ! i = u" using u(2) assms(2,10) by (simp add: others_merged_mine)
  with s'(1) \<open>u = _\<close>
  show "\<exists>s'. merge_fi cfg fi s = Some s' \<and> tags s' ! i = (abs_slot (M ! i))\<lparr>busy := SLOT_COLLISION\<rparr>" by simp
qed

theorem fpga_misses_collision_witness:
  "hw_merge 7 (pkt_mem ex_dproc) (slot_mem ex_dproc) ! 1 = ex_slot 2 7 \<and>
   (\<exists>s'. merge_fi example_cfg ex_fi ex_node = Some s' \<and> busy (tags s' ! 1) = SLOT_COLLISION)"
proof -
  have "fi_sid (pkt_entry (pkt_mem ex_dproc) 1) = 0" "fi_busy (pkt_entry (pkt_mem ex_dproc) 1) = 0"
    "pkt_sender (pkt_mem ex_dproc) \<noteq> 7" by code_simp+
  moreover have "slot_mem ex_dproc ! 1 = ex_slot 2 7" "slot_mem ex_dproc ! 2 = ex_slot 2 5"
    by (simp_all add: ex_dproc_def)
  moreover have "knows_neighbor (fi_sti ex_fi) ex_node"
    unfolding knows_neighbor_def
    by (intro exI [of _ 2]) (simp add: ex_fi_def ex_node_facts calculation, simp add: ex_node_def ex_slot_def)
  ultimately show ?thesis
    using fpga_misses_collision [of ex_node 7 "slot_mem ex_dproc" "pkt_mem ex_dproc" ex_fi 1 example_cfg]
      ex_node_facts ex_values(1)
    by (auto simp: ex_node_def ex_slot_def)
qed

end
