(* ===== verification/Fpga_Clock.thy ===== *)
theory Fpga_Clock
  imports Tdma_Prelude
begin

text \<open>
  The slot clock of the FPGA middleware (\<open>tdma_control.v\<close>, lines 195-249) and its frame length
  (431-514). A GPS receiver delivers one pulse per second and one per microsecond; each node counts
  them on its own. The theory shows that the counting gives every node the same slot, also when
  nodes use frames of different lengths.
\<close>

section \<open>Counters\<close>

record gps_clock =
  pulse1_counter :: u32
  curr_utc_sec :: u32
  pulse2_counter :: u32
  curr_pulse1_counter :: u32
  curr_pulse1_counter2 :: u32
  slot_pointer :: u16
  slot_pulse2_counter :: "10 word"
  slot_counter_1sec :: "11 word"

text \<open>\<open>posedge gps_timepulse_1\<close>\<close>

definition timepulse_1 :: "u32 \<Rightarrow> gps_clock \<Rightarrow> gps_clock" where
  "timepulse_1 utc c = c\<lparr>pulse1_counter := pulse1_counter c + 1, curr_utc_sec := utc\<rparr>"

text \<open>\<open>posedge gps_timepulse_2\<close>: the microsecond counter and the slot pointer\<close>

definition count_pulse2 :: "gps_clock \<Rightarrow> gps_clock" where
  "count_pulse2 c =
     (if pulse1_counter c \<noteq> curr_pulse1_counter c
      then c\<lparr>curr_pulse1_counter := pulse1_counter c, pulse2_counter := 0\<rparr>
      else c\<lparr>pulse2_counter := pulse2_counter c + 1\<rparr>)"

definition move_slot_pointer :: "5 word \<Rightarrow> gps_clock \<Rightarrow> gps_clock" where
  "move_slot_pointer log2 c =
     (if pulse1_counter c \<noteq> curr_pulse1_counter2 c
      then c\<lparr>curr_pulse1_counter2 := pulse1_counter c, slot_pointer := 0, slot_pulse2_counter := 0,
             slot_counter_1sec := 0\<rparr>
      else if slot_pulse2_counter c = 999
      then (let n = slot_counter_1sec c + 1 in
            c\<lparr>slot_pulse2_counter := 0, slot_counter_1sec := n,
              slot_pointer := ucast n AND (push_bit (unat log2) 1 - 1)\<rparr>)
      else c\<lparr>slot_pulse2_counter := slot_pulse2_counter c + 1\<rparr>)"

definition timepulse_2 :: "5 word \<Rightarrow> gps_clock \<Rightarrow> gps_clock" where
  "timepulse_2 log2 c = move_slot_pointer log2 (count_pulse2 c)"

section \<open>Frame length\<close>

text \<open>\<open>curr_frame_len_log2\<close> and the thresholds, by the frame length\<close>

record frame_thres =
  frame_len_log2 :: "5 word"
  thres_cut_free_ths :: "9 word"
  thres_cut_free_ehs :: "9 word"
  thres_exp_free_ths :: "9 word"
  thres_exp_free_ehs :: "9 word"
  thres_slot_adj :: "9 word"

definition mk_thres :: "5 word \<Rightarrow> 9 word \<Rightarrow> 9 word \<Rightarrow> 9 word \<Rightarrow> 9 word \<Rightarrow> 9 word \<Rightarrow> frame_thres" where
  "mk_thres l ct ce et ee a = \<lparr>frame_len_log2 = l, thres_cut_free_ths = ct, thres_cut_free_ehs = ce,
     thres_exp_free_ths = et, thres_exp_free_ehs = ee, thres_slot_adj = a\<rparr>"

definition frame_thresholds :: "10 word \<Rightarrow> frame_thres" where
  "frame_thresholds len =
     (if len = 4 then mk_thres 2 2 2 0 0 1
      else if len = 8 then mk_thres 3 4 5 1 2 1
      else if len = 16 then mk_thres 4 12 10 2 3 2
      else if len = 32 then mk_thres 5 19 12 3 4 3
      else if len = 64 then mk_thres 6 38 25 4 5 4
      else if len = 128 then mk_thres 7 76 51 12 13 5
      else mk_thres 0 0 0 0 0 0)"

definition frame_len_edge ::
    "bool \<Rightarrow> bool \<Rightarrow> bool \<Rightarrow> bool \<Rightarrow> bool \<Rightarrow> 8 word \<Rightarrow> 10 word \<Rightarrow> 10 word" where
  "frame_len_edge reset_n adj_ena exp_bch exp_dp cut_bch default_user len =
     (if \<not> reset_n then 64
      else if adj_ena then
        if exp_bch \<or> exp_dp then push_bit 1 len
        else if cut_bch then drop_bit 1 len
        else len
      else if default_user \<noteq> 0 then ucast default_user else len)"

section \<open>The slot in a second\<close>

text \<open>\<open>n\<close> microseconds after the one that noticed the new second\<close>

definition clock_at :: "nat \<Rightarrow> nat \<Rightarrow> gps_clock \<Rightarrow> bool" where
  "clock_at l n c \<longleftrightarrow> curr_pulse1_counter c = pulse1_counter c \<and> curr_pulse1_counter2 c = pulse1_counter c \<and>
     pulse2_counter c = of_nat n \<and> slot_pulse2_counter c = of_nat (n mod 1000) \<and>
     slot_counter_1sec c = of_nat (n div 1000) \<and> slot_pointer c = of_nat ((n div 1000) mod 2 ^ l)"

lemma pulse2_999: "m < 1000 \<Longrightarrow> (of_nat m :: 10 word) = 999 \<longleftrightarrow> m = 999"
  by (simp add: word_unat_eq_iff unsigned_of_nat take_bit_nat_eq_self)

lemma pointer_mask:
  assumes "l \<le> 7"
  shows "(ucast (of_nat n :: 11 word) :: u16) AND (push_bit l 1 - 1) = of_nat (n mod 2 ^ l)"
proof -
  have "push_bit l (1 :: u16) - 1 = mask l" by (simp add: mask_eq_exp_minus_1)
  moreover have "(ucast (of_nat n :: 11 word) :: u16) AND mask l = of_nat (take_bit l n)"
    using assms by (intro bit_word_eqI) (auto simp: bit_simps)
  ultimately show ?thesis by (simp add: take_bit_eq_mod)
qed

lemma clock_step:
  assumes c: "clock_at (unat l) n c" and l: "unat l \<le> 7"
  shows "clock_at (unat l) (Suc n) (timepulse_2 l c)"
proof -
  have m: "n mod 1000 < 1000" by simp
  show ?thesis
  proof (cases "n mod 1000 = 999")
    case True
    then have "Suc n mod 1000 = 0" "Suc n div 1000 = Suc (n div 1000)" by (simp_all add: mod_Suc div_Suc)
    then show ?thesis
      using c True pulse2_999 [OF m] pointer_mask [OF l, of "Suc (n div 1000)"]
      by (simp add: clock_at_def timepulse_2_def count_pulse2_def move_slot_pointer_def Let_def ac_simps)
  next
    case False
    then have "Suc n mod 1000 = Suc (n mod 1000)" "Suc n div 1000 = n div 1000" by (simp_all add: mod_Suc div_Suc)
    then show ?thesis
      using c False pulse2_999 [OF m]
      by (simp add: clock_at_def timepulse_2_def count_pulse2_def move_slot_pointer_def ac_simps)
  qed
qed


text \<open>The clock has seen a microsecond pulse since the last second pulse.\<close>

definition caught_up :: "gps_clock \<Rightarrow> bool" where
  "caught_up c \<longleftrightarrow> curr_pulse1_counter c = pulse1_counter c \<and> curr_pulse1_counter2 c = pulse1_counter c"

definition second_later :: "u32 \<Rightarrow> 5 word \<Rightarrow> nat \<Rightarrow> gps_clock \<Rightarrow> gps_clock" where
  "second_later utc l n c = (timepulse_2 l ^^ Suc n) (timepulse_1 utc c)"

lemma clock_second:
  assumes "caught_up c" "unat l \<le> 7"
  shows "clock_at (unat l) n (second_later utc l n c)"
proof (induction n)
  case 0
  show ?case
    using assms(1) by (simp add: caught_up_def second_later_def clock_at_def timepulse_1_def timepulse_2_def
        count_pulse2_def move_slot_pointer_def)
next
  case (Suc n)
  then show ?case using clock_step [OF _ assms(2)] by (simp add: second_later_def)
qed

lemma clock_pointer:
  assumes "clock_at l n c" "l \<le> 7"
  shows "unat (slot_pointer c) = (n div 1000) mod 2 ^ l"
proof -
  have "(n div 1000) mod 2 ^ l < 2 ^ l" by simp
  also have "(2 :: nat) ^ l \<le> 2 ^ 7" using assms(2) by (intro power_increasing) auto
  finally show ?thesis using assms(1) by (simp add: clock_at_def unsigned_of_nat take_bit_nat_eq_self)
qed

text \<open>
  C27: nodes agree on the current slot. Two nodes that receive the same pulses have, \<open>n\<close> microseconds
  into a second, the slot pointers \<open>(n div 1000) mod 2 ^ l\<close> of their frame lengths \<open>2 ^ l\<close>, whatever
  their counters held before that second and however many seconds they have counted; so the
  pointer of the node with the shorter frame is the other pointer modulo its frame length. This
  holds for every \<open>n\<close>: when the next second pulse is lost, the wrap of the 11-bit slot counter does
  no harm.
\<close>

theorem gps_slots_agree:
  assumes "caught_up a" "caught_up b" "unat la \<le> unat lb" "unat lb \<le> 7"
  shows "let pa = slot_pointer (second_later u la n a); pb = slot_pointer (second_later v lb n b)
         in unat pa = (n div 1000) mod 2 ^ unat la \<and> unat pb = (n div 1000) mod 2 ^ unat lb \<and>
            unat pa = unat pb mod 2 ^ unat la"
proof -
  have la: "unat la \<le> 7" using assms(3,4) by simp
  have "(2 :: nat) ^ unat la dvd 2 ^ unat lb" using assms(3) by (rule le_imp_power_dvd)
  then show ?thesis
    using clock_pointer [OF clock_second [OF assms(1) la] la]
      clock_pointer [OF clock_second [OF assms(2,4)] assms(4)]
    by (simp add: mod_mod_cancel)
qed

definition ex_clock :: "u32 \<Rightarrow> gps_clock" where
  "ex_clock k = \<lparr>pulse1_counter = k, curr_utc_sec = 0, pulse2_counter = 7, curr_pulse1_counter = k,
     curr_pulse1_counter2 = k, slot_pointer = 5, slot_pulse2_counter = 12, slot_counter_1sec = 3\<rparr>"

theorem gps_slots_agree_witness:
  "unat (slot_pointer (second_later 1 4 20500 (ex_clock 8))) = 4 \<and>
   unat (slot_pointer (second_later 1 6 20500 (ex_clock 4294967295))) = 20"
  using gps_slots_agree [of "ex_clock 8" "ex_clock 4294967295" 4 6 1 20500 1]
  by (simp add: caught_up_def ex_clock_def Let_def)

text \<open>
  For the supported frame lengths the logarithm of the table is exact, and doubling and halving
  within 4 to 128 slots stay among them.
\<close>

definition frame_lens :: "10 word set" where
  "frame_lens = {4, 8, 16, 32, 64, 128}"

lemma frame_len_log2_exact: "len \<in> frame_lens \<Longrightarrow> unat len = 2 ^ unat (frame_len_log2 (frame_thresholds len))"
  by (auto simp: frame_lens_def frame_thresholds_def mk_thres_def)

lemma frame_len_adjusted:
  "len \<in> frame_lens \<Longrightarrow> (e \<longrightarrow> len < 128) \<Longrightarrow> (\<not> e \<longrightarrow> 4 < len) \<Longrightarrow>
     frame_len_edge True True e False (\<not> e) d len \<in> frame_lens"
  by (cases e) (auto simp: frame_lens_def frame_len_edge_def)

end
