(* ===== verification/Fpga_Fi.thy ===== *)
theory Fpga_Fi
  imports Clocked Fpga_Slot Fpga_Clock
begin

text \<open>
  The transmit path of the FPGA middleware: how \<open>tdma_control.v\<close> builds the FI packet just before
  the node's slot (\<open>FI\<close> state machine, lines 1517-1909) and ages the slot memory while it reads it.
  The packet is written bit by bit into the send memory, then handed to the bus machine; the slot
  and frame length adjustments are decided on the way.

  The machine is given clock edge by clock edge with the two block memories it uses. While it
  builds a packet the slot memory port belongs to it (lines 401-420: no FCB run and no MO access).
  Signals of the other machines are inputs.
\<close>

section \<open>Registers\<close>

datatype fi_state = FI_IDLE | FI_START_RST_BUF | FI_START_RST_BUF_LOOP | FI_START_PRE | FI_START
  | FI_LOOP_1_PRE | FI_LOOP_1 | FI_LOOP_1_UNLOCK | FI_LOOP_1_REFRESH | FI_LOOP_2 | FI_LOOP_2_WR
  | FI_ADJ_IS_NEEDED_PRE | FI_ADJ_IS_NEEDED | FI_ADJ_FRAME_LEN | FI_ADJ_WINNER_PRE | FI_ADJ_WINNER
  | FI_SET_PKT_CONTENT_START | FI_SET_PKT_CONTENT_MID | FI_SET_PKT_CONTENT_WAIT
  | FI_SET_BUF_LEN_START | FI_SET_BUF_LEN_MID | FI_SET_BUF_LEN_WAIT
  | FI_SET_FRAME_LEN_START | FI_SET_FRAME_LEN_MID | FI_SET_FRAME_LEN_WAIT
  | FI_CAL_CKS_START | FI_CAL_CKS_MID | FI_CAL_CKS_WAIT
  | FI_SET_CKS_START | FI_SET_CKS_MID | FI_SET_CKS_WAIT
  | FI_START_FCB | FI_WAIT_FCB | FI_END | FI_ERROR

datatype ipic_type = BURST_RD | BURST_WR | SINGLE_RD | SINGLE_WR | CAL_DESC_CKS

record fi_machine =
  slot_mem :: "hw_slot list"
  slot_dout :: hw_slot
  send_mem :: "u32 list"
  fi_st :: fi_state
  init_fi_done :: bool
  sendpkt_we :: bool
  sendpkt_addr :: "9 word"
  sendpkt_din :: u32
  slot_en :: bool
  slot_addr :: "7 word"
  slot_din :: hw_slot
  slot_we :: bool
  frmae_len_need_slotadj :: bool
  frmae_len_need_expand :: bool
  frmae_len_need_halve :: bool
  slot_need_adj :: bool
  adj_slot_win :: bool
  frame_half_empty :: bool
  free_ths_count :: "9 word"
  free_ehs_count :: "9 word"
  fi_initialed :: bool
  fcb_strict :: bool
  frame_cut_flag :: bool
  frame_len_exp_bch :: bool
  frame_len_cut_bch :: bool
  rst_beat_idx :: "6 word"
  is_single_flag :: bool
  frame_count :: u32
  fi_index :: "13 word"
  bit_fi_index :: "7 word"
  fi_per_slot :: fi_entry
  fi_per_slot_index :: "5 word"
  bch_c3h :: u8
  sendpkt_tmp_buf :: u32
  ipic_start :: bool
  ipic_kind :: ipic_type
  write_addr :: u32
  write_length :: "14 word"
  write_data :: u32
  read_addr :: u32
  fcb_start :: bool

record fi_input =
  reset_n :: bool
  init_fi_start :: bool
  bch_work_pointer :: u16
  bch_slot_pointer :: u16
  bch_decide_adj :: u16
  slot_now :: u16
  pulse2_now :: "10 word"
  curr_frame_len :: "10 word"
  global_sid :: u8
  slot_adj_ena :: bool
  frame_adj_ena :: bool
  adj_lower_bound :: "9 word"
  adj_upper_bound :: "9 word"
  c3hop_thres_s1 :: "9 word"
  bch_code :: "6 word"
  ipic_ack :: bool
  ipic_done :: bool
  curr_skbdata_addr :: u32
  fi_pkt_len_byte :: "11 word"
  txfifo_dread :: u32
  ptr_checksum :: u16
  fcb_done :: bool

definition thres :: "fi_input \<Rightarrow> frame_thres" where
  "thres x = frame_thresholds (curr_frame_len x)"

text \<open>\<open>curr_bch_state > BCH_WAIT_REQ_FI_INIT_WAIT\<close>: the code of that state is 7.\<close>

definition past_init :: "fi_input \<Rightarrow> bool" where
  "past_init x \<longleftrightarrow> 7 < bch_code x"

section \<open>One slot\<close>

text \<open>\<open>FI_LOOP_1_UNLOCK\<close>: the flags of one frame end, locked slots are unlocked.\<close>

definition fi_unlock :: "hw_slot \<Rightarrow> hw_slot" where
  "fi_unlock d = d\<lparr>h_c3hop_n := False, h_existed := False, h_locker := (if h_locker d then False else h_locker d)\<rparr>"

text \<open>\<open>FI_LOOP_1_REFRESH\<close>: the life time, from the memory word \<open>t\<close> into the register \<open>d\<close>\<close>

definition fi_refresh :: "u8 \<Rightarrow> hw_slot \<Rightarrow> hw_slot \<Rightarrow> hw_slot" where
  "fi_refresh me t d =
     (if h_sid t \<noteq> me \<and> h_sid t \<noteq> 0 then
        if 1 < h_life t then d\<lparr>h_life := h_life t - 1\<rparr>
        else if h_life t = 1 then
          if h_busy t = 1 then
            d\<lparr>h_life := 0, h_sid := 0, h_c2hop := 0, h_c3hop := 0, h_busy := 0, h_psf := 0,
              h_locker := False, h_c3hop_n := False\<rparr>
          else if h_busy t = 2 \<and> h_existed t then
            d\<lparr>h_busy := 1, h_life := 2, h_locker := False\<rparr>
          else
            d\<lparr>h_life := 0, h_sid := 0, h_c2hop := 0, h_c3hop := 0, h_busy := 0, h_psf := 0,
              h_locker := True, h_c3hop_n := False\<rparr>
        else d
      else d)"

definition fi_age :: "u8 \<Rightarrow> hw_slot \<Rightarrow> hw_slot" where
  "fi_age me t = fi_refresh me t (fi_unlock t)"

section \<open>Clock edges\<close>

text \<open>Waiting for the last 30 microseconds of the slot before the node's own\<close>

definition before_bch :: "fi_input \<Rightarrow> bool" where
  "before_bch x \<longleftrightarrow> 970 < pulse2_now x \<and>
     (if bch_work_pointer x = 0 then ucast (slot_now x) = (ucast (curr_frame_len x) - 1 :: u32)
      else ucast (slot_now x) = (ucast (bch_work_pointer x) - 1 :: u32))"

text \<open>\<open>FI_LOOP_1\<close>: the entry of the slot, the numbers of free slots, and whether the node is alone\<close>

definition fi_read_slot :: "fi_input \<Rightarrow> fi_machine \<Rightarrow> fi_machine" where
  "fi_read_slot x s =
     (let t = slot_dout s;
          s1 = s\<lparr>fi_per_slot := hw_entry t, fi_per_slot_index := 0, slot_din := t, fi_st := FI_LOOP_1_UNLOCK\<rparr>;
          s2 = (if h_busy t = 0 then
                  s1\<lparr>free_ths_count := free_ths_count s + 1,
                    free_ehs_count := (if h_c3hop t = 0 then free_ehs_count s + 1 else free_ehs_count s)\<rparr>
                else if drop_bit 1 (curr_frame_len x) \<le> ucast (slot_addr s)
                then s1\<lparr>frame_cut_flag := False\<rparr> else s1)
      in if h_sid t \<noteq> 0 \<and> h_sid t \<noteq> global_sid x then s2\<lparr>is_single_flag := False\<rparr> else s2)"

text \<open>\<open>FI_LOOP_2\<close> and \<open>FI_LOOP_2_WR\<close>: one bit into the data register, a full word into the send memory\<close>

definition fi_write_bit :: "fi_machine \<Rightarrow> fi_machine" where
  "fi_write_bit s =
     (let din = put_bit (unat (bit_fi_index s)) (bit (fi_per_slot s) (unat (fi_per_slot_index s))) (sendpkt_din s);
          bi = (bit_fi_index s + 1) mod 32;
          pi = fi_per_slot_index s + 1;
          s1 = s\<lparr>slot_we := False, sendpkt_din := din, bit_fi_index := bi, fi_index := fi_index s + 1,
                 fi_per_slot_index := pi\<rparr>
      in if bi = 0 then
           s1\<lparr>sendpkt_tmp_buf := (if sendpkt_addr s = 0 then din else sendpkt_tmp_buf s), sendpkt_we := True,
             fi_st := FI_LOOP_2_WR\<rparr>
         else if pi = 14 then s1\<lparr>slot_addr := slot_addr s + 1, fi_st := FI_LOOP_1_PRE\<rparr>
         else s1)"

definition fi_write_word :: "fi_machine \<Rightarrow> fi_machine" where
  "fi_write_word s =
     (let s1 = s\<lparr>sendpkt_we := False, sendpkt_addr := sendpkt_addr s + 1, sendpkt_din := 0\<rparr> in
      if fi_per_slot_index s = 14 then s1\<lparr>slot_addr := slot_addr s + 1, fi_st := FI_LOOP_1_PRE\<rparr>
      else s1\<lparr>fi_st := FI_LOOP_2\<rparr>)"

definition fi_build :: "fi_input \<Rightarrow> fi_machine \<Rightarrow> fi_machine" where
  "fi_build x s = (case fi_st s of
       FI_IDLE \<Rightarrow>
         (let s1 = s\<lparr>init_fi_done := False, frame_cut_flag := True, free_ths_count := 0, free_ehs_count := 0\<rparr> in
          if init_fi_start x then s1\<lparr>fi_initialed := True, fi_st := FI_START_PRE\<rparr>
          else if fi_initialed s \<and> before_bch x
          then s1\<lparr>frame_count := frame_count s + 1, fi_st := FI_START_RST_BUF\<rparr>
          else s1)
     | FI_START_RST_BUF \<Rightarrow>
         s\<lparr>slot_en := True, rst_beat_idx := 1, sendpkt_addr := 0, sendpkt_we := True, sendpkt_din := 0,
           fi_st := FI_START_RST_BUF_LOOP\<rparr>
     | FI_START_RST_BUF_LOOP \<Rightarrow>
         s\<lparr>sendpkt_addr := ucast (rst_beat_idx s), sendpkt_din := 0, rst_beat_idx := rst_beat_idx s + 1,
           fi_st := (if rst_beat_idx s = 57 then FI_START_PRE else FI_START_RST_BUF_LOOP)\<rparr>
     | FI_START_PRE \<Rightarrow> s\<lparr>sendpkt_we := False, slot_en := True, slot_addr := 0, fi_st := FI_START\<rparr>
     | FI_START \<Rightarrow>
         s\<lparr>is_single_flag := True, sendpkt_addr := 0,
           sendpkt_din := (sendpkt_din s AND NOT 0xfff)
             OR (ucast (frame_len_log2 (thres x)) AND 15) OR push_bit 4 (ucast (global_sid x)),
           fi_index := 12, bit_fi_index := 12, fi_st := FI_LOOP_1_PRE\<rparr>
     | FI_LOOP_1_PRE \<Rightarrow>
         (if ucast (slot_addr s) = curr_frame_len x then
            s\<lparr>slot_addr := ucast (bch_work_pointer x), sendpkt_we := True,
              fi_st := (if slot_adj_ena x then FI_ADJ_IS_NEEDED_PRE else FI_SET_PKT_CONTENT_START)\<rparr>
          else s\<lparr>fi_st := FI_LOOP_1\<rparr>)
     | FI_LOOP_1 \<Rightarrow> fi_read_slot x s
     | FI_LOOP_1_UNLOCK \<Rightarrow> s\<lparr>slot_din := fi_unlock (slot_din s), fi_st := FI_LOOP_1_REFRESH\<rparr>
     | FI_LOOP_1_REFRESH \<Rightarrow>
         s\<lparr>slot_we := True, slot_din := fi_refresh (global_sid x) (slot_dout s) (slot_din s), fi_st := FI_LOOP_2\<rparr>
     | FI_LOOP_2 \<Rightarrow> fi_write_bit s
     | FI_LOOP_2_WR \<Rightarrow> fi_write_word s
     | _ \<Rightarrow> s)"

lemmas fi_build_defs = fi_build_def fi_read_slot_def fi_write_bit_def fi_write_word_def


text \<open>The adjustment states\<close>

definition can_cut :: "fi_input \<Rightarrow> fi_machine \<Rightarrow> bool" where
  "can_cut x s \<longleftrightarrow> thres_cut_free_ehs (thres x) \<le> free_ehs_count s \<and>
     ucast (adj_lower_bound x) < curr_frame_len x"

definition fi_adj_needed :: "fi_input \<Rightarrow> fi_machine \<Rightarrow> fi_machine" where
  "fi_adj_needed x s0 =
     (let t = slot_dout s0;
          s = s0\<lparr>frame_half_empty := can_cut x s0\<rparr>
      in if past_init x then
           (let s1 =
              (if c3hop_thres_s1 x \<le> h_c3hop t \<and> thres_slot_adj (thres x) \<le> free_ehs_count s
               then s\<lparr>slot_need_adj := True, fcb_strict := True\<rparr>
               else if frame_adj_ena x then
                 (let s2 = s\<lparr>slot_need_adj := False\<rparr> in
                  if can_cut x s \<and> drop_bit 1 (ucast (curr_frame_len x)) \<le> bch_work_pointer x
                  then s2\<lparr>frmae_len_need_slotadj := True, frmae_len_need_expand := False, fcb_strict := True\<rparr>
                  else if free_ehs_count s \<le> thres_exp_free_ehs (thres x) \<and>
                          curr_frame_len x < ucast (adj_upper_bound x)
                  then s2\<lparr>frmae_len_need_slotadj := False, frmae_len_need_expand := True,
                          frame_len_exp_bch := True, fcb_strict := False\<rparr>
                  else s2\<lparr>frmae_len_need_slotadj := False, frmae_len_need_expand := False, fcb_strict := False\<rparr>)
               else s);
                s3 = (if frame_adj_ena x \<and> frame_cut_flag s \<and> can_cut x s
                      then s1\<lparr>frmae_len_need_halve := True, frame_len_cut_bch := True\<rparr>
                      else s1\<lparr>frmae_len_need_halve := False\<rparr>)
            in s3\<lparr>bch_c3h := ucast (h_c3hop t), slot_addr := ucast (bch_decide_adj x), fi_st := FI_ADJ_WINNER_PRE\<rparr>)
         else s\<lparr>fi_st := FI_SET_PKT_CONTENT_START\<rparr>)"

definition fi_adjust :: "fi_input \<Rightarrow> fi_machine \<Rightarrow> fi_machine" where
  "fi_adjust x s = (case fi_st s of
       FI_ADJ_IS_NEEDED_PRE \<Rightarrow> s\<lparr>sendpkt_we := False, fi_st := FI_ADJ_IS_NEEDED\<rparr>
     | FI_ADJ_IS_NEEDED \<Rightarrow> fi_adj_needed x s
     | FI_ADJ_WINNER_PRE \<Rightarrow> s\<lparr>frame_len_exp_bch := False, frame_len_cut_bch := False, fi_st := FI_ADJ_WINNER\<rparr>
     | FI_ADJ_WINNER \<Rightarrow>
         s\<lparr>adj_slot_win := (h_c3hop (slot_dout s) \<le> ucast (bch_c3h s) \<and> h_sid (slot_dout s) = global_sid x \<and>
             h_busy (slot_dout s) = 2),
           fi_st := (if frmae_len_need_expand s \<or> frmae_len_need_halve s then FI_ADJ_FRAME_LEN
                     else FI_SET_PKT_CONTENT_START)\<rparr>
     | FI_ADJ_FRAME_LEN \<Rightarrow>
         s\<lparr>sendpkt_addr := 0, sendpkt_we := True,
           sendpkt_din := (sendpkt_tmp_buf s AND NOT 15) OR (ucast (frame_len_log2 (thres x)) AND 15),
           fi_st := FI_SET_PKT_CONTENT_START\<rparr>
     | _ \<Rightarrow> s)"

text \<open>Handing the packet to the bus machine\<close>

definition fi_transfer :: "fi_input \<Rightarrow> fi_machine \<Rightarrow> fi_machine" where
  "fi_transfer x s = (case fi_st s of
       FI_SET_PKT_CONTENT_START \<Rightarrow>
         s\<lparr>sendpkt_we := False, ipic_start := True, ipic_kind := BURST_WR,
           write_addr := curr_skbdata_addr x + 0x20,
           write_length := (ucast (fi_pkt_len_byte x) + 4) AND 0x3FFC, fi_st := FI_SET_PKT_CONTENT_MID\<rparr>
     | FI_SET_PKT_CONTENT_MID \<Rightarrow>
         (if ipic_ack x then s\<lparr>ipic_start := False, fi_st := FI_SET_PKT_CONTENT_WAIT\<rparr> else s)
     | FI_SET_PKT_CONTENT_WAIT \<Rightarrow> (if ipic_done x then s\<lparr>fi_st := FI_SET_BUF_LEN_START\<rparr> else s)
     | FI_SET_BUF_LEN_START \<Rightarrow>
         s\<lparr>ipic_start := True, ipic_kind := SINGLE_WR, write_addr := txfifo_dread x + 12,
           write_data := push_bit 16 (0x20 + ucast (fi_pkt_len_byte x) + 4) AND 0x0fff0000,
           fi_st := FI_SET_BUF_LEN_MID\<rparr>
     | FI_SET_BUF_LEN_MID \<Rightarrow>
         (if ipic_done x then s\<lparr>ipic_start := False, fi_st := FI_SET_BUF_LEN_WAIT\<rparr> else s)
     | FI_SET_BUF_LEN_WAIT \<Rightarrow> (if ipic_done x then s\<lparr>fi_st := FI_SET_FRAME_LEN_START\<rparr> else s)
     | FI_SET_FRAME_LEN_START \<Rightarrow>
         s\<lparr>ipic_start := True, ipic_kind := SINGLE_WR, write_addr := txfifo_dread x + 44,
           write_data := ((0x20 + ucast (fi_pkt_len_byte x) + 4 + 4) AND 0xfff) OR 0x13f0000,
           fi_st := FI_SET_FRAME_LEN_MID\<rparr>
     | FI_SET_FRAME_LEN_MID \<Rightarrow>
         (if ipic_done x then s\<lparr>ipic_start := False, fi_st := FI_SET_FRAME_LEN_WAIT\<rparr> else s)
     | FI_SET_FRAME_LEN_WAIT \<Rightarrow> (if ipic_done x then s\<lparr>fi_st := FI_CAL_CKS_START\<rparr> else s)
     | FI_CAL_CKS_START \<Rightarrow>
         s\<lparr>ipic_start := True, ipic_kind := CAL_DESC_CKS, read_addr := txfifo_dread x, fi_st := FI_CAL_CKS_MID\<rparr>
     | FI_CAL_CKS_MID \<Rightarrow> (if ipic_ack x then s\<lparr>ipic_start := False, fi_st := FI_CAL_CKS_WAIT\<rparr> else s)
     | FI_CAL_CKS_WAIT \<Rightarrow> (if ipic_done x then s\<lparr>fi_st := FI_SET_CKS_START\<rparr> else s)
     | FI_SET_CKS_START \<Rightarrow>
         s\<lparr>ipic_start := True, ipic_kind := SINGLE_WR, write_addr := txfifo_dread x + 40,
           write_data := ucast (ptr_checksum x), fi_st := FI_SET_CKS_MID\<rparr>
     | FI_SET_CKS_MID \<Rightarrow> (if ipic_ack x then s\<lparr>ipic_start := False, fi_st := FI_SET_CKS_WAIT\<rparr> else s)
     | FI_SET_CKS_WAIT \<Rightarrow> (if ipic_done x then s\<lparr>fi_st := FI_START_FCB\<rparr> else s)
     | FI_START_FCB \<Rightarrow> s\<lparr>fcb_start := True, fi_st := FI_WAIT_FCB\<rparr>
     | FI_WAIT_FCB \<Rightarrow>
         (if fcb_done x then s\<lparr>fcb_start := False, fi_st := FI_END\<rparr> else s\<lparr>fcb_start := False\<rparr>)
     | FI_END \<Rightarrow>
         (let s1 = s\<lparr>init_fi_done := True, slot_en := False\<rparr> in
          if bch_slot_pointer x = 0 \<and> ucast (slot_now x) \<noteq> (ucast (curr_frame_len x) - 1 :: u32)
          then s1\<lparr>fi_st := FI_IDLE\<rparr>
          else if bch_slot_pointer x \<noteq> 0 \<and> ucast (slot_now x) \<noteq> (ucast (bch_slot_pointer x) - 1 :: u32)
          then s1\<lparr>fi_st := FI_IDLE\<rparr>
          else s1)
     | FI_ERROR \<Rightarrow> s\<lparr>fi_st := FI_ERROR\<rparr>
     | _ \<Rightarrow> s)"

definition fi_reset :: "fi_machine \<Rightarrow> fi_machine" where
  "fi_reset s = s\<lparr>fi_st := FI_IDLE, init_fi_done := False, sendpkt_we := False, slot_en := False,
     slot_we := False, fi_index := 0, frmae_len_need_slotadj := False, frmae_len_need_expand := False,
     frmae_len_need_halve := False, slot_need_adj := False, adj_slot_win := False,
     frame_half_empty := False, free_ths_count := 0, free_ehs_count := 0, fi_initialed := False,
     fcb_strict := False, frame_cut_flag := True, frame_len_exp_bch := False,
     frame_len_cut_bch := False, rst_beat_idx := 0, is_single_flag := False, frame_count := 0\<rparr>"

definition fi_logic :: "fi_input \<Rightarrow> fi_machine \<Rightarrow> fi_machine" where
  "fi_logic x s =
     (if \<not> reset_n x then fi_reset s
      else if fi_st s \<in> {FI_ADJ_IS_NEEDED_PRE, FI_ADJ_IS_NEEDED, FI_ADJ_WINNER_PRE, FI_ADJ_WINNER, FI_ADJ_FRAME_LEN}
      then fi_adjust x s
      else if fi_st s \<in> {FI_IDLE, FI_START_RST_BUF, FI_START_RST_BUF_LOOP, FI_START_PRE, FI_START, FI_LOOP_1_PRE,
        FI_LOOP_1, FI_LOOP_1_UNLOCK, FI_LOOP_1_REFRESH, FI_LOOP_2, FI_LOOP_2_WR}
      then fi_build x s
      else fi_transfer x s)"

text \<open>
  One edge with the memories: the slot port reads and writes as in \<open>Fpga_Slot\<close>; the send memory is
  written at its port A.
\<close>

definition fi_edge :: "fi_input \<Rightarrow> fi_machine \<Rightarrow> fi_machine" where
  "fi_edge x s = (fi_logic x s)\<lparr>
     slot_mem := bram_write (slot_we s) (slot_addr s) (slot_din s) (slot_mem s),
     slot_dout := bram_read (slot_we s) (slot_addr s) (slot_din s) (slot_mem s),
     send_mem := (if sendpkt_we s then (send_mem s)[unat (sendpkt_addr s) := sendpkt_din s] else send_mem s)\<rparr>"


abbreviation fi_run :: "(nat \<Rightarrow> fi_input) \<Rightarrow> nat \<Rightarrow> fi_machine \<Rightarrow> fi_machine" where
  "fi_run \<equiv> clock_run fi_edge"

section \<open>Building the packet\<close>

definition fi_building :: "fi_state set" where
  "fi_building = {FI_START_PRE, FI_START, FI_LOOP_1_PRE, FI_LOOP_1, FI_LOOP_1_UNLOCK, FI_LOOP_1_REFRESH, FI_LOOP_2,
     FI_LOOP_2_WR, FI_ADJ_IS_NEEDED_PRE, FI_SET_PKT_CONTENT_START}"

definition fi_busy_st :: "fi_machine \<Rightarrow> bool" where
  "fi_busy_st s \<longleftrightarrow> fi_st s \<in> fi_building"

definition fi_same :: "fi_input \<Rightarrow> fi_input \<Rightarrow> bool" where
  "fi_same x y \<longleftrightarrow> reset_n x = reset_n y \<and> curr_frame_len x = curr_frame_len y \<and> global_sid x = global_sid y \<and>
     bch_work_pointer x = bch_work_pointer y \<and> slot_adj_ena x = slot_adj_ena y \<and>
     curr_skbdata_addr x = curr_skbdata_addr y \<and> fi_pkt_len_byte x = fi_pkt_len_byte y"

lemma fi_busy_edge:
  assumes b: "fi_busy_st s" and i: "fi_same x y"
  shows "fi_edge x s = fi_edge y s"
proof -
  have "fi_logic x s = fi_logic y s"
    using b i unfolding fi_busy_st_def fi_building_def fi_same_def fi_logic_def thres_def
    by (cases "fi_st s") (simp_all add: fi_build_defs fi_adjust_def fi_transfer_def thres_def Let_def)
  then show ?thesis by (simp only: fi_edge_def)
qed

interpretation fim: clocked fi_edge fi_busy_st fi_same
  by unfold_locales (rule fi_busy_edge)

abbreviation fi_reaches :: "fi_input \<Rightarrow> nat \<Rightarrow> fi_machine \<Rightarrow> (fi_machine \<Rightarrow> bool) \<Rightarrow> bool" where
  "fi_reaches \<equiv> reaches fi_edge fi_busy_st"

text \<open>Bit \<open>q\<close> of the packet that describes the slots \<open>M\<close>\<close>

definition sent_bit :: "fi_input \<Rightarrow> hw_slot list \<Rightarrow> nat \<Rightarrow> bool" where
  "sent_bit x M q =
     (if q < 4 then bit (frame_len_log2 (thres x)) q
      else if q < 12 then bit (global_sid x) (q - 4)
      else bit (hw_entry (M ! ((q - 12) div 14))) ((q - 12) mod 14))"

text \<open>The bits written so far: the words in the send memory and the word in the data register\<close>

definition out_word :: "fi_machine \<Rightarrow> nat \<Rightarrow> u32" where
  "out_word s k = (if k = unat (sendpkt_addr s) then sendpkt_din s else send_mem s ! k)"

definition written :: "fi_input \<Rightarrow> hw_slot list \<Rightarrow> nat \<Rightarrow> fi_machine \<Rightarrow> bool" where
  "written x M p s \<longleftrightarrow> length (send_mem s) = 512 \<and> sendpkt_addr s = of_nat (p div 32) \<and>
     bit_fi_index s = of_nat (p mod 32) \<and> \<not> sendpkt_we s \<and>
     (\<forall>q < p. bit (out_word s (q div 32)) (q mod 32) = sent_bit x M q)"

definition aged :: "fi_input \<Rightarrow> hw_slot list \<Rightarrow> nat \<Rightarrow> hw_slot list" where
  "aged x M i = map (fi_age (global_sid x)) (take i M) @ drop i M"

definition built :: "fi_input \<Rightarrow> hw_slot list \<Rightarrow> nat \<Rightarrow> fi_machine \<Rightarrow> bool" where
  "built x M i s \<longleftrightarrow> fi_st s = FI_LOOP_1_PRE \<and> slot_addr s = of_nat i \<and> slot_mem s = aged x M i \<and>
     \<not> slot_we s \<and> written x M (12 + 14 * i) s"

definition writing :: "fi_input \<Rightarrow> hw_slot list \<Rightarrow> nat \<Rightarrow> nat \<Rightarrow> fi_machine \<Rightarrow> bool" where
  "writing x M i j s \<longleftrightarrow> fi_st s = FI_LOOP_2 \<and> slot_addr s = of_nat i \<and>
     bram_write (slot_we s) (slot_addr s) (slot_din s) (slot_mem s) = aged x M (Suc i) \<and>
     fi_per_slot s = hw_entry (M ! i) \<and> fi_per_slot_index s = of_nat j \<and> written x M (12 + 14 * i + j) s"

text \<open>The inputs: a supported frame of at most 64 slots\<close>

definition fi_inputs_ok :: "fi_input \<Rightarrow> bool" where
  "fi_inputs_ok x \<longleftrightarrow> reset_n x \<and> curr_frame_len x \<in> frame_lens - {128}"

lemma fi_inputs_len:
  "fi_inputs_ok x \<Longrightarrow> reset_n x \<and> unat (curr_frame_len x) \<le> 64 \<and> 4 \<le> unat (curr_frame_len x)"
  by (auto simp: fi_inputs_ok_def frame_lens_def)

lemma length_aged [simp]: "length (aged x M i) = length M"
  by (simp add: aged_def)

lemma nth_aged: "i < length M \<Longrightarrow> aged x M i ! i = M ! i"
  by (simp add: aged_def nth_append)

lemma aged_Suc: "i < length M \<Longrightarrow> (aged x M i)[i := fi_age (global_sid x) (M ! i)] = aged x M (Suc i)"
  by (rule nth_equalityI) (auto simp: aged_def nth_append nth_list_update less_Suc_eq)


lemma fi_edge_build:
  assumes "reset_n x" "fi_st s \<in> {FI_START_PRE, FI_START, FI_LOOP_1_PRE, FI_LOOP_1, FI_LOOP_1_UNLOCK, FI_LOOP_1_REFRESH,
      FI_LOOP_2, FI_LOOP_2_WR}"
  shows "fi_logic x s = fi_build x s" "fi_busy_st s"
  using assms by (auto simp: fi_logic_def fi_busy_st_def fi_building_def)

lemma written_same:
  assumes "written x M p s" "send_mem s' = send_mem s" "sendpkt_addr s' = sendpkt_addr s"
    "sendpkt_din s' = sendpkt_din s" "bit_fi_index s' = bit_fi_index s" "sendpkt_we s' = sendpkt_we s"
  shows "written x M p s'"
  using assms(1) unfolding written_def out_word_def assms(2-6) .

lemma loop_1_fields:
  assumes "fi_st s = FI_LOOP_1"
  shows "fi_st (fi_build x s) = FI_LOOP_1_UNLOCK" "slot_din (fi_build x s) = slot_dout s"
    "fi_per_slot (fi_build x s) = hw_entry (slot_dout s)" "fi_per_slot_index (fi_build x s) = 0"
    "slot_addr (fi_build x s) = slot_addr s" "slot_we (fi_build x s) = slot_we s"
    "sendpkt_addr (fi_build x s) = sendpkt_addr s" "sendpkt_din (fi_build x s) = sendpkt_din s"
    "bit_fi_index (fi_build x s) = bit_fi_index s" "sendpkt_we (fi_build x s) = sendpkt_we s"
  using assms by (simp_all add: fi_build_defs Let_def)

lemma enter_slot:
  assumes b: "built x M i s" and i: "i < unat (curr_frame_len x)" and x: "fi_inputs_ok x" and len: "length M = 128"
  shows "fi_reaches x 4 s (writing x M i 0)"
proof -
  have x': "reset_n x" "i < 64" using fi_inputs_len [OF x] i by auto
  have ui: "unat (of_nat i :: 7 word) = i" using x'(2) by (simp add: unsigned_of_nat take_bit_nat_eq_self)
  have ne: "ucast (of_nat i :: 7 word) \<noteq> curr_frame_len x"
  proof
    assume "ucast (of_nat i :: 7 word) = curr_frame_len x"
    from arg_cong [OF this, of unat] show False
      using x'(2) i by (simp add: unsigned_ucast_eq unsigned_of_nat take_bit_nat_eq_self)
  qed
  define s1 where "s1 = fi_edge x s"
  define s2 where "s2 = fi_edge x s1"
  define s3 where "s3 = fi_edge x s2"
  have st: "fi_st s = FI_LOOP_1_PRE" "\<not> slot_we s" "slot_addr s = of_nat i" "slot_mem s = aged x M i"
    and w: "written x M (12 + 14 * i) s" using b by (auto simp: built_def)
  have we: "\<not> sendpkt_we s" using w by (simp add: written_def)
  have e: "fi_build x s = s\<lparr>fi_st := FI_LOOP_1\<rparr>" using st ne by (simp add: fi_build_defs)
  have 1: "fi_st s1 = FI_LOOP_1" "\<not> slot_we s1" "slot_addr s1 = of_nat i" "slot_mem s1 = aged x M i" "slot_dout s1 = M ! i"
    "\<not> sendpkt_we s1" and w1: "written x M (12 + 14 * i) s1"
    using st we ui x' nth_aged [of i M x] len w
    unfolding s1_def fi_edge_def fi_edge_build(1) [OF x'(1), of s, unfolded st, simplified] e
    by (auto simp: bram_read_def bram_write_def intro: written_same)
  have 2: "fi_st s2 = FI_LOOP_1_UNLOCK" "\<not> slot_we s2" "slot_addr s2 = of_nat i" "slot_mem s2 = aged x M i" "slot_dout s2 = M ! i"
    "slot_din s2 = M ! i" "fi_per_slot s2 = hw_entry (M ! i)" "fi_per_slot_index s2 = 0" "\<not> sendpkt_we s2"
    and w2: "written x M (12 + 14 * i) s2"
    using 1 ui x' nth_aged [of i M x] len loop_1_fields [OF 1(1), of x] w1
    unfolding s2_def fi_edge_def fi_edge_build(1) [OF x'(1), of s1, unfolded 1, simplified]
    by (auto simp: bram_read_def bram_write_def intro: written_same)
  have e2: "fi_build x s2 = s2\<lparr>slot_din := fi_unlock (M ! i), fi_st := FI_LOOP_1_REFRESH\<rparr>"
    using 2 by (simp add: fi_build_defs)
  have 3: "fi_st s3 = FI_LOOP_1_REFRESH" "\<not> slot_we s3" "slot_addr s3 = of_nat i" "slot_mem s3 = aged x M i" "slot_dout s3 = M ! i"
    "slot_din s3 = fi_unlock (M ! i)" "fi_per_slot s3 = hw_entry (M ! i)" "fi_per_slot_index s3 = 0" "\<not> sendpkt_we s3"
    and w3: "written x M (12 + 14 * i) s3"
    using 2 ui x' nth_aged [of i M x] len w2
    unfolding s3_def fi_edge_def fi_edge_build(1) [OF x'(1), of s2, unfolded 2, simplified] e2
    by (auto simp: bram_read_def bram_write_def intro: written_same)
  have e3: "fi_build x s3 = s3\<lparr>slot_we := True, slot_din := fi_age (global_sid x) (M ! i), fi_st := FI_LOOP_2\<rparr>"
    using 3 by (simp add: fi_build_defs fi_age_def)
  have "writing x M i 0 (fi_edge x s3)"
    using 3 ui x' aged_Suc [of i M x] len w3
    unfolding fi_edge_def fi_edge_build(1) [OF x'(1), of s3, unfolded 3, simplified] e3 writing_def
    by (auto simp: bram_write_def intro: written_same)
  moreover have "fi_busy_st s" "fi_busy_st s1" "fi_busy_st s2" "fi_busy_st s3"
    using st 1(1) 2(1) 3(1) by (simp_all add: fi_busy_st_def fi_building_def)
  ultimately show ?thesis by (simp add: numeral_eq_Suc s1_def s2_def s3_def)
qed


text \<open>One more bit in the data register\<close>

lemma put_written:
  fixes d d' :: u32
  assumes w: "\<forall>q < p. bit (if q div 32 = p div 32 then d else m ! (q div 32)) (q mod 32) = f q" and d: "d' = put_bit (p mod 32) (f p) d"
  shows "\<forall>q < Suc p. bit (if q div 32 = p div 32 then d' else m ! (q div 32)) (q mod 32) = f q"
proof (intro allI impI)
  fix q assume q: "q < Suc p"
  have b: "bit d' k = (if k = p mod 32 then f p else bit d k)" if "k < 32" for k
    using that by (simp add: d bit_put_bit)
  show "bit (if q div 32 = p div 32 then d' else m ! (q div 32)) (q mod 32) = f q"
  proof (cases "q = p")
    case True
    then show ?thesis using b [of "p mod 32"] by simp
  next
    case False
    then have qp: "q < p" using q by simp
    have "q mod 32 \<noteq> p mod 32" if "q div 32 = p div 32" using that False by (metis div_mult_mod_eq)
    then show ?thesis using w qp b [of "q mod 32"] by (auto split: if_splits)
  qed
qed

lemma sent_bit_entry: "j < 14 \<Longrightarrow> sent_bit x M (12 + 14 * i + j) = bit (hw_entry (M ! i)) j"
  by (simp add: sent_bit_def)

lemma unat_indices:
  "p < 1000 \<Longrightarrow> unat (of_nat (p div 32) :: 9 word) = p div 32"
  "unat (of_nat (p mod 32) :: 7 word) = p mod 32" "j < 14 \<Longrightarrow> unat (of_nat j :: 5 word) = j"
proof -
  show "p < 1000 \<Longrightarrow> unat (of_nat (p div 32) :: 9 word) = p div 32" "j < 14 \<Longrightarrow> unat (of_nat j :: 5 word) = j"
    by (simp_all add: unsigned_of_nat take_bit_nat_eq_self)
  have "p mod 32 < 128" using mod_less_divisor [of 32 p] by linarith
  then show "unat (of_nat (p mod 32) :: 7 word) = p mod 32" by (simp add: unsigned_of_nat take_bit_nat_eq_self)
qed

lemma next_bit_index: "(of_nat (p mod 32) + 1 :: 7 word) mod 32 = of_nat (Suc p mod 32)"
proof (rule word_unat_eq_iff [THEN iffD2])
  have "p mod 32 < 32" by simp
  then have "unat (of_nat (p mod 32) + 1 :: 7 word) = Suc (p mod 32)"
    using unat_indices(2) [of p] by (subst unat_add_lem [THEN iffD1]) simp_all
  then show "unat ((of_nat (p mod 32) + 1 :: 7 word) mod 32) = unat (of_nat (Suc p mod 32) :: 7 word)"
    unfolding unat_indices(2) by (simp add: unat_mod mod_Suc)
qed

lemma bit_index_0: "(of_nat (p mod 32) :: 7 word) = 0 \<longleftrightarrow> p mod 32 = 0"
  by (simp only: word_unat_eq_iff unat_indices(2) unsigned_0)

definition bit_done :: "fi_input \<Rightarrow> hw_slot list \<Rightarrow> nat \<Rightarrow> nat \<Rightarrow> fi_machine \<Rightarrow> bool" where
  "bit_done x M i j s = (if Suc j = 14 then built x M (Suc i) s else writing x M i (Suc j) s)"

lemma written_bits:
  assumes w: "written x M p s" and p: "p < 999"
  shows "unat (sendpkt_addr s) = p div 32"
    "\<forall>q < p. bit (if q div 32 = p div 32 then sendpkt_din s else send_mem s ! (q div 32)) (q mod 32) = sent_bit x M q"
proof -
  show a: "unat (sendpkt_addr s) = p div 32" using w p unat_indices(1) [of p] by (simp add: written_def)
  show "\<forall>q < p. bit (if q div 32 = p div 32 then sendpkt_din s else send_mem s ! (q div 32)) (q mod 32) = sent_bit x M q"
    using w unfolding written_def out_word_def a by blast
qed

text \<open>The two edges of a bit: \<open>FI_LOOP_2\<close>, and \<open>FI_LOOP_2_WR\<close> when a word is full\<close>

lemma write_bit_stay:
  assumes w: "written x M p s" and p: "p < 999" "Suc p mod 32 \<noteq> 0"
    and t: "sendpkt_din t = put_bit (p mod 32) (sent_bit x M p) (sendpkt_din s)" "bit_fi_index t = of_nat (Suc p mod 32)"
      "sendpkt_addr t = sendpkt_addr s" "send_mem t = send_mem s" "sendpkt_we t = sendpkt_we s"
  shows "written x M (Suc p) t"
proof -
  have dv: "Suc p div 32 = p div 32" using p(2) by (simp only: div_Suc if_False)
  note b = written_bits [OF w p(1)]
  show ?thesis
    using w put_written [OF b(2) t(1)] unfolding written_def out_word_def t(2-5) dv b(1) by simp
qed

lemma write_bit_word:
  assumes w: "written x M p s" and p: "p < 999" "Suc p mod 32 = 0"
    and t: "send_mem t = (send_mem s)[p div 32 := put_bit (p mod 32) (sent_bit x M p) (sendpkt_din s)]"
      "bit_fi_index t = 0" "sendpkt_addr t = of_nat (Suc (p div 32))" "\<not> sendpkt_we t"
  shows "written x M (Suc p) t"
proof -
  have dv: "Suc p div 32 = Suc (p div 32)" using p(2) by (simp add: div_Suc)
  have u: "unat (of_nat (p div 32) :: 9 word) = p div 32" "unat (of_nat (Suc (p div 32)) :: 9 word) = Suc (p div 32)"
    using p unat_indices(1) [of p] unat_indices(1) [of "Suc p"] by (simp_all add: dv)
  have l: "length (send_mem s) = 512" using w by (simp add: written_def)
  note old = written_bits(2) [OF w p(1)]
  have "bit (out_word t (q div 32)) (q mod 32) = sent_bit x M q" if q: "q < Suc p" for q
  proof -
    have "q div 32 \<le> p div 32" using q by (intro div_le_mono) simp
    then have "out_word t (q div 32) = (if q div 32 = p div 32 then put_bit (p mod 32) (sent_bit x M p) (sendpkt_din s)
        else send_mem s ! (q div 32))"
      using l p(1) unfolding out_word_def t u by (auto simp: nth_list_update)
    then show ?thesis using put_written [OF old refl] q by simp
  qed
  then show ?thesis using l t p(2) unfolding written_def dv by simp
qed

lemma write_bit:
  assumes wr: "writing x M i j s" and j: "j < 14" and x: "fi_inputs_ok x" and i: "i < 64"
  shows "fi_reaches x 2 s (bit_done x M i j)"
proof -
  define p where "p = 12 + 14 * i + j"
  have p: "p < 999" and x': "reset_n x" using i j fi_inputs_len [OF x] by (simp_all add: p_def)
  have pS: "Suc p = (if Suc j = 14 then 12 + 14 * Suc i else 12 + 14 * i + Suc j)" by (simp add: p_def)
  have st: "fi_st s = FI_LOOP_2" "slot_addr s = of_nat i" "fi_per_slot_index s = of_nat j" "fi_per_slot s = hw_entry (M ! i)"
    "bram_write (slot_we s) (slot_addr s) (slot_din s) (slot_mem s) = aged x M (Suc i)" and w: "written x M p s"
    using wr by (auto simp: writing_def p_def)
  have w': "length (send_mem s) = 512" "sendpkt_addr s = of_nat (p div 32)" "bit_fi_index s = of_nat (p mod 32)" "\<not> sendpkt_we s"
    using w by (auto simp: written_def)
  have j14: "(of_nat j + 1 :: 5 word) = 14 \<longleftrightarrow> Suc j = 14"
  proof -
    have "unat (of_nat j + 1 :: 5 word) = Suc j"
      using unat_indices(3) [OF j] j by (subst unat_add_lem [THEN iffD1]) simp_all
    then show ?thesis by (simp add: word_unat_eq_iff)
  qed
  define din where "din = put_bit (p mod 32) (sent_bit x M p) (sendpkt_din s)"
  have put: "put_bit (unat (bit_fi_index s)) (bit (fi_per_slot s) (unat (fi_per_slot_index s))) (sendpkt_din s) = din"
    unfolding din_def st w' unat_indices(2) unat_indices(3) [OF j] p_def sent_bit_entry [OF j] ..
  have bi: "(bit_fi_index s + 1) mod 32 = of_nat (Suc p mod 32)" unfolding w'(3) by (rule next_bit_index)
  have busy: "fi_busy_st s" using st by (simp add: fi_busy_st_def fi_building_def)
  have logic: "fi_logic x s = fi_build x s" using fi_edge_build(1) [OF x', of s] st by simp
  define t where "t = s\<lparr>slot_we := False, sendpkt_din := din, bit_fi_index := of_nat (Suc p mod 32), fi_index := fi_index s + 1,
      fi_per_slot_index := of_nat j + 1\<rparr>"
  have build: "fi_build x s = (if Suc p mod 32 = 0
      then t\<lparr>sendpkt_tmp_buf := (if sendpkt_addr s = 0 then din else sendpkt_tmp_buf s), sendpkt_we := True, fi_st := FI_LOOP_2_WR\<rparr>
      else if Suc j = 14 then t\<lparr>slot_addr := slot_addr s + 1, fi_st := FI_LOOP_1_PRE\<rparr> else t)"
    unfolding fi_build_defs st(1) fi_state.case Let_def put [unfolded st(3)] bi bit_index_0 st(3) j14 t_def ..
  have dn: "bit_done x M i j u" if "written x M (Suc p) u" "\<not> slot_we u" "slot_mem u = aged x M (Suc i)"
      "fi_per_slot u = fi_per_slot s" "fi_per_slot_index u = of_nat j + 1"
      "if Suc j = 14 then fi_st u = FI_LOOP_1_PRE \<and> slot_addr u = slot_addr s + 1
       else fi_st u = FI_LOOP_2 \<and> slot_addr u = slot_addr s" for u
    using that st pS by (auto simp: bit_done_def built_def writing_def bram_write_def ac_simps)
  show ?thesis
  proof (cases "Suc p mod 32 = 0")
    case False
    have "written x M (Suc p) (fi_edge x s)"
      using False w'(4) unfolding fi_edge_def logic build t_def
      by (intro write_bit_stay [OF w p False]) (auto simp: din_def)
    then have "bit_done x M i j (fi_edge x s)"
      using False st unfolding fi_edge_def logic build t_def by (intro dn) auto
    then show ?thesis using busy by (simp add: numeral_2_eq_2)
  next
    case True
    define s1 where "s1 = fi_edge x s"
    have 1: "fi_st s1 = FI_LOOP_2_WR" "sendpkt_we s1" "sendpkt_din s1 = din" "sendpkt_addr s1 = of_nat (p div 32)"
      "send_mem s1 = send_mem s" "\<not> slot_we s1" "slot_mem s1 = aged x M (Suc i)" "slot_addr s1 = slot_addr s"
      "fi_per_slot s1 = fi_per_slot s" "fi_per_slot_index s1 = of_nat j + 1" "bit_fi_index s1 = 0"
      using True st w' unfolding s1_def fi_edge_def logic build t_def by auto
    have e: "fi_build x s1 = (let u = s1\<lparr>sendpkt_we := False, sendpkt_addr := sendpkt_addr s1 + 1, sendpkt_din := 0\<rparr>
        in if Suc j = 14 then u\<lparr>slot_addr := slot_addr s + 1, fi_st := FI_LOOP_1_PRE\<rparr> else u\<lparr>fi_st := FI_LOOP_2\<rparr>)"
      using 1 j14 by (simp add: fi_build_defs Let_def)
    have l: "fi_logic x s1 = fi_build x s1" using fi_edge_build(1) [OF x', of s1] 1 by simp
    have ad: "unat (of_nat (p div 32) :: 9 word) = p div 32" using p by (intro unat_indices(1)) simp
    have "written x M (Suc p) (fi_edge x s1)"
      using 1 ad unfolding fi_edge_def l e Let_def
      by (intro write_bit_word [OF w p True]) (auto simp: din_def ac_simps)
    then have "bit_done x M i j (fi_edge x s1)"
      using 1 unfolding fi_edge_def l e Let_def by (intro dn) (auto simp: bram_write_def)
    moreover have "fi_busy_st s1" using 1 by (simp add: fi_busy_st_def fi_building_def)
    ultimately show ?thesis using busy by (simp add: numeral_2_eq_2 s1_def)
  qed
qed

lemma bit_done_eq:
  "j < 13 \<Longrightarrow> bit_done x M i j = writing x M i (Suc j)" "bit_done x M i 13 = built x M (Suc i)"
  by (auto simp: bit_done_def fun_eq_iff)

lemma write_entry:
  assumes w: "writing x M i 0 s" and x: "fi_inputs_ok x" and i: "i < 64"
  shows "fi_reaches x 28 s (built x M (Suc i))"
proof -
  have "j \<le> 13 \<Longrightarrow> fi_reaches x (2 * j) s (writing x M i j)" for j
  proof (induction j)
    case (Suc j)
    have "fi_reaches x (2 * j + 2) s (writing x M i (Suc j))"
    proof (rule reaches_trans)
      show "fi_reaches x (2 * j) s (writing x M i j)" using Suc by simp
      fix t assume "writing x M i j t"
      from write_bit [OF this _ x i] show "fi_reaches x 2 t (writing x M i (Suc j))"
        using Suc.prems by (simp add: bit_done_eq)
    qed
    then show ?case by simp
  qed (simp add: w)
  from this [of 13] have "fi_reaches x 26 s (writing x M i 13)" by simp
  then have "fi_reaches x (26 + 2) s (built x M (Suc i))"
  proof (rule reaches_trans)
    fix t assume "writing x M i 13 t"
    from write_bit [OF this _ x i] show "fi_reaches x 2 t (built x M (Suc i))" by (simp add: bit_done_eq)
  qed
  then show ?thesis by simp
qed

lemma build_slots:
  assumes b: "built x M 0 s" and x: "fi_inputs_ok x" and len: "length M = 128" and n: "n \<le> unat (curr_frame_len x)"
  shows "fi_reaches x (32 * n) s (built x M n)"
  using n
proof (induction n)
  case (Suc n)
  have n: "n < 64" using Suc.prems fi_inputs_len [OF x] by simp
  have step: "fi_reaches x (4 + 28) t (built x M (Suc n))" if t: "built x M n t" for t
    using Suc.prems by (intro reaches_trans [OF enter_slot [OF t _ x len] write_entry [OF _ x n]]) simp_all
  have "fi_reaches x (32 * n + (4 + 28)) s (built x M (Suc n))"
    using Suc by (intro reaches_trans [OF _ step]) auto
  then show ?case by (rule reaches_le) simp
qed (simp add: b)

text \<open>The packet of the slots \<open>M\<close> in the send memory, and the slots aged by one frame\<close>

definition packet_ready :: "fi_input \<Rightarrow> hw_slot list \<Rightarrow> fi_machine \<Rightarrow> bool" where
  "packet_ready x M s \<longleftrightarrow> fi_st s \<in> {FI_ADJ_IS_NEEDED, FI_SET_PKT_CONTENT_MID} \<and> \<not> slot_we s \<and>
     length (send_mem s) = 512 \<and> slot_mem s = aged x M (unat (curr_frame_len x)) \<and>
     (\<forall>q < 12 + 14 * unat (curr_frame_len x). bit (send_mem s ! (q div 32)) (q mod 32) = sent_bit x M q)"

lemma build_end:
  assumes b: "built x M (unat (curr_frame_len x)) s" and x: "fi_inputs_ok x"
  shows "fi_reaches x 2 s (packet_ready x M)"
proof -
  let ?L = "unat (curr_frame_len x)"
  let ?p = "12 + 14 * ?L"
  have x': "reset_n x" "?L \<le> 64" using fi_inputs_len [OF x] by auto
  have st: "fi_st s = FI_LOOP_1_PRE" "slot_addr s = of_nat ?L" "slot_mem s = aged x M ?L" "\<not> slot_we s"
    and w: "written x M ?p s" using b by (auto simp: built_def)
  have p: "?p < 999" using x'(2) by simp
  note wb = written_bits [OF w p]
  have l: "length (send_mem s) = 512" "\<not> sendpkt_we s" using w by (auto simp: written_def)
  have "unat (slot_addr s) = ?L"
    unfolding st(2) unsigned_of_nat using x'(2) by (simp add: take_bit_nat_eq_self)
  then have eq: "ucast (slot_addr s) = curr_frame_len x"
    using x'(2) by (simp add: word_unat_eq_iff unsigned_ucast_eq take_bit_nat_eq_self)
  define s1 where "s1 = fi_edge x s"
  have 1: "fi_st s1 = (if slot_adj_ena x then FI_ADJ_IS_NEEDED_PRE else FI_SET_PKT_CONTENT_START)" "\<not> slot_we s1"
    "slot_mem s1 = aged x M ?L" "sendpkt_we s1" "sendpkt_addr s1 = sendpkt_addr s" "sendpkt_din s1 = sendpkt_din s"
    "send_mem s1 = send_mem s"
    using st eq l x' fi_edge_build(1) [OF x'(1), of s] unfolding s1_def fi_edge_def
    by (simp_all add: fi_build_defs bram_write_def)
  have 2: "fi_st (fi_edge x s1) \<in> {FI_ADJ_IS_NEEDED, FI_SET_PKT_CONTENT_MID}" "\<not> slot_we (fi_edge x s1)"
    "slot_mem (fi_edge x s1) = aged x M ?L"
    "send_mem (fi_edge x s1) = (send_mem s)[?p div 32 := sendpkt_din s]"
    using 1 x' wb(1) unfolding fi_edge_def fi_logic_def
    by (simp_all add: fi_adjust_def fi_transfer_def bram_write_def)
  have "bit ((send_mem s)[?p div 32 := sendpkt_din s] ! (q div 32)) (q mod 32) = sent_bit x M q" if q: "q < ?p" for q
  proof -
    have "q div 32 \<le> ?p div 32" using q by (intro div_le_mono) simp
    moreover have "?p div 32 < 512" using p by simp
    ultimately have "(send_mem s)[?p div 32 := sendpkt_din s] ! (q div 32) =
        (if q div 32 = ?p div 32 then sendpkt_din s else send_mem s ! (q div 32))"
      using l by (simp add: nth_list_update)
    then show ?thesis using wb(2) q by (simp only:)
  qed
  then have "packet_ready x M (fi_edge x s1)" unfolding packet_ready_def using 2 l by simp
  moreover have "fi_busy_st s" "fi_busy_st s1" using st 1(1) by (simp_all add: fi_busy_st_def fi_building_def)
  ultimately show ?thesis by (simp add: numeral_2_eq_2 s1_def)
qed


lemma header_bits:
  fixes d :: u32 and l :: "5 word" and sid :: u8
  assumes "q < 12"
  shows "bit ((d AND NOT 0xfff) OR (ucast l AND 15) OR push_bit 4 (ucast sid)) q = (if q < 4 then bit l q else bit sid (q - 4))"
proof -
  have m: "(0xfff :: u32) = mask 12" "(15 :: u32) = mask 4" by (simp_all add: mask_eq_exp_minus_1)
  show ?thesis unfolding m using assms
    by (auto simp: bit_simps dest: bit_imp_le_length)
qed

lemma build_start:
  assumes s: "fi_st s = FI_START_PRE" "\<not> slot_we s" "length (send_mem s) = 512" and x: "fi_inputs_ok x"
  shows "fi_reaches x 2 s (built x (slot_mem s) 0)"
proof -
  have x': "reset_n x" using fi_inputs_len [OF x] by simp
  define s1 where "s1 = fi_edge x s"
  have 1: "fi_st s1 = FI_START" "\<not> slot_we s1" "length (send_mem s1) = 512" "slot_mem s1 = slot_mem s" "slot_addr s1 = 0"
    "\<not> sendpkt_we s1"
    using s fi_edge_build(1) [OF x', of s] unfolding s1_def fi_edge_def
    by (simp_all add: fi_build_defs bram_write_def)
  define t where "t = fi_edge x s1"
  have t: "fi_st t = FI_LOOP_1_PRE" "\<not> slot_we t" "slot_addr t = 0" "slot_mem t = slot_mem s" "\<not> sendpkt_we t"
    "length (send_mem t) = 512" "sendpkt_addr t = 0" "bit_fi_index t = 12"
    "sendpkt_din t = (sendpkt_din s1 AND NOT 0xfff) OR (ucast (frame_len_log2 (thres x)) AND 15)
        OR push_bit 4 (ucast (global_sid x))"
    using 1 fi_edge_build(1) [OF x', of s1] unfolding t_def fi_edge_def
    by (simp_all add: fi_build_defs bram_write_def)
  have "bit (out_word t (q div 32)) (q mod 32) = sent_bit x (slot_mem s) q" if "q < 12" for q
    using that header_bits [OF that, of "sendpkt_din s1" "frame_len_log2 (thres x)" "global_sid x"]
    unfolding out_word_def t(7,9) sent_bit_def by simp
  then have "built x (slot_mem s) 0 t" using t by (simp add: built_def aged_def written_def)
  moreover have "fi_busy_st s" "fi_busy_st s1" using s 1(1) by (simp_all add: fi_busy_st_def fi_building_def)
  ultimately show ?thesis by (simp add: numeral_2_eq_2 s1_def t_def)
qed

lemma packet_built:
  assumes "fi_st s = FI_START_PRE" "\<not> slot_we s" "length (send_mem s) = 512" "length (slot_mem s) = 128" "fi_inputs_ok x"
  shows "fi_reaches x (32 * unat (curr_frame_len x) + 4) s (packet_ready x (slot_mem s))"
proof -
  have "fi_reaches x (2 + 32 * unat (curr_frame_len x)) s (built x (slot_mem s) (unat (curr_frame_len x)))"
    by (rule reaches_trans [OF build_start [OF assms(1-3,5)] build_slots [OF _ assms(5,4) order_refl]])
  then have "fi_reaches x (2 + 32 * unat (curr_frame_len x) + 2) s (packet_ready x (slot_mem s))"
    by (rule reaches_trans) (rule build_end [OF _ assms(5)])
  then show ?thesis by (rule reaches_le) simp
qed

end
