(* ===== verification/Fpga_Link.thy ===== *)
theory Fpga_Link
  imports Fpga_Update Fpga_Fi
begin

text \<open>
  Two FPGA nodes: the FI packet that \<open>tdma_control.v\<close> of one node builds is the packet that
  \<open>desc_processor.v\<close> of another merges. The radio, the driver and the bus in between are not
  modelled; the received bytes are taken to be the sent ones, at the offset of the payload.
\<close>

section \<open>Well-formed slot words\<close>

lemma own_pass_ok: "slot_word_ok t \<Longrightarrow> me \<noteq> 0 \<Longrightarrow> slot_word_ok (own_pass me P i t)"
  by (auto simp: slot_word_ok_def own_pass_def stu_result_slot_def stu_own_def stu_own_other_def Let_def)

lemma other_pass_ok: "slot_word_ok t \<Longrightarrow> slot_word_ok (other_pass me P i t)"
  unfolding other_pass_def stu_other_def stu_result_slot_def
  by (cases "h_locker t"; cases "h_busy t = 2"; cases "h_busy t = 1"; cases "h_busy t = 0")
    (auto simp: slot_word_ok_def stu_other_1hop_def stu_other_2hop_def stu_other_free_def Let_def)

lemma fi_age_ok: "slot_word_ok t \<Longrightarrow> slot_word_ok (fi_age me t)"
  by (auto simp: slot_word_ok_def fi_age_def fi_refresh_def fi_unlock_def)

lemma apply_upto_all:
  "(\<And>i t. ok t \<Longrightarrow> ok (f i t)) \<Longrightarrow> \<forall>t \<in> set xs. ok t \<Longrightarrow> \<forall>t \<in> set (apply_upto f n xs). ok t"
  by (auto simp: apply_upto_def)

text \<open>
  C26: the slot words of the FPGA are well-formed: a slot is free exactly when it has no occupier.
  Merging any received packet, also a malformed one, keeps this for the whole memory, and so do
  ageing the memory when a packet is built, taking a slot and giving it up.
\<close>

theorem slot_words_stay_well_formed:
  assumes "\<forall>t \<in> set M. slot_word_ok t" "me \<noteq> 0"
  shows "(\<forall>t \<in> set (hw_merge me P M). slot_word_ok t) \<and> (\<forall>t \<in> set (aged x M n). slot_word_ok t) \<and>
     slot_word_ok (hw_own me p d) \<and> slot_word_ok (hw_free d)"
proof (intro conjI)
  show "\<forall>t \<in> set (hw_merge me P M). slot_word_ok t"
    unfolding hw_merge_def Let_def
    using assms by (intro apply_upto_all) (auto intro: own_pass_ok other_pass_ok)
  show "\<forall>t \<in> set (aged x M n). slot_word_ok t"
    using assms(1) by (auto simp: aged_def intro: fi_age_ok dest: in_set_takeD in_set_dropD)
qed (use assms(2) in \<open>simp_all add: slot_word_ok_def hw_own_def hw_free_def\<close>)

theorem slot_words_stay_well_formed_witness:
  "slot_word_ok (hw_merge 7 (replicate 512 0) [ex_slot 2 7, ex_slot 0 0] ! 0) \<and>
   slot_word_ok (hw_merge 7 (replicate 512 0) [ex_slot 2 7, ex_slot 0 0] ! 1)"
proof -
  let ?M = "[ex_slot 2 7, ex_slot 0 0]"
  have "\<forall>t \<in> set (hw_merge 7 (replicate 512 0) ?M). slot_word_ok t"
    using slot_words_stay_well_formed [of ?M 7 "replicate 512 0"] by (simp add: slot_word_ok_def ex_slot_def)
  moreover have "length (hw_merge 7 (replicate 512 0) ?M) = 2" by (simp add: hw_merge_def Let_def)
  ultimately show ?thesis by simp
qed

section \<open>Round trip\<close>

text \<open>
  The length of the packet in bytes, which the FI machine hands to the DMA engine, and a packet
  memory into which that many bytes of the send memory have come, at the payload offset of the
  receiver
\<close>

definition fi_pkt_bytes :: "10 word \<Rightarrow> nat" where
  "fi_pkt_bytes len = unat (drop_bit 2 len) * 7 + 2"

definition delivered :: "nat \<Rightarrow> fi_machine \<Rightarrow> u32 list \<Rightarrow> bool" where
  "delivered n a P \<longleftrightarrow>
     (\<forall>q < 8 * n. bit (P ! (20 + q div 32)) (q mod 32) = bit (send_mem a ! (q div 32)) (q mod 32))"

abbreviation received :: "fi_input \<Rightarrow> fi_machine \<Rightarrow> u32 list \<Rightarrow> bool" where
  "received x \<equiv> delivered (fi_pkt_bytes (fi_input.curr_frame_len x))"

lemma packet_fits_bytes: "fi_inputs_ok x \<Longrightarrow> 12 + 14 * unat (fi_input.curr_frame_len x) \<le> 8 * fi_pkt_bytes (fi_input.curr_frame_len x)"
  by (auto simp: fi_inputs_ok_def frame_lens_def fi_pkt_bytes_def)

lemma delivered_bit:
  assumes "packet_ready x M a" "received x a P" "fi_inputs_ok x" "q < 12 + 14 * unat (fi_input.curr_frame_len x)"
  shows "pkt_bit P q = sent_bit x M q"
  using assms packet_fits_bytes [OF assms(3)] by (simp add: pkt_bit_def packet_ready_def delivered_def)

lemma pkt_entry_bit: "j < 14 \<Longrightarrow> bit (pkt_entry P i) j = pkt_bit P (12 + 14 * i + j)"
proof -
  have "bit (foldr (\<lambda>j. put_bit j (f j)) [0..<n] (0 :: fi_entry)) j \<longleftrightarrow> j < n \<and> j < 14 \<and> f j" for n f j
  proof -
    have "bit (foldr (\<lambda>j. put_bit j (f j)) js (w :: fi_entry)) j \<longleftrightarrow> (if j \<in> set js \<and> j < 14 then f j else bit w j)" for js w
      by (induction js) (auto simp: bit_put_bit)
    then show ?thesis by auto
  qed
  then show "j < 14 \<Longrightarrow> bit (pkt_entry P i) j = pkt_bit P (12 + 14 * i + j)" by (simp add: pkt_entry_def)
qed

lemma sent_header:
  assumes "packet_ready x M a" "received x a P" "fi_inputs_ok x"
  shows "pkt_sender P = fi_input.global_sid x" "pkt_frame_len P = unat (fi_input.curr_frame_len x)"
proof -
  have b: "bit (P ! 20) q = (if q < 4 then bit (frame_len_log2 (thres x)) q else bit (fi_input.global_sid x) (q - 4))"
    if "q < 12" for q
    using that delivered_bit [OF assms, of q] by (simp add: pkt_bit_def sent_bit_def)
  show "pkt_sender P = fi_input.global_sid x"
    by (rule bit_word_eqI) (simp add: pkt_sender_def bit_simps b)
  have m: "(15 :: u32) = mask 4" by (simp add: mask_eq_exp_minus_1)
  have l: "frame_len_log2 (thres x) \<in> {2, 3, 4, 5, 6}"
    using assms(3) by (auto simp: fi_inputs_ok_def frame_lens_def thres_def frame_thresholds_def mk_thres_def)
  have "P ! 20 AND 15 = (ucast (frame_len_log2 (thres x)) AND mask 4 :: u32)"
    unfolding m by (rule bit_word_eqI) (auto simp: bit_simps b)
  also have "\<dots> = ucast (frame_len_log2 (thres x))" using l by (auto simp: mask_eq_exp_minus_1)
  finally have "unat (P ! 20 AND 15) = unat (frame_len_log2 (thres x))" using l by auto
  then show "pkt_frame_len P = unat (fi_input.curr_frame_len x)"
    using frame_len_log2_exact [of "fi_input.curr_frame_len x"] assms(3)
    by (simp add: pkt_frame_len_def thres_def fi_inputs_ok_def)
qed

lemma sent_entry:
  assumes "packet_ready x M a" "received x a P" "fi_inputs_ok x" "i < unat (fi_input.curr_frame_len x)"
  shows "pkt_entry P i = hw_entry (M ! i)"
proof (rule bit_word_eqI)
  fix j assume "j < LENGTH(14)"
  then show "bit (pkt_entry P i) j = bit (hw_entry (M ! i)) j"
    using delivered_bit [OF assms(1-3), of "12 + 14 * i + j"] assms(4)
    by (simp add: pkt_entry_bit sent_bit_entry)
qed

definition entry_of :: "fi_entry \<Rightarrow> hw_slot \<Rightarrow> bool" where
  "entry_of f t \<longleftrightarrow> fi_busy f = h_busy t \<and> fi_sid f = h_sid t \<and> fi_psf f = h_psf t \<and>
     unat (fi_count f) = min 3 (unat (h_c2hop t))"

lemma hw_entry_of: "entry_of (hw_entry t) t"
proof -
  have "unat (if 3 < c then 3 else ucast c :: 2 word) = min 3 (unat c)" for c :: u8
    by (auto simp: word_less_nat_alt unsigned_ucast_eq take_bit_nat_eq_self min_def)
  then show ?thesis by (simp add: entry_of_def hw_entry_fields)
qed

lemma packet_is_built:
  assumes "\<And>n. fi_same x (inp n)" "fi_inputs_ok x" "fi_st s = FI_START_PRE" "\<not> fi_machine.slot_we s"
    and "length (send_mem s) = 512" "length (fi_machine.slot_mem s) = 128"
  shows "\<exists>n \<le> 32 * unat (fi_input.curr_frame_len x) + 4.
     packet_ready x (fi_machine.slot_mem s) (clock_run fi_edge inp n s)"
  using fim.reaches_run [OF packet_built [OF assms(3-6,2)], of inp] assms(1) by blast

text \<open>
  C9: what one node packs into an FI packet another node unpacks again. Within \<open>32 * L + 4\<close> clock
  edges after the FI machine of \<open>tdma_control.v\<close> was started for a frame of \<open>L\<close> slots, its send memory
  holds a packet from which \<open>desc_processor.v\<close> reads the frame length, the identifier of the sender
  and, for every slot, status, occupier and priority as they were in the slot memory of the sender
  and the two-hop count, saturated at 3. The slot memory of the sender has aged by one frame. This is the packet
  before a change of the frame length, which rewrites the four length bits of its first word.
\<close>

theorem fi_packet_round_trip:
  assumes "\<And>n. fi_same x (inp n)" "fi_inputs_ok x" "fi_st s = FI_START_PRE" "\<not> fi_machine.slot_we s"
    and "length (send_mem s) = 512" "length (fi_machine.slot_mem s) = 128"
  shows "\<exists>n \<le> 32 * unat (fi_input.curr_frame_len x) + 4.
     fi_machine.slot_mem (clock_run fi_edge inp n s)
       = aged x (fi_machine.slot_mem s) (unat (fi_input.curr_frame_len x)) \<and>
     (\<forall>P. received x (clock_run fi_edge inp n s) P \<longrightarrow>
        pkt_frame_len P = unat (fi_input.curr_frame_len x) \<and> pkt_sender P = fi_input.global_sid x \<and>
        (\<forall>i < pkt_frame_len P. entry_of (pkt_entry P i) (fi_machine.slot_mem s ! i)))"
proof -
  from packet_is_built [of x inp s, OF assms] obtain n where n: "n \<le> 32 * unat (fi_input.curr_frame_len x) + 4"
    "packet_ready x (fi_machine.slot_mem s) (clock_run fi_edge inp n s)" by blast
  have "pkt_frame_len P = unat (fi_input.curr_frame_len x) \<and> pkt_sender P = fi_input.global_sid x \<and>
      (\<forall>i < pkt_frame_len P. entry_of (pkt_entry P i) (fi_machine.slot_mem s ! i))"
    if d: "received x (clock_run fi_edge inp n s) P" for P
  proof (intro conjI allI impI)
    show l: "pkt_frame_len P = unat (fi_input.curr_frame_len x)" "pkt_sender P = fi_input.global_sid x"
      by (rule sent_header [OF n(2) d assms(2)])+
    fix i assume "i < pkt_frame_len P"
    then have "pkt_entry P i = hw_entry (fi_machine.slot_mem s ! i)"
      unfolding l(1) by (rule sent_entry [OF n(2) d assms(2)])
    then show "entry_of (pkt_entry P i) (fi_machine.slot_mem s ! i)" by (simp only: hw_entry_of)
  qed
  moreover have "fi_machine.slot_mem (clock_run fi_edge inp n s)
      = aged x (fi_machine.slot_mem s) (unat (fi_input.curr_frame_len x))"
    using n(2) unfolding packet_ready_def by blast
  ultimately show ?thesis using n(1) by blast
qed


text \<open>Node 5 is about to build a packet: it holds slot 1 and has node 9 in slot 2.\<close>

definition ex_fi_input :: fi_input where
  "ex_fi_input = \<lparr>reset_n = True, init_fi_start = False, bch_work_pointer = 1, bch_slot_pointer = 1,
     bch_decide_adj = 0, slot_now = 0, pulse2_now = 0, curr_frame_len = 4, global_sid = 5, slot_adj_ena = False,
     frame_adj_ena = False, adj_lower_bound = 4, adj_upper_bound = 64, c3hop_thres_s1 = 3, bch_code = 11,
     ipic_ack = False, ipic_done = False, curr_skbdata_addr = 0, fi_pkt_len_byte = 0, txfifo_dread = 0,
     ptr_checksum = 0, fcb_done = False\<rparr>"

definition ex_fi_machine :: fi_machine where
  "ex_fi_machine = \<lparr>slot_mem = [ex_slot 0 0, ex_slot 2 5, ex_slot 2 9] @ replicate 125 (ex_slot 0 0),
     slot_dout = ex_slot 0 0, send_mem = replicate 512 0, fi_st = FI_START_PRE, init_fi_done = False,
     sendpkt_we = False, sendpkt_addr = 0, sendpkt_din = 0, slot_en = True, slot_addr = 0, slot_din = ex_slot 0 0,
     slot_we = False, frmae_len_need_slotadj = False, frmae_len_need_expand = False, frmae_len_need_halve = False,
     slot_need_adj = False, adj_slot_win = False, frame_half_empty = True, free_ths_count = 0, free_ehs_count = 0,
     fi_initialed = True, fcb_strict = False, frame_cut_flag = False, frame_len_exp_bch = False,
     frame_len_cut_bch = False, rst_beat_idx = 0, is_single_flag = True, frame_count = 0, fi_index = 0,
     bit_fi_index = 0, fi_per_slot = 0, fi_per_slot_index = 0, bch_c3h = 0, sendpkt_tmp_buf = 0,
     ipic_start = False, ipic_kind = BURST_WR, write_addr = 0, write_length = 0, write_data = 0, read_addr = 0,
     fcb_start = False\<rparr>"

lemma ex_fi_ok:
  "fi_inputs_ok ex_fi_input" "fi_same ex_fi_input ex_fi_input" "fi_st ex_fi_machine = FI_START_PRE"
  "\<not> fi_machine.slot_we ex_fi_machine" "length (send_mem ex_fi_machine) = 512"
  "length (fi_machine.slot_mem ex_fi_machine) = 128" "unat (fi_input.curr_frame_len ex_fi_input) = 4"
  "fi_input.global_sid ex_fi_input = 5"
  by (simp_all add: fi_inputs_ok_def frame_lens_def fi_same_def ex_fi_input_def ex_fi_machine_def)

lemma ex_fi_slots:
  "fi_machine.slot_mem ex_fi_machine ! 1 = ex_slot 2 5" "fi_machine.slot_mem ex_fi_machine ! 2 = ex_slot 2 9"
  by (simp_all add: ex_fi_machine_def)

theorem fi_packet_round_trip_witness:
  "\<exists>n \<le> 132. \<forall>P. received ex_fi_input (clock_run fi_edge (\<lambda>_. ex_fi_input) n ex_fi_machine) P \<longrightarrow>
     pkt_frame_len P = 4 \<and> pkt_sender P = 5 \<and> fi_sid (pkt_entry P 2) = 9"
proof -
  from fi_packet_round_trip [of ex_fi_input "\<lambda>_. ex_fi_input" ex_fi_machine, OF ex_fi_ok(2,1,3-6), unfolded ex_fi_ok(7,8)]
  obtain n where n: "n \<le> 32 * 4 + 4" "\<And>P. received ex_fi_input (clock_run fi_edge (\<lambda>_. ex_fi_input) n ex_fi_machine) P \<Longrightarrow>
     pkt_frame_len P = 4 \<and> pkt_sender P = 5 \<and> (\<forall>i < pkt_frame_len P. entry_of (pkt_entry P i) (fi_machine.slot_mem ex_fi_machine ! i))"
    by blast
  have "fi_sid (pkt_entry P 2) = 9" if "received ex_fi_input (clock_run fi_edge (\<lambda>_. ex_fi_input) n ex_fi_machine) P" for P
    using n(2) [OF that] ex_fi_slots(2) by (auto simp: entry_of_def ex_slot_def)
  then show ?thesis using n by (intro exI [of _ n]) simp
qed


section \<open>From one node to the other\<close>

text \<open>
  What the receiver \<open>me\<close> shall make of a slot \<open>b\<close> for which the sender has the word \<open>a\<close>: a slot the
  sender holds is entered when it is free, and an own slot that the sender confirms is kept.
\<close>

definition learnt :: "u8 \<Rightarrow> u8 \<Rightarrow> hw_slot \<Rightarrow> hw_slot \<Rightarrow> hw_slot \<Rightarrow> bool" where
  "learnt sender me a b b' \<longleftrightarrow>
     (h_busy a = 2 \<and> h_sid a = sender \<and> h_busy b = 0 \<and> h_sid b = 0 \<and> \<not> h_locker b \<longrightarrow>
        h_busy b' = 2 \<and> h_sid b' = sender \<and> h_life b' = 3 \<and> h_c2hop b' = 1 \<and> h_psf b' = h_psf a) \<and>
     (h_sid a = me \<and> h_sid b = me \<longrightarrow> b' = b)"

lemma passes_learn:
  assumes "pkt_entry P i = hw_entry a" "slot_word_ok a" "me \<noteq> 0" "pkt_sender P \<noteq> me"
  shows "learnt (pkt_sender P) me a b (other_pass me P i (own_pass me P i b))"
  using assms unfolding learnt_def slot_word_ok_def own_pass_def other_pass_def stu_own_def stu_other_def stu_result_slot_def
  by (auto simp: hw_entry_fields stu_other_free_def)

lemma hw_merge_nth:
  "i < pkt_frame_len P \<Longrightarrow> i < length M \<Longrightarrow> hw_merge me P M ! i = other_pass me P i (own_pass me P i (M ! i))"
  by (simp add: hw_merge_def Let_def)

lemma sent_not_malformed:
  assumes "packet_ready x M a" "received x a P" "fi_inputs_ok x" "i < unat (fi_input.curr_frame_len x)"
    and "slot_word_ok (M ! i)"
  shows "\<not> malformed me P i t"
  unfolding malformed_def sent_entry [OF assms(1-4)] hw_entry_fields using assms(5) by (simp add: slot_word_ok_def)

text \<open>The receiver is ready for a packet: reset is over, its number is set, and \<open>stu_start\<close> is raised.\<close>

definition receiver_ok :: "dp_input \<Rightarrow> (nat \<Rightarrow> dp_input) \<Rightarrow> bool" where
  "receiver_ok y rinp \<longleftrightarrow> (\<forall>n. same_inputs y (rinp n)) \<and> dp_input.reset_n y \<and>
     unat (dp_input.curr_frame_len y) < 512 \<and> dp_input.global_sid y \<noteq> 0 \<and> stu_start (rinp 0)"

lemma packet_is_merged:
  assumes r: "packet_ready x M a" "received x a (pkt_mem r)" "fi_inputs_ok x" and M: "length M = 128" "\<forall>t \<in> set M. slot_word_ok t"
    and y: "receiver_ok y rinp" "dp_input.global_sid y \<noteq> fi_input.global_sid x" "dp_idle r"
  shows "\<exists>m \<le> update_edges (pkt_mem r) y. stu_done (clock_run dp_edge rinp m r) \<and>
     (\<forall>i < unat (fi_input.curr_frame_len x). learnt (fi_input.global_sid x) (dp_input.global_sid y) (M ! i)
        (dproc.slot_mem r ! i) (dproc.slot_mem (clock_run dp_edge rinp m r) ! i))"
proof -
  let ?P = "pkt_mem r" and ?me = "dp_input.global_sid y"
  note hd = sent_header [OF r]
  have L: "unat (fi_input.curr_frame_len x) \<le> 64" using fi_inputs_len [OF r(3)] by simp
  have ok: "slot_word_ok (M ! i)" if "i < unat (fi_input.curr_frame_len x)" for i using M that L by simp
  have iok: "inputs_ok y ?P" "stu_start (rinp 0)" "\<And>n. same_inputs y (rinp n)" "?me \<noteq> 0"
    using y(1) L by (simp_all add: receiver_ok_def inputs_ok_def hd)
  have mal: "\<And>i. i < pkt_frame_len ?P \<Longrightarrow> \<not> malformed ?me ?P i (dproc.slot_mem r ! i)"
    unfolding hd by (rule sent_not_malformed [OF r _ ok])
  from stu_update_run [of y rinp r, OF iok(3,1,2) y(3) mal] obtain m where
    m: "m \<le> update_edges ?P y" "stu_done (clock_run dp_edge rinp m r)"
      "dproc.slot_mem (clock_run dp_edge rinp m r) = hw_merge ?me ?P (dproc.slot_mem r)" by blast
  have "learnt (fi_input.global_sid x) ?me (M ! i) (dproc.slot_mem r ! i) (hw_merge ?me ?P (dproc.slot_mem r) ! i)"
    if i: "i < unat (fi_input.curr_frame_len x)" for i
  proof -
    have "i < pkt_frame_len ?P" "i < length (dproc.slot_mem r)" using i L y(3) by (simp_all add: hd dp_idle_def)
    from hw_merge_nth [OF this, of ?me] show ?thesis
      using passes_learn [OF sent_entry [OF r i] ok [OF i] iok(4), of "dproc.slot_mem r ! i"] y(2) by (simp add: hd)
  qed
  then show ?thesis using m by (intro exI [of _ m]) simp
qed

text \<open>
  C4: two FPGA nodes. A node with well-formed slot words has an FI packet in its send memory within
  \<open>32 * L + 4\<close> clock edges. Every other node that receives this packet merges it within its bound and
  does not stop at a malformed entry. Afterwards every slot of the sender that was free at the
  receiver is there held by the sender as a direct neighbour with a full lifetime and the sender's
  priority, and every slot of the receiver that the sender reports as the receiver's is left exactly
  as it was.
\<close>

theorem fpga_nodes_exchange_slots:
  assumes "\<And>n. fi_same x (inp n)" "fi_inputs_ok x" "fi_st s = FI_START_PRE" "\<not> fi_machine.slot_we s"
    and "length (send_mem s) = 512" "length (fi_machine.slot_mem s) = 128" "\<forall>t \<in> set (fi_machine.slot_mem s). slot_word_ok t"
    and "receiver_ok y rinp" "dp_input.global_sid y \<noteq> fi_input.global_sid x"
  shows "\<exists>n \<le> 32 * unat (fi_input.curr_frame_len x) + 4.
     \<forall>r. dp_idle r \<and> received x (clock_run fi_edge inp n s) (pkt_mem r) \<longrightarrow>
       (\<exists>m \<le> update_edges (pkt_mem r) y. stu_done (clock_run dp_edge rinp m r) \<and>
         (\<forall>i < unat (fi_input.curr_frame_len x). learnt (fi_input.global_sid x) (dp_input.global_sid y)
            (fi_machine.slot_mem s ! i) (dproc.slot_mem r ! i) (dproc.slot_mem (clock_run dp_edge rinp m r) ! i)))"
proof -
  from packet_is_built [of x inp s, OF assms(1-6)] obtain n where n: "n \<le> 32 * unat (fi_input.curr_frame_len x) + 4"
    "packet_ready x (fi_machine.slot_mem s) (clock_run fi_edge inp n s)" by blast
  show ?thesis
  proof (rule exI [of _ n], intro conjI allI impI n(1))
    fix r assume "dp_idle r \<and> received x (clock_run fi_edge inp n s) (pkt_mem r)"
    then have r: "dp_idle r" "received x (clock_run fi_edge inp n s) (pkt_mem r)" by simp_all
    show "\<exists>m \<le> update_edges (pkt_mem r) y. stu_done (clock_run dp_edge rinp m r) \<and>
        (\<forall>i < unat (fi_input.curr_frame_len x). learnt (fi_input.global_sid x) (dp_input.global_sid y)
           (fi_machine.slot_mem s ! i) (dproc.slot_mem r ! i) (dproc.slot_mem (clock_run dp_edge rinp m r) ! i))"
      by (rule packet_is_merged [OF n(2) r(2) assms(2,6,7,8,9) r(1)])
  qed
qed

lemma ex_receiver_ok: "receiver_ok ex_input (\<lambda>_. ex_input)"
  by (simp add: receiver_ok_def same_inputs_def ex_input_def)

theorem fpga_nodes_exchange_slots_witness:
  "\<exists>n \<le> 132. \<forall>r. dp_idle r \<and> received ex_fi_input (clock_run fi_edge (\<lambda>_. ex_fi_input) n ex_fi_machine) (pkt_mem r) \<and>
       dproc.slot_mem r ! 1 = ex_slot 0 0 \<longrightarrow>
     (\<exists>m. stu_done (clock_run dp_edge (\<lambda>_. ex_input) m r) \<and>
       h_sid (dproc.slot_mem (clock_run dp_edge (\<lambda>_. ex_input) m r) ! 1) = 5)"
proof -
  have 1: "\<forall>t \<in> set (fi_machine.slot_mem ex_fi_machine). slot_word_ok t" "dp_input.global_sid ex_input \<noteq> fi_input.global_sid ex_fi_input"
    by (simp_all add: ex_fi_machine_def ex_slot_def slot_word_ok_def ex_input_def ex_fi_input_def)
  have 2: "learnt 5 me (ex_slot 2 5) (ex_slot 0 0) b' \<Longrightarrow> h_sid b' = 5" for me b'
    by (simp add: learnt_def ex_slot_def)
  from fpga_nodes_exchange_slots [of ex_fi_input "\<lambda>_. ex_fi_input" ex_fi_machine, OF ex_fi_ok(2,1,3-6) 1(1) ex_receiver_ok 1(2),
      unfolded ex_fi_ok(7,8)]
  obtain n where n: "n \<le> 32 * 4 + 4" "\<And>r. dp_idle r \<and> received ex_fi_input (clock_run fi_edge (\<lambda>_. ex_fi_input) n ex_fi_machine) (pkt_mem r) \<Longrightarrow>
      \<exists>m. stu_done (clock_run dp_edge (\<lambda>_. ex_input) m r) \<and> (\<forall>i < 4. learnt 5 (dp_input.global_sid ex_input)
        (fi_machine.slot_mem ex_fi_machine ! i) (dproc.slot_mem r ! i) (dproc.slot_mem (clock_run dp_edge (\<lambda>_. ex_input) m r) ! i))"
    by blast
  show ?thesis
  proof (rule exI [of _ n], intro conjI allI impI)
    fix r assume r: "dp_idle r \<and> received ex_fi_input (clock_run fi_edge (\<lambda>_. ex_fi_input) n ex_fi_machine) (pkt_mem r) \<and> dproc.slot_mem r ! 1 = ex_slot 0 0"
    then obtain m where m: "stu_done (clock_run dp_edge (\<lambda>_. ex_input) m r)" "\<forall>i < 4. learnt 5 (dp_input.global_sid ex_input)
        (fi_machine.slot_mem ex_fi_machine ! i) (dproc.slot_mem r ! i) (dproc.slot_mem (clock_run dp_edge (\<lambda>_. ex_input) m r) ! i)"
      using n(2) [of r] by blast
    from spec [OF m(2), of 1] have "learnt 5 (dp_input.global_sid ex_input) (ex_slot 2 5) (ex_slot 0 0)
        (dproc.slot_mem (clock_run dp_edge (\<lambda>_. ex_input) m r) ! 1)"
      using r ex_fi_slots(1) by simp
    from m(1) 2 [OF this] show "\<exists>m. stu_done (clock_run dp_edge (\<lambda>_. ex_input) m r) \<and>
        h_sid (dproc.slot_mem (clock_run dp_edge (\<lambda>_. ex_input) m r) ! 1) = 5" by blast
  qed (use n(1) in simp)
qed

end
