(* ===== verification/Spec2Isabelle.thy ===== *)
theory Spec2Isabelle
  imports Two_Nodes Sat_Packet Sat_Queue Fpga_Divider Fpga_Bch Fpga_Equiv Fpga_Link
begin

text \<open>
  A TDMA medium access protocol for vehicular networks, in the three implementations of this
  repository: the MAC of the ns-2 simulator (\<open>src/ns2/mac\<close>), parts of its port to ns-3
  (\<open>src/ns3/satmac\<close>), and the FPGA middleware of the real nodes
  (\<open>src/real/axi_tdma_ath9k_middleware_project/src\<close>).

  \<^bold>\<open>The program.\<close> Time is divided into frames of slots. A node keeps a table with the status, the
  occupier and the age of every slot. It listens for a frame, chooses a free slot, its broadcast
  channel (BCH), requests it by sending in it, and works in it when its neighbours confirm it. In
  its slot it broadcasts its table in a frame-information (FI) packet; its neighbours merge the
  table into their own. Conflicting reports mark a slot as collided, silent nodes are forgotten, and
  the frame length follows the load.

  \<^bold>\<open>Theories.\<close> The ns-2 MAC, \<open>mac-tdma.cc\<close> and \<open>mac-tdma.h\<close>:
  \<^item> \<open>Tdma_Prelude\<close>: machine types, bounds-checked arrays, the C loop, lemma collections.
  \<^item> \<open>Fi_Codec\<close>: \<open>setvalue\<close> and \<open>decode_value\<close>, which write and read bit fields across bytes. The
    locale \<open>bit_codec\<close> is what the packet code relies on.
  \<^item> \<open>Float32\<close>: the single-precision quotient the code compares with thresholds.
  \<^item> \<open>Slot_Table\<close>: \<open>slot_tag\<close>, \<open>Frame_info\<close>, the node's table as the record \<open>tdma\<close>, the list of
    received frames, and the operations on them. \<open>Slot_Example\<close> has concrete tables.
  \<^item> \<open>Merge_Fi\<close>: \<open>merge_fi\<close> and \<open>synthesize_fi_list\<close>. \<open>Table_Invariants\<close>: the locale
    \<open>tag_invariant\<close> lifts a condition on one slot to the table; that stale slots disappear.
  \<^item> \<open>Bch_Select\<close>: \<open>determine_BCH\<close>, \<open>adjust_is_needed\<close>, \<open>adjFrameLen\<close>.
  \<^item> \<open>Packet_Queue\<close>: \<open>Packet_queue\<close>, a linked list in an explicit store, against the locale
    \<open>bounded_queue\<close>.
  \<^item> \<open>Fi_Packet\<close>, \<open>Mac_Packet\<close>: the payload of FI packets, \<open>generate_FI_packet\<close> and \<open>recvFI\<close>; headers,
    transmission times and packet construction.
  \<^item> \<open>Mac_State\<close>: the object \<open>MacTdma\<close> as the record \<open>mac\<close>, its timers, constructor and start-up.
    \<open>Mac_Example\<close> has concrete objects.
  \<^item> \<open>Slot_Handler\<close>: \<open>slotHandler\<close> with every protocol state, and the protocol machine \<open>node_step\<close>.
  \<^item> \<open>Mac_Link\<close>: \<open>recv\<close>, \<open>sendUp\<close>, collisions, \<open>recvHandler\<close>, \<open>sendHandler\<close>, \<open>backoffHandler\<close>.
  \<^item> \<open>Mac_Node\<close>: all handlers as one transition system. \<open>Two_Nodes\<close>: a sender and a listener.

  The ns-3 port: \<open>Sat_Packet\<close> (\<open>FiHeader\<close> of \<open>satmac-packet.cc\<close>, \<open>recvFI\<close>) and \<open>Sat_Queue\<close>
  (\<open>tdma-mac-queue.cc\<close> against the locale \<open>timed_queue\<close>).

  The FPGA, where one clock edge is a function on the record of the registers and the block memories:
  \<^item> \<open>Clocked\<close>: runs of such functions and bounded reachability. The locale \<open>clocked\<close> says that a busy
    machine depends on a part of its inputs only; it is interpreted for the two machines below.
  \<^item> \<open>Fpga_Slot\<close>: slot status words, FI entries, block memories.
  \<^item> \<open>Fpga_Merge\<close>, \<open>Fpga_Update\<close>: the slot table updater of \<open>desc_processor.v\<close> and its neighbour check.
  \<^item> \<open>Fpga_Equiv\<close>: the same update against \<open>merge_fi\<close> of the simulator.
  \<^item> \<open>Fpga_Bch\<close>, \<open>Fpga_Fi\<close>, \<open>Fpga_Clock\<close>: slot access, FI packet machine, and slot clock with frame length
    of \<open>tdma_control.v\<close>.
  \<^item> \<open>Fpga_Divider\<close>: \<open>simple_divider.v\<close>.
  \<^item> \<open>Fpga_Link\<close>: the FI machine of one node and the updater of another.

  \<^bold>\<open>Conventions.\<close> Unsigned fields and registers are words of their width and wrap; C \<open>int\<close>s are \<open>int\<close>,
  times are rationals. An access out of bounds, a null pointer, a failing \<open>assert\<close> and \<open>exit\<close> are
  \<open>None\<close>. What an operation does outside its object is a list of effects. Code outside the
  repository is a parameter: the random generator, the address macros of ns-2 (hypothesis
  \<open>marshal_ok\<close>), and the position of a node.

  \<^bold>\<open>What is shown.\<close>
  \<^item> Robustness: no sequence of timer events and packets of any content makes the ns-2 node abort;
    every handler returns; packets are accounted for exactly once in the link and in the queues.
  \<^item> Protocol: the slot handler moves along the protocol machine, sends in the slot it holds and
    gives up a lost slot; \<open>determine_BCH\<close> picks only free or own slots; a listener does not choose a slot
    that was announced to it. The slot machine of the FPGA refines the same protocol machine and
    opens the transmitter in a confirmed slot only.
  \<^item> Tables: merging keeps the table well-formed, learns and releases slots, marks collisions and
    never makes a node an owner; stale slots are forgotten within a bounded number of frames.
  \<^item> Encodings: round trips of the FI packet in ns-2, ns-3 and the FPGA, each with its exact limits.
  \<^item> FPGA: the updater computes the function \<open>hw_merge\<close> within a bounded number of clock edges;
    \<open>hw_merge\<close> and \<open>merge_fi\<close> agree on slots of other nodes; a packet built by one node is merged by the
    other without stopping; slot words stay well-formed; nodes with the same GPS pulses agree on
    the slot; the divider divides.
  \<^item> Deviations, proved as such: a straddling field is misread, a long frame leaves the table, a
    re-enabled node sends unrequested, the first slot is misaligned, data packets are never sent;
    in the FPGA a frame of 128 slots or a malformed entry stops the updater, and a collision that
    the simulator notices is missed.

  \<^bold>\<open>Bounds.\<close> Loops over slots are bounded by the frame length; there is no fuel. Loops over linked lists are
  recursions on the list the store represents. The FPGA machines are shown to finish in \<open>2 L (3 F +
  51) + 8\<close> edges (merge), \<open>32 L + 4\<close> edges (FI packet) and 68 edges (division), for a received frame of
  \<open>L \<le> 64\<close> slots and a current frame of \<open>F\<close>; longer frames do not end, which is proved. While a
  machine is busy its configuration inputs (identifier, frame length, enable) are held.

  \<^bold>\<open>Not modelled.\<close>
  \<^item> ns-2: output of traces, the Tcl interface, the destructor of \<open>MacTdma\<close>, the text of log lines; the
    simulator itself and \<open>src/ns2/adhoc-mac\<close>, a variant of \<open>mac-tdma.cc\<close>. The rounding of \<open>double\<close> times.
  \<^item> ns-3: \<open>tdma-satmac.cc\<close> but for \<open>recvFI\<close> and the queue access, since its slot handler, merge and slot
    choice repeat \<open>mac-tdma.cc\<close> and the rest drives classes of ns-3; the changed wifi and wave files
    and the neighbour application, which depend on ns-3.
  \<^item> FPGA: the slot choice (FCB) machine, whose candidates go through generated FIFO cores; the bus
    arbiters, the ping test, interrupt and descriptor handling, the register file and the bus
    machines, which exchange data with vendor cores and with the radio; these are inputs of the
    modelled machines. The two machines that share the slot memory are modelled one at a time, each
    with its own port.
  \<^item> The ath9k driver, the device tree and the GPS and serial tools: hardware and kernel interfaces.
\<close>

end
